(* ===== verification/Prelude.thy ===== *)
theory Prelude
  imports Main "HOL-Library.Word"
begin

text \<open>
  Shared vocabulary of the development: machine types of the 64-bit build, the
  ways in which a kernel operation can fail to return (\<open>fault\<close>), the sequencing
  of fallible operations (\<open>bnd\<close>), spinlocks (\<^verbatim>\<open>src/spinlock.c\<close>), the error
  numbers of \<^verbatim>\<open>include/errno.h\<close>, and the generic lemmas on lists and
  search loops that the component theories use.
\<close>

unbundle bit_operations_syntax

section \<open>Machine types\<close>

type_synonym byte = "8 word"
type_synonym u32 = "32 word"
type_synonym regsize = "64 word"
type_synonym addr = "64 word"

named_theorems kdefs \<open>definitions of operations, unfolded in component proofs\<close>
named_theorems kconsts \<open>numeric constants of the headers\<close>

section \<open>Outcomes of kernel code\<close>

text \<open>
  Kernel code that never hands control back is a value: a write or a read
  through a null pointer, an array access out of bounds, a spinlock that is
  already held (one hart runs the kernel with interrupts off, so nobody can
  release it), a loop or recursion that does not end, a read of one structure
  through a pointer to another, a call of \<open>panic\<close>.
\<close>

datatype fault =
    NullDeref
  | OutOfBounds
  | Deadlock
  | Diverges
  | BadCast
  | Panic string

type_synonym 'a res = "fault + 'a"

definition bnd :: "'a res \<Rightarrow> ('a \<Rightarrow> 'b res) \<Rightarrow> 'b res" where
  "bnd m f = (case m of Inl e \<Rightarrow> Inl e | Inr x \<Rightarrow> f x)"

lemma bnd_Inl [simp]: "bnd (Inl e) f = Inl e"
  by (simp add: bnd_def)

lemma bnd_Inr [simp]: "bnd (Inr x) f = f x"
  by (simp add: bnd_def)

lemma bnd_eq_Inr [simp]: "bnd m f = Inr y \<longleftrightarrow> (\<exists>x. m = Inr x \<and> f x = Inr y)"
  by (simp add: bnd_def split: sum.splits)

lemma bnd_eq_Inl: "bnd m f = Inl e \<longleftrightarrow> m = Inl e \<or> (\<exists>x. m = Inr x \<and> f x = Inl e)"
  by (auto simp add: bnd_def split: sum.splits)

lemma bnd_assoc: "bnd (bnd m f) g = bnd m (\<lambda>x. bnd (f x) g)"
  by (simp add: bnd_def split: sum.splits)

lemma bnd_cong [fundef_cong]:
  "m = m' \<Longrightarrow> (\<And>x. m' = Inr x \<Longrightarrow> f x = f' x) \<Longrightarrow> bnd m f = bnd m' f'"
  by (auto simp add: bnd_def split: sum.splits)

section \<open>Spinlocks\<close>

text \<open>
  \<^verbatim>\<open>__sync_lock_test_and_set\<close> returns the old value and stores 1. With a single
  hart that runs with interrupts disabled, a set lock is never cleared while the
  loop spins: \<open>acquire\<close> either takes the lock at once or never returns.
\<close>

type_synonym spinlock = u32

definition acquire :: "spinlock \<Rightarrow> spinlock res" where
  "acquire l = (if l = 0 then Inr 1 else Inl Deadlock)"

definition release :: "spinlock \<Rightarrow> spinlock" where
  "release l = 0"

lemma acquire_free [simp]: "acquire 0 = Inr 1"
  by (simp add: acquire_def)

lemma acquire_held [simp]: "l \<noteq> 0 \<Longrightarrow> acquire l = Inl Deadlock"
  by (simp add: acquire_def)

lemma acquire_eq_Inr [simp]: "acquire l = Inr l' \<longleftrightarrow> l = 0 \<and> l' = 1"
  by (auto simp add: acquire_def)

lemma release_free [simp]: "release l = 0"
  by (simp add: release_def)

section \<open>Error numbers\<close>

definition ENOENT :: int where [simp, kconsts]: "ENOENT = 2"
definition ESRCH :: int where [simp, kconsts]: "ESRCH = 3"
definition EBADF :: int where [simp, kconsts]: "EBADF = 9"
definition ENOMEM :: int where [simp, kconsts]: "ENOMEM = 12"
definition EFAULT :: int where [simp, kconsts]: "EFAULT = 14"
definition EBUSY :: int where [simp, kconsts]: "EBUSY = 16"
definition EINVAL :: int where [simp, kconsts]: "EINVAL = 22"
definition ENFILE :: int where [simp, kconsts]: "ENFILE = 23"
definition EMFILE :: int where [simp, kconsts]: "EMFILE = 24"
definition EPIPE :: int where [simp, kconsts]: "EPIPE = 32"
definition ENOSYS :: int where [simp, kconsts]: "ENOSYS = 38"
definition EBADFD :: int where [simp, kconsts]: "EBADFD = 77"
definition ENOBUFS :: int where [simp, kconsts]: "ENOBUFS = 105"

section \<open>Search loops\<close>

text \<open>
  \<^verbatim>\<open>for (i = 0; i < N; i++) if (cond(a[i])) { ... return; }\<close> acts on the first
  index that satisfies the condition.
\<close>

fun find_index :: "('a \<Rightarrow> bool) \<Rightarrow> 'a list \<Rightarrow> nat option" where
  "find_index P [] = None"
| "find_index P (x # xs) = (if P x then Some 0 else map_option Suc (find_index P xs))"

lemma find_index_None: "find_index P xs = None \<longleftrightarrow> (\<forall>x \<in> set xs. \<not> P x)"
  by (induction xs) auto

lemma find_index_Some:
  "find_index P xs = Some i \<longleftrightarrow> i < length xs \<and> P (xs ! i) \<and> (\<forall>j < i. \<not> P (xs ! j))"
proof (induction xs arbitrary: i)
  case Nil
  then show ?case by simp
next
  case (Cons x xs)
  show ?case
  proof (cases i)
    case 0
    then show ?thesis by (cases "find_index P xs") auto
  next
    case (Suc k)
    have "(\<forall>j < Suc k. \<not> P ((x # xs) ! j)) \<longleftrightarrow> \<not> P x \<and> (\<forall>j < k. \<not> P (xs ! j))"
      by (auto simp: less_Suc_eq_0_disj)
    then show ?thesis using Suc Cons.IH [of k] by auto
  qed
qed

lemma find_index_SomeD:
  assumes "find_index P xs = Some i"
  shows "i < length xs" "P (xs ! i)" "\<And>j. j < i \<Longrightarrow> \<not> P (xs ! j)"
  using assms by (auto simp: find_index_Some)

lemma find_index_ex: "x \<in> set xs \<Longrightarrow> P x \<Longrightarrow> \<exists>i. find_index P xs = Some i"
  by (cases "find_index P xs") (auto simp: find_index_None)

section \<open>Words\<close>

lemma unat_of_nat64 [simp]: "n < 2 ^ 64 \<Longrightarrow> unat (of_nat n :: 64 word) = n"
  by (simp add: unat_of_nat)

lemma unat_of_nat32 [simp]: "n < 2 ^ 32 \<Longrightarrow> unat (of_nat n :: 32 word) = n"
  by (simp add: unat_of_nat)

lemma unat_lt64: "unat (x :: 64 word) < 2 ^ 64"
  using unsigned_less [of x] by simp

lemma unat_lt32: "unat (x :: 32 word) < 2 ^ 32"
  using unsigned_less [of x] by simp

section \<open>Lists updated by index\<close>

lemma filter_length_update:
  "i < length xs \<Longrightarrow>
   length (filter P (xs[i := v])) + (if P (xs ! i) then 1 else 0) =
   length (filter P xs) + (if P v then 1 else 0)"
proof (induction xs arbitrary: i)
  case Nil
  then show ?case by simp
next
  case (Cons x xs)
  then show ?case by (cases i) (auto split: if_splits dest!: Cons.IH)
qed

lemma list_all_update: "list_all P xs \<Longrightarrow> P v \<Longrightarrow> list_all P (xs[i := v])"
  by (auto simp: list_all_iff dest!: set_update_subset_insert [THEN subsetD])

lemma distinct_map_update_same:
  "i < length xs \<Longrightarrow> f v = f (xs ! i) \<Longrightarrow> map f (xs[i := v]) = map f xs"
  by (simp add: map_update list_update_same_conv)

lemma key_update_set:
  assumes "distinct (map f xs)" "i < length xs" "f v = f (xs ! i)"
  shows "{(f x, g x) |x. x \<in> set (xs[i := v]) \<and> P x} =
         {(f x, g x) |x. x \<in> set xs \<and> P x \<and> f x \<noteq> f v} \<union> (if P v then {(f v, g v)} else {})"
proof -
  have "set (xs[i := v]) = insert v (set xs - {xs ! i})"
    using assms(1,2) by (simp add: distinct_map set_update_distinct)
  moreover have "x \<in> set xs - {xs ! i} \<longleftrightarrow> x \<in> set xs \<and> f x \<noteq> f v" for x
    using assms by (auto simp: distinct_map dest: inj_onD)
  ultimately show ?thesis by auto
qed

lemma key_image_update:
  assumes "distinct (map f xs)" "i < length xs" "f v = f (xs ! i)"
  shows "f ` {x \<in> set (xs[i := v]). P x} =
         (if P v then insert (f v) (f ` {x \<in> set xs. P x}) else f ` {x \<in> set xs. P x} - {f v})"
proof -
  have *: "f ` {x \<in> A. P x} = fst ` {(f x, f x) |x. x \<in> A \<and> P x}" for A
    by force
  show ?thesis
    unfolding * key_update_set [OF assms] by force
qed

lemma length_filter_card:
  assumes "distinct (map f xs)"
  shows "length (filter P xs) = card (f ` {x \<in> set xs. P x})"
proof -
  have "distinct (map f (filter P xs))"
    using assms by (rule distinct_map_filter)
  from distinct_card [OF this] show ?thesis by simp
qed

end
