(* ===== verification/Memory.thy ===== *)
theory Memory
  imports Prelude
begin

text \<open>
  Physical memory as bytes, little-endian words on top of it, and the two bulk
  operations of the kernel: \<^verbatim>\<open>memset\<close> (\<^verbatim>\<open>src/mem.c\<close>) and \<^verbatim>\<open>copy_page\<close>
  (\<^verbatim>\<open>src/pagealloc.c\<close>). Addresses are 64-bit words; a range is described by
  the offset \<open>unat (x - a)\<close> from its base, which is right across wrap-around.
\<close>

section \<open>Bytes and little-endian words\<close>

type_synonym memory = "addr \<Rightarrow> byte"

fun store_bytes :: "memory \<Rightarrow> addr \<Rightarrow> byte list \<Rightarrow> memory" where
  "store_bytes m a [] = m"
| "store_bytes m a (b # bs) = store_bytes (m(a := b)) (a + 1) bs"

fun load_bytes :: "memory \<Rightarrow> addr \<Rightarrow> nat \<Rightarrow> byte list" where
  "load_bytes m a 0 = []"
| "load_bytes m a (Suc n) = m a # load_bytes m (a + 1) n"

fun bytes_le :: "nat \<Rightarrow> 'a::len word \<Rightarrow> byte list" where
  "bytes_le 0 v = []"
| "bytes_le (Suc n) v = ucast v # bytes_le n (drop_bit 8 v)"

fun word_le :: "byte list \<Rightarrow> 'a::len word" where
  "word_le [] = 0"
| "word_le (b # bs) = ucast b OR push_bit 8 (word_le bs)"

definition load64 :: "memory \<Rightarrow> addr \<Rightarrow> regsize" where
  "load64 m a = word_le (load_bytes m a 8)"

definition store64 :: "memory \<Rightarrow> addr \<Rightarrow> regsize \<Rightarrow> memory" where
  "store64 m a v = store_bytes m a (bytes_le 8 v)"

definition load32 :: "memory \<Rightarrow> addr \<Rightarrow> u32" where
  "load32 m a = word_le (load_bytes m a 4)"

definition store32 :: "memory \<Rightarrow> addr \<Rightarrow> u32 \<Rightarrow> memory" where
  "store32 m a v = store_bytes m a (bytes_le 4 v)"

section \<open>Bulk operations\<close>

definition PAGE_SIZE :: regsize where [simp, kconsts]: "PAGE_SIZE = 4096"

function memset_words :: "memory \<Rightarrow> addr \<Rightarrow> regsize \<Rightarrow> regsize \<Rightarrow> memory \<times> addr \<times> regsize" where
  "memset_words m ptr sz value =
     (if sz \<ge> 8 then memset_words (store64 m ptr value) (ptr + 8) (sz - 8) value
      else (m, ptr, sz))"
  by pat_completeness auto
termination
  by (relation "measure (\<lambda>(m, ptr, sz, value). unat sz)")
    (auto simp: word_le_nat_alt unat_sub)

function memset_tail :: "memory \<Rightarrow> addr \<Rightarrow> regsize \<Rightarrow> regsize \<Rightarrow> memory" where
  "memset_tail m ptr sz value =
     (if sz > 0 then memset_tail (m(ptr := ucast (value AND 0xff))) (ptr + 1) (sz - 1) (drop_bit 8 value)
      else m)"
  by pat_completeness auto
termination
  by (relation "measure (\<lambda>(m, ptr, sz, value). unat sz)")
    (auto simp: word_neq_0_conv intro: measure_unat)

definition memset :: "memory \<Rightarrow> addr \<Rightarrow> regsize \<Rightarrow> regsize \<Rightarrow> memory" where
  "memset m ptr sz value =
     (case memset_words m ptr sz value of (m', ptr', sz') \<Rightarrow> memset_tail m' ptr' sz' value)"

fun copy_words :: "memory \<Rightarrow> addr \<Rightarrow> addr \<Rightarrow> nat \<Rightarrow> memory" where
  "copy_words m dst src 0 = m"
| "copy_words m dst src (Suc n) = copy_words (store64 m dst (load64 m src)) (dst + 8) (src + 8) n"

definition copy_page :: "memory \<Rightarrow> addr \<Rightarrow> addr \<Rightarrow> memory" where
  "copy_page m dst src = copy_words m dst src (unat (PAGE_SIZE div 8))"

declare memset_words.simps [simp del] memset_tail.simps [simp del]

section \<open>Byte ranges\<close>

lemma length_load_bytes [simp]: "length (load_bytes m a n) = n"
  by (induction n arbitrary: a) auto

lemma length_bytes_le [simp]: "length (bytes_le n v) = n"
  by (induction n arbitrary: v) auto

lemma unat_diff_succ:
  fixes x a :: addr
  assumes "x \<noteq> a"
  shows "unat (x - a) = Suc (unat (x - (a + 1)))"
proof -
  have "x - a \<noteq> 0" using assms by simp
  then have "unat (x - a - 1) = unat (x - a) - 1" by (rule unat_minus_one)
  moreover have "unat (x - a) \<noteq> 0" using \<open>x - a \<noteq> 0\<close> by (simp add: unat_eq_0)
  ultimately show ?thesis by (simp add: diff_diff_eq)
qed

lemma store_bytes_apply:
  "length bs \<le> 2 ^ 64 \<Longrightarrow>
   store_bytes m a bs x = (if unat (x - a) < length bs then bs ! unat (x - a) else m x)"
proof (induction bs arbitrary: m a)
  case Nil
  then show ?case by simp
next
  case (Cons b bs)
  show ?case
  proof (cases "x = a")
    case True
    have "unat (a - (a + 1)) = 2 ^ 64 - 1"
      by (simp add: unsigned_minus_1_eq_mask mask_eq_exp_minus_1)
    then show ?thesis using True Cons by (simp add: Cons.IH)
  next
    case False
    then show ?thesis using Cons by (simp add: Cons.IH unat_diff_succ [OF False])
  qed
qed

lemma nth_load_bytes: "i < n \<Longrightarrow> load_bytes m a n ! i = m (a + of_nat i)"
proof (induction n arbitrary: a i)
  case 0
  then show ?case by simp
next
  case (Suc n)
  then show ?case by (cases i) (auto simp: add.assoc)
qed

lemma load_bytes_cong:
  "(\<And>i. i < n \<Longrightarrow> m (a + of_nat i) = m' (a' + of_nat i)) \<Longrightarrow> load_bytes m a n = load_bytes m' a' n"
  by (rule nth_equalityI) (auto simp: nth_load_bytes)

lemma load_bytes_store_bytes:
  "length bs \<le> 2 ^ 64 \<Longrightarrow> load_bytes (store_bytes m a bs) a (length bs) = bs"
  by (rule nth_equalityI) (simp_all add: nth_load_bytes store_bytes_apply)

lemma store_bytes_append:
  "store_bytes m a (bs @ cs) = store_bytes (store_bytes m a bs) (a + of_nat (length bs)) cs"
  by (induction bs arbitrary: m a) (auto simp: add.assoc)

text \<open>Two ranges are apart when neither base lies in the other range.\<close>

definition apart :: "addr \<Rightarrow> nat \<Rightarrow> addr \<Rightarrow> nat \<Rightarrow> bool" where
  "apart a n b k \<longleftrightarrow> n \<le> unat (b - a) \<and> k \<le> unat (a - b)"

lemma apart_sym: "apart a n b k \<longleftrightarrow> apart b k a n"
  by (auto simp: apart_def)

lemma apart_outside:
  assumes "apart a n b k" "j < k"
  shows "n \<le> unat (b + of_nat j - a)"
proof -
  have j: "j < 2 ^ 64"
    using assms unat_lt64 [of "a - b"] by (simp add: apart_def)
  then show ?thesis
    using assms unat_lt64 [of a] unat_lt64 [of b]
    by (auto simp: apart_def unat_sub_if' unat_plus_if' split: if_splits)
qed

lemma load_bytes_apart:
  assumes "apart a (length bs) b k" "length bs \<le> 2 ^ 64"
  shows "load_bytes (store_bytes m a bs) b k = load_bytes m b k"
  using assms(2) by (intro load_bytes_cong) (auto simp: store_bytes_apply dest!: apart_outside [OF assms(1)])

section \<open>Words\<close>

lemma word_le_bytes_le: "word_le (bytes_le n v) = take_bit (8 * n) v"
proof (induction n arbitrary: v)
  case 0
  then show ?case by simp
next
  case (Suc n)
  show ?case
    by (rule bit_word_eqI) (auto simp: Suc.IH bit_simps not_less)
qed

lemma load64_store64 [simp]: "load64 (store64 m a v) a = v"
  using load_bytes_store_bytes [of "bytes_le 8 v" m a]
  by (simp add: load64_def store64_def word_le_bytes_le take_bit_word_eq_self)

lemma load32_store32 [simp]: "load32 (store32 m a v) a = v"
  using load_bytes_store_bytes [of "bytes_le 4 v" m a]
  by (simp add: load32_def store32_def word_le_bytes_le take_bit_word_eq_self)

lemma load64_store64_apart: "apart a 8 b 8 \<Longrightarrow> load64 (store64 m a v) b = load64 m b"
  by (simp add: load64_def store64_def load_bytes_apart)

lemma load64_cong:
  "(\<And>i. i < 8 \<Longrightarrow> m (a + of_nat i) = m' (a' + of_nat i)) \<Longrightarrow> load64 m a = load64 m' a'"
  by (simp add: load64_def cong: load_bytes_cong)

lemma store64_apply:
  "store64 m a v x = (if unat (x - a) < 8 then bytes_le 8 v ! unat (x - a) else m x)"
  by (simp add: store64_def store_bytes_apply)

section \<open>What memset and copy\_page do\<close>

lemma nth_bytes_le: "i < n \<Longrightarrow> bytes_le n v ! i = ucast (drop_bit (8 * i) v)"
proof (induction n arbitrary: v i)
  case 0
  then show ?case by simp
next
  case (Suc n)
  then show ?case by (cases i) (auto simp: drop_bit_drop_bit algebra_simps)
qed

lemma ucast_and_ff: "(ucast (v AND 0xff :: regsize) :: byte) = ucast v"
proof -
  have "(ucast (v AND mask 8 :: regsize) :: byte) = ucast v"
    by (rule bit_word_eqI) (auto simp: bit_simps)
  then show ?thesis by (simp add: mask_eq_exp_minus_1)
qed

lemma memset_words_eq:
  "memset_words m p n v =
     (store_bytes m p (concat (replicate (unat n div 8) (bytes_le 8 v))),
      p + of_nat (8 * (unat n div 8)), of_nat (unat n mod 8))"
proof (induction m p n v rule: memset_words.induct)
  case (1 m p n v)
  show ?case
  proof (cases "n \<ge> 8")
    case True
    then have n: "unat n = unat (n - 8) + 8"
      by (simp add: unat_sub word_le_nat_alt)
    then have d: "unat n div 8 = Suc (unat (n - 8) div 8)" "unat n mod 8 = unat (n - 8) mod 8"
      by simp_all
    show ?thesis
      using True "1.IH"
      by (simp add: memset_words.simps [of m p n v] d store64_def store_bytes_append add.assoc)
  next
    case False
    then show ?thesis
      by (simp add: memset_words.simps [of m p n v] word_le_nat_alt)
  qed
qed

lemma memset_tail_eq: "memset_tail m p n v = store_bytes m p (bytes_le (unat n) v)"
proof (induction m p n v rule: memset_tail.induct)
  case (1 m p n v)
  show ?case
  proof (cases "n > 0")
    case True
    then have "unat n = Suc (unat (n - 1))"
      by (simp add: unat_minus_one word_neq_0_conv [symmetric] unat_gt_0)
    then show ?thesis
      using "1.IH" [OF True] True
      by (simp add: memset_tail.simps [of m p n v] ucast_and_ff del: fun_upd_apply)
  next
    case False
    then have "n = 0" by (simp add: word_neq_0_conv [symmetric])
    then show ?thesis by (simp add: memset_tail.simps [of m p 0 v])
  qed
qed

lemma nth_concat_replicate:
  "i < k * length xs \<Longrightarrow> concat (replicate k xs) ! i = xs ! (i mod length xs)"
proof (induction k arbitrary: i)
  case 0
  then show ?case by simp
next
  case (Suc k)
  show ?case
  proof (cases "i < length xs")
    case True
    then show ?thesis by (simp add: nth_append)
  next
    case False
    then have "i - length xs < k * length xs"
      using Suc.prems by auto
    then show ?thesis
      using False Suc.IH [of "i - length xs"] by (simp add: nth_append le_mod_geq)
  qed
qed

lemma length_concat_replicate [simp]: "length (concat (replicate k xs)) = k * length xs"
  by (induction k) auto

lemma memset_apply:
  "memset m p n v x =
     (if unat (x - p) < unat n then bytes_le 8 v ! (unat (x - p) mod 8) else m x)"
proof -
  let ?bs = "concat (replicate (unat n div 8) (bytes_le 8 v)) @ bytes_le (unat n mod 8) v"
  have mem: "memset m p n v = store_bytes m p ?bs"
    by (simp add: memset_def memset_words_eq memset_tail_eq store_bytes_append mult.commute)
  have len: "length ?bs = unat n"
    by simp
  have nth: "?bs ! i = bytes_le 8 v ! (i mod 8)" if "i < unat n" for i
  proof (cases "i < unat n div 8 * 8")
    case True
    then show ?thesis by (simp add: nth_append nth_concat_replicate)
  next
    case False
    define t where "t = i - unat n div 8 * 8"
    have i: "i = t + unat n div 8 * 8"
      using False by (simp add: t_def)
    then have t: "t < unat n mod 8"
      using that mod_div_mult_eq [of "unat n" 8] by linarith
    moreover have "i mod 8 = t"
      using t less_trans [OF t mod_less_divisor [of 8 "unat n"]] by (simp add: i)
    ultimately show ?thesis
      using False by (simp add: nth_append nth_bytes_le t_def)
  qed
  have "length ?bs \<le> 2 ^ 64"
    using unat_lt64 [of n] unfolding len by (rule less_imp_le)
  then have "memset m p n v x = (if unat (x - p) < length ?bs then ?bs ! unat (x - p) else m x)"
    unfolding mem by (rule store_bytes_apply)
  then show ?thesis
    unfolding len using nth [of "unat (x - p)"] by presburger
qed

lemma memset_zero_apply: "memset m p n 0 x = (if unat (x - p) < unat n then 0 else m x)"
  by (simp add: memset_apply nth_bytes_le)

lemma bit_word_le:
  "bit (word_le bs :: 'a::len word) k \<longleftrightarrow>
   k < LENGTH('a) \<and> k div 8 < length bs \<and> bit (bs ! (k div 8)) (k mod 8)"
proof (induction bs arbitrary: k)
  case Nil
  then show ?case by simp
next
  case (Cons b bs)
  show ?case
  proof (cases "k < 8")
    case True
    then show ?thesis by (auto simp: bit_simps)
  next
    case False
    then obtain j where k: "k = 8 + j"
      using le_Suc_ex [of 8 k] by auto
    then have "k div 8 = Suc (j div 8)" "k mod 8 = j mod 8"
      by simp_all
    moreover have "\<not> bit b k"
      using False bit_imp_le_length [of b k] by auto
    ultimately show ?thesis
      using Cons.IH [of j] by (auto simp: bit_simps k)
  qed
qed

lemma nth_bytes_load64:
  assumes "i < 8"
  shows "bytes_le 8 (load64 m a) ! i = m (a + of_nat i)"
proof (rule bit_word_eqI)
  fix j assume "j < LENGTH(8)"
  then have "(8 * i + j) div 8 = i" "(8 * i + j) mod 8 = j" "8 * i + j < 64"
    using assms by auto
  then show "bit (bytes_le 8 (load64 m a) ! i) j \<longleftrightarrow> bit (m (a + of_nat i)) j"
    using assms \<open>j < LENGTH(8)\<close>
    by (simp add: nth_bytes_le load64_def bit_simps bit_word_le nth_load_bytes)
qed

text \<open>A word copy from a range that the destination does not touch.\<close>

lemma copy_words_apply:
  assumes "apart d (8 * n) s (8 * n)" "8 * n < 2 ^ 64"
  shows "copy_words m d s n x = (if unat (x - d) < 8 * n then m (s + (x - d)) else m x)"
  using assms
proof (induction n arbitrary: m d s)
  case 0
  then show ?case by simp
next
  case (Suc n)
  let ?m = "store64 m d (load64 m s)" and ?o = "unat (x - d)"
  have "apart (d + 8) (8 * n) (s + 8) (8 * n)"
    using Suc.prems(1) by (simp add: apart_def algebra_simps)
  then have IH: "copy_words m d s (Suc n) x =
      (if unat (x - d - 8) < 8 * n then ?m (s + (x - d)) else ?m x)"
    using Suc.prems(2) by (simp add: Suc.IH algebra_simps)
  have src: "?m (s + (x - d)) = m (s + (x - d))" if "?o < 8 * Suc n"
  proof -
    have "apart d 8 s (8 * Suc n)"
      using Suc.prems(1) by (simp add: apart_def)
    from apart_outside [OF this that] show ?thesis
      by (simp add: store64_apply not_less)
  qed
  show ?case
  proof (cases "?o < 8")
    case True
    then have "\<not> unat (x - d - 8) < 8 * n"
      using Suc.prems(2) by (simp add: unat_sub_if' not_less)
    moreover have "?m x = m (s + (x - d))"
      using True by (simp add: store64_apply nth_bytes_load64)
    ultimately show ?thesis using True IH by simp
  next
    case False
    then have "unat (x - d - 8) = ?o - 8"
      by (simp add: unat_sub_if')
    then show ?thesis
      using False IH src by (simp add: store64_apply) (auto simp: not_less)
  qed
qed

lemma copy_page_apply:
  assumes "apart d 4096 s 4096"
  shows "copy_page m d s x = (if unat (x - d) < 4096 then m (s + (x - d)) else m x)"
  using copy_words_apply [of d 512 s m x] assms by (simp add: copy_page_def)

end
