(* ===== verification/Pagealloc.thy ===== *)
theory Pagealloc
  imports Memory
begin

text \<open>
  The physical page allocator, \<^verbatim>\<open>src/pagealloc.c\<close> and \<^verbatim>\<open>include/pagealloc.h\<close>,
  for the build with an MMU (48 pages). The array \<open>pages\<close> has \<open>MAX_PAGES\<close> slots of
  which the first \<open>num_pages\<close> describe real frames. The allocator's contract is
  the locale \<open>page_allocator\<close>: a finite set of frames and a partial map from
  frames to the process that owns them.
\<close>

section \<open>Data\<close>

definition MAX_PAGES :: nat where [simp, kconsts]: "MAX_PAGES = 48"
definition PAGE_FREE :: u32 where [simp, kconsts]: "PAGE_FREE = 0"
definition PAGE_ALLOCATED :: u32 where [simp, kconsts]: "PAGE_ALLOCATED = 1"
definition PAGE_USERMEM :: u32 where [simp, kconsts]: "PAGE_USERMEM = 2"

record page_t =
  pg_ptr :: addr
  pg_flags :: u32
  pg_site :: "string option"
  pg_pid :: u32

record paged_mem_t =
  pm_ksatp :: regsize
  pm_kpagetable :: addr
  pm_lock :: spinlock
  pm_pages :: "page_t list"
  pm_num_pages :: u32
  pm_unclaimed_start :: regsize
  pm_unclaimed_end :: regsize

definition PAGE_ROUND_DOWN :: "regsize \<Rightarrow> regsize" where
  "PAGE_ROUND_DOWN p = p AND NOT (PAGE_SIZE - 1)"

definition PAGE_ROUND_UP :: "regsize \<Rightarrow> regsize" where
  "PAGE_ROUND_UP p = PAGE_ROUND_DOWN p + PAGE_SIZE"

section \<open>Operations\<close>

text \<open>The loop of \<open>init_paged_memory\<close> that fills in the page descriptors.\<close>

function init_pages :: "regsize \<Rightarrow> regsize \<Rightarrow> nat \<Rightarrow> page_t list \<Rightarrow> page_t list \<times> nat" where
  "init_pages mem end_addr i pages =
     (if mem < end_addr \<and> i < MAX_PAGES then
        init_pages (mem + PAGE_SIZE) end_addr (Suc i)
          (pages[i := \<lparr>pg_ptr = mem, pg_flags = PAGE_FREE, pg_site = None, pg_pid = -1\<rparr>])
      else (pages, i))"
  by pat_completeness auto
termination
  by (relation "measure (\<lambda>(mem, end_addr, i, pages). MAX_PAGES - i)") auto

text \<open>
  \<open>init_paged_memory\<close> up to the construction of the kernel page table; \<open>heap_start\<close>
  is the linker symbol. The page table part follows in the theory of \<^verbatim>\<open>src/vm.c\<close>.
\<close>

definition init_paged_memory_pages :: "regsize \<Rightarrow> regsize \<Rightarrow> paged_mem_t \<Rightarrow> paged_mem_t" where
  "init_paged_memory_pages heap_start paged_mem_end pm =
     (let mem = PAGE_ROUND_UP heap_start;
          (pages, i) = init_pages mem paged_mem_end 0 (pm_pages pm)
      in pm\<lparr>pm_lock := 0, pm_unclaimed_start := heap_start, pm_unclaimed_end := mem,
            pm_pages := pages, pm_num_pages := of_nat i\<rparr>)"

definition pages_in_use :: "paged_mem_t \<Rightarrow> page_t list" where
  "pages_in_use pm = take (unat (pm_num_pages pm)) (pm_pages pm)"

definition allocate_page :: "string \<Rightarrow> u32 \<Rightarrow> u32 \<Rightarrow> paged_mem_t \<Rightarrow> (addr \<times> paged_mem_t) res" where
  "allocate_page site pid flags pm =
     bnd (acquire (pm_lock pm)) (\<lambda>l.
     case find_index (\<lambda>pg. pg_flags pg = PAGE_FREE) (pages_in_use pm) of
       Some i \<Rightarrow>
         (let pg = (pm_pages pm ! i)\<lparr>pg_flags := flags OR PAGE_ALLOCATED,
                                     pg_site := Some site, pg_pid := pid\<rparr>
          in Inr (pg_ptr pg, pm\<lparr>pm_pages := (pm_pages pm)[i := pg], pm_lock := release l\<rparr>))
     | None \<Rightarrow> Inr (0, pm\<lparr>pm_lock := release l\<rparr>))"

definition kalloc :: "string \<Rightarrow> u32 \<Rightarrow> paged_mem_t \<Rightarrow> (addr \<times> paged_mem_t) res" where
  "kalloc site pid pm = allocate_page site pid 0 pm"

definition release_page :: "addr \<Rightarrow> paged_mem_t \<Rightarrow> paged_mem_t res" where
  "release_page p pm =
     bnd (acquire (pm_lock pm)) (\<lambda>l.
     case find_index (\<lambda>pg. pg_ptr pg = p) (pages_in_use pm) of
       Some i \<Rightarrow>
         if pg_flags (pm_pages pm ! i) = PAGE_FREE then Inr (pm\<lparr>pm_lock := release l\<rparr>)
         else Inr (pm\<lparr>pm_pages := (pm_pages pm)[i := (pm_pages pm ! i)
                        \<lparr>pg_flags := PAGE_FREE, pg_site := None, pg_pid := -1\<rparr>],
                      pm_lock := release l\<rparr>)
     | None \<Rightarrow> Inr (pm\<lparr>pm_lock := release l\<rparr>))"

definition count_free_pages :: "paged_mem_t \<Rightarrow> u32" where
  "count_free_pages pm = of_nat (length (filter (\<lambda>pg. pg_flags pg = PAGE_FREE) (pages_in_use pm)))"

definition count_alloced_pages :: "u32 \<Rightarrow> paged_mem_t \<Rightarrow> u32" where
  "count_alloced_pages pid pm =
     of_nat (length (filter (\<lambda>pg. pg_flags pg \<noteq> PAGE_FREE \<and> pg_pid pg = pid) (pages_in_use pm)))"

declare init_pages.simps [simp del]

section \<open>Invariant and abstraction\<close>

definition page_aligned :: "addr \<Rightarrow> bool" where
  "page_aligned a \<longleftrightarrow> a AND 4095 = 0"

definition pm_wf :: "paged_mem_t \<Rightarrow> bool" where
  "pm_wf pm \<longleftrightarrow> pm_lock pm = 0 \<and> unat (pm_num_pages pm) \<le> length (pm_pages pm) \<and>
     length (pm_pages pm) = MAX_PAGES \<and> distinct (map pg_ptr (pages_in_use pm)) \<and>
     list_all (\<lambda>pg. pg_ptr pg \<noteq> 0 \<and> page_aligned (pg_ptr pg)) (pages_in_use pm)"

definition frames :: "paged_mem_t \<Rightarrow> addr set" where
  "frames pm = pg_ptr ` set (pages_in_use pm)"

definition taken :: "paged_mem_t \<Rightarrow> addr set" where
  "taken pm = pg_ptr ` {pg \<in> set (pages_in_use pm). pg_flags pg \<noteq> PAGE_FREE}"

definition owner :: "paged_mem_t \<Rightarrow> addr \<rightharpoonup> u32" where
  "owner pm = map_of (map (\<lambda>pg. (pg_ptr pg, pg_pid pg))
     (filter (\<lambda>pg. pg_flags pg \<noteq> PAGE_FREE) (pages_in_use pm)))"

section \<open>The allocator's contract\<close>

locale page_allocator =
  fixes alloc :: "'s \<Rightarrow> (addr \<times> 's) res"
    and free_page :: "addr \<Rightarrow> 's \<Rightarrow> 's res"
    and owned :: "'s \<Rightarrow> addr set"
    and all_frames :: "'s \<Rightarrow> addr set"
    and inv :: "'s \<Rightarrow> bool"
  assumes alloc_total: "inv s \<Longrightarrow> \<exists>p s'. alloc s = Inr (p, s')"
    and alloc_fresh: "inv s \<Longrightarrow> alloc s = Inr (p, s') \<Longrightarrow> p \<noteq> 0 \<Longrightarrow> p \<in> all_frames s - owned s"
    and alloc_owned: "inv s \<Longrightarrow> alloc s = Inr (p, s') \<Longrightarrow> p \<noteq> 0 \<Longrightarrow> owned s' = insert p (owned s)"
    and alloc_null: "inv s \<Longrightarrow> alloc s = Inr (0, s') \<Longrightarrow> s' = s \<and> all_frames s \<subseteq> owned s"
    and alloc_frames: "inv s \<Longrightarrow> alloc s = Inr (p, s') \<Longrightarrow> all_frames s' = all_frames s"
    and alloc_inv: "inv s \<Longrightarrow> alloc s = Inr (p, s') \<Longrightarrow> inv s'"
    and free_total: "inv s \<Longrightarrow> \<exists>s'. free_page p s = Inr s'"
    and free_owned: "inv s \<Longrightarrow> free_page p s = Inr s' \<Longrightarrow> owned s' = owned s - {p}"
    and free_frames: "inv s \<Longrightarrow> free_page p s = Inr s' \<Longrightarrow> all_frames s' = all_frames s"
    and free_inv: "inv s \<Longrightarrow> free_page p s = Inr s' \<Longrightarrow> inv s'"
    and owned_frames: "inv s \<Longrightarrow> owned s \<subseteq> all_frames s"
    and null_no_frame: "inv s \<Longrightarrow> 0 \<notin> all_frames s"
begin

lemma alloc_twice_distinct:
  assumes "inv s" "alloc s = Inr (p, s')" "p \<noteq> 0" "alloc s' = Inr (q, s'')" "q \<noteq> 0"
  shows "p \<noteq> q"
  using alloc_fresh [OF alloc_inv [OF assms(1,2)] assms(4,5)] alloc_owned [OF assms(1-3)] by auto

lemma alloc_free_owned:
  assumes "inv s" "alloc s = Inr (p, s')" "p \<noteq> 0" "free_page p s' = Inr s''"
  shows "owned s'' = owned s"
  using free_owned [OF alloc_inv [OF assms(1,2)] assms(4)] alloc_owned [OF assms(1-3)]
    alloc_fresh [OF assms(1-3)] by auto

lemma alloc_after_free:
  assumes "inv s" "p \<in> owned s" "free_page p s = Inr s'" "alloc s' = Inr (q, s'')"
  shows "q \<noteq> 0"
proof
  assume "q = 0"
  then have "all_frames s' \<subseteq> owned s'"
    using alloc_null free_inv assms by blast
  moreover have "p \<in> all_frames s'" "p \<notin> owned s'"
    using assms owned_frames free_frames free_owned by auto
  ultimately show False by auto
qed

end

section \<open>The operations meet the contract\<close>

lemma pages_in_use_nth: "i < length (pages_in_use pm) \<Longrightarrow> pages_in_use pm ! i = pm_pages pm ! i"
  by (simp add: pages_in_use_def)

lemma pages_in_use_update [simp]:
  "pages_in_use (pm\<lparr>pm_pages := (pm_pages pm)[i := pg]\<rparr>) = (pages_in_use pm)[i := pg]"
  by (simp add: pages_in_use_def take_update_swap)

lemma pages_in_use_lock [simp]: "pages_in_use (pm\<lparr>pm_lock := l\<rparr>) = pages_in_use pm"
  by (simp add: pages_in_use_def)

lemma pm_wf_lock: "pm_wf pm \<Longrightarrow> pm\<lparr>pm_lock := 0\<rparr> = pm"
  by (simp add: pm_wf_def)

lemma pm_wf_update:
  assumes "pm_wf pm" "i < length (pages_in_use pm)" "pg_ptr pg = pg_ptr (pm_pages pm ! i)"
  shows "pm_wf (pm\<lparr>pm_pages := (pm_pages pm)[i := pg], pm_lock := 0\<rparr>)"
proof -
  have "map pg_ptr ((pages_in_use pm)[i := pg]) = map pg_ptr (pages_in_use pm)"
    using assms by (intro distinct_map_update_same) (simp_all add: pages_in_use_nth)
  moreover have "list_all (\<lambda>pg. pg_ptr pg \<noteq> 0 \<and> page_aligned (pg_ptr pg)) ((pages_in_use pm)[i := pg])"
    using assms by (intro list_all_update) (auto simp: pm_wf_def pages_in_use_nth list_all_length)
  ultimately show ?thesis
    using assms by (simp add: pm_wf_def)
qed

text \<open>Both outcomes of \<open>allocate_page\<close> on a well-formed state.\<close>

lemma or_allocated [simp]: "flags OR 1 \<noteq> (0 :: u32)"
proof
  assume "flags OR 1 = (0 :: u32)"
  then have "bit (flags OR 1) 0 = bit (0 :: u32) 0" by simp
  then show False by (simp add: bit_simps)
qed

lemma allocate_page_cases:
  assumes "pm_wf pm"
  obtains (full) "allocate_page site pid flags pm = Inr (0, pm)" "frames pm \<subseteq> taken pm"
  | (got) i pg where
      "i < length (pages_in_use pm)" "pg_flags (pm_pages pm ! i) = PAGE_FREE"
      "pg = (pm_pages pm ! i)\<lparr>pg_flags := flags OR PAGE_ALLOCATED, pg_site := Some site, pg_pid := pid\<rparr>"
      "allocate_page site pid flags pm =
         Inr (pg_ptr pg, pm\<lparr>pm_pages := (pm_pages pm)[i := pg], pm_lock := 0\<rparr>)"
proof (cases "find_index (\<lambda>pg. pg_flags pg = PAGE_FREE) (pages_in_use pm)")
  case None
  then have "frames pm \<subseteq> taken pm"
    by (auto simp: find_index_None frames_def taken_def)
  moreover have "allocate_page site pid flags pm = Inr (0, pm)"
    using None assms by (simp add: allocate_page_def pm_wf_def)
  ultimately show ?thesis by (rule full [rotated])
next
  case (Some i)
  note D = find_index_SomeD [OF Some]
  show ?thesis
  proof (rule got [OF D(1) _ refl])
    show "pg_flags (pm_pages pm ! i) = PAGE_FREE"
      using D(1,2) by (simp add: pages_in_use_nth)
    show "allocate_page site pid flags pm =
        Inr (pg_ptr ((pm_pages pm ! i)\<lparr>pg_flags := flags OR PAGE_ALLOCATED, pg_site := Some site, pg_pid := pid\<rparr>),
             pm\<lparr>pm_pages := (pm_pages pm)[i := (pm_pages pm ! i)
               \<lparr>pg_flags := flags OR PAGE_ALLOCATED, pg_site := Some site, pg_pid := pid\<rparr>], pm_lock := 0\<rparr>)"
      using Some assms by (simp add: allocate_page_def pm_wf_def Let_def)
  qed
qed

lemma release_page_cases:
  assumes "pm_wf pm"
  obtains (noop) "release_page p pm = Inr pm" "p \<notin> taken pm"
  | (freed) i pg where
      "i < length (pages_in_use pm)" "pg_ptr (pm_pages pm ! i) = p"
      "pg_flags (pm_pages pm ! i) \<noteq> PAGE_FREE"
      "pg = (pm_pages pm ! i)\<lparr>pg_flags := PAGE_FREE, pg_site := None, pg_pid := -1\<rparr>"
      "release_page p pm = Inr (pm\<lparr>pm_pages := (pm_pages pm)[i := pg], pm_lock := 0\<rparr>)"
proof (cases "find_index (\<lambda>pg. pg_ptr pg = p) (pages_in_use pm)")
  case None
  then have "p \<notin> taken pm"
    by (auto simp: find_index_None taken_def)
  moreover have "release_page p pm = Inr pm"
    using None assms by (simp add: release_page_def pm_wf_def)
  ultimately show ?thesis by (rule noop [rotated])
next
  case (Some i)
  note D = find_index_SomeD [OF Some]
  have i: "pg_ptr (pm_pages pm ! i) = p"
    using D(1,2) by (simp add: pages_in_use_nth)
  show ?thesis
  proof (cases "pg_flags (pm_pages pm ! i) = PAGE_FREE")
    case True
    have "inj_on pg_ptr (set (pages_in_use pm))"
      using assms by (simp add: pm_wf_def distinct_map)
    then have "pg = pm_pages pm ! i" if "pg \<in> set (pages_in_use pm)" "pg_ptr pg = p" for pg
      using that D(1) i by (metis inj_onD nth_mem pages_in_use_nth)
    then have "p \<notin> taken pm"
      using True by (auto simp: taken_def)
    moreover have "release_page p pm = Inr pm"
      using Some True assms by (simp add: release_page_def pm_wf_def)
    ultimately show ?thesis by (rule noop [rotated])
  next
    case False
    have "release_page p pm = Inr (pm\<lparr>pm_pages := (pm_pages pm)[i :=
        (pm_pages pm ! i)\<lparr>pg_flags := PAGE_FREE, pg_site := None, pg_pid := -1\<rparr>], pm_lock := 0\<rparr>)"
      using Some False assms by (simp add: release_page_def pm_wf_def)
    from freed [OF D(1) i False refl this] show ?thesis .
  qed
qed

lemma taken_update:
  assumes "pm_wf pm" "i < length (pages_in_use pm)" "pg_ptr pg = pg_ptr (pm_pages pm ! i)"
  shows "taken (pm\<lparr>pm_pages := (pm_pages pm)[i := pg], pm_lock := l\<rparr>) =
         (if pg_flags pg \<noteq> PAGE_FREE then insert (pg_ptr pg) (taken pm) else taken pm - {pg_ptr pg})"
  using key_image_update [of pg_ptr "pages_in_use pm" i pg "\<lambda>pg. pg_flags pg \<noteq> PAGE_FREE"] assms
  by (simp add: taken_def pages_in_use_nth pm_wf_def)

lemma frames_update:
  assumes "pm_wf pm" "i < length (pages_in_use pm)" "pg_ptr pg = pg_ptr (pm_pages pm ! i)"
  shows "frames (pm\<lparr>pm_pages := (pm_pages pm)[i := pg], pm_lock := l\<rparr>) = frames pm"
proof -
  have "map pg_ptr ((pages_in_use pm)[i := pg]) = map pg_ptr (pages_in_use pm)"
    using assms by (intro distinct_map_update_same) (simp_all add: pages_in_use_nth)
  then have "set (map pg_ptr ((pages_in_use pm)[i := pg])) = set (map pg_ptr (pages_in_use pm))"
    by simp
  then show ?thesis by (simp add: frames_def)
qed

lemma free_slot_not_taken:
  assumes "pm_wf pm" "i < length (pages_in_use pm)" "pg_flags (pm_pages pm ! i) = PAGE_FREE"
  shows "pg_ptr (pm_pages pm ! i) \<in> frames pm - taken pm" "pg_ptr (pm_pages pm ! i) \<noteq> 0"
    "page_aligned (pg_ptr (pm_pages pm ! i))"
proof -
  have m: "pm_pages pm ! i \<in> set (pages_in_use pm)"
    using assms(2) by (metis nth_mem pages_in_use_nth)
  moreover have "inj_on pg_ptr (set (pages_in_use pm))"
    using assms by (simp add: pm_wf_def distinct_map)
  ultimately show "pg_ptr (pm_pages pm ! i) \<in> frames pm - taken pm"
    using assms(3) by (auto simp: frames_def taken_def dest: inj_onD)
  show "pg_ptr (pm_pages pm ! i) \<noteq> 0" "page_aligned (pg_ptr (pm_pages pm ! i))"
    using m assms(1) by (auto simp: pm_wf_def list_all_iff)
qed

lemma owner_eq_Some:
  assumes "pm_wf pm"
  shows "owner pm a = Some q \<longleftrightarrow>
    (a, q) \<in> {(pg_ptr pg, pg_pid pg) |pg. pg \<in> set (pages_in_use pm) \<and> pg_flags pg \<noteq> PAGE_FREE}"
proof -
  have "distinct (map pg_ptr (filter (\<lambda>pg. pg_flags pg \<noteq> PAGE_FREE) (pages_in_use pm)))"
    using assms by (simp add: pm_wf_def distinct_map_filter)
  then show ?thesis
    by (auto simp: owner_def map_of_eq_Some_iff comp_def)
qed

lemma dom_owner: "pm_wf pm \<Longrightarrow> dom (owner pm) = taken pm"
  by (auto simp: dom_def owner_eq_Some taken_def)

lemma option_eq_iff: "x = y \<longleftrightarrow> (\<forall>z. x = Some z \<longleftrightarrow> y = Some z)"
  by (cases x; cases y) auto

lemma owner_update:
  assumes "pm_wf pm" "i < length (pages_in_use pm)" "pg_ptr pg = pg_ptr (pm_pages pm ! i)"
  shows "owner (pm\<lparr>pm_pages := (pm_pages pm)[i := pg], pm_lock := 0\<rparr>) =
         (owner pm)(pg_ptr pg := if pg_flags pg \<noteq> PAGE_FREE then Some (pg_pid pg) else None)"
proof
  fix a
  let ?pm = "pm\<lparr>pm_pages := (pm_pages pm)[i := pg], pm_lock := 0\<rparr>"
  have "distinct (map pg_ptr (pages_in_use pm))" "pg_ptr pg = pg_ptr (pages_in_use pm ! i)"
    using assms by (simp_all add: pm_wf_def pages_in_use_nth)
  note upd = key_update_set [OF this(1) assms(2) this(2), of pg_pid "\<lambda>pg. pg_flags pg \<noteq> PAGE_FREE"]
  have "owner ?pm a = Some q \<longleftrightarrow>
      ((owner pm)(pg_ptr pg := if pg_flags pg \<noteq> PAGE_FREE then Some (pg_pid pg) else None)) a = Some q" for q
    using upd pm_wf_update [OF assms] assms(1) by (auto simp: owner_eq_Some split: if_splits)
  then show "owner ?pm a =
      ((owner pm)(pg_ptr pg := if pg_flags pg \<noteq> PAGE_FREE then Some (pg_pid pg) else None)) a"
    by (rule option_eq_iff [THEN iffD2, rule_format])
qed

lemmas page_update = taken_update frames_update pm_wf_update owner_update

interpretation pa: page_allocator "allocate_page site pid flags" release_page taken frames pm_wf
proof
  fix pm p pm' assume wf: "pm_wf pm"
  show "\<exists>p s'. allocate_page site pid flags pm = Inr (p, s')"
    by (rule allocate_page_cases [OF wf, of site pid flags]) auto
  show "\<exists>s'. release_page p pm = Inr s'"
    by (rule release_page_cases [OF wf, of p]) auto
  show "taken pm \<subseteq> frames pm"
    by (auto simp: taken_def frames_def)
  show "0 \<notin> frames pm"
    using wf by (auto simp: frames_def pm_wf_def list_all_iff)
  {
    assume a: "allocate_page site pid flags pm = Inr (p, pm')"
    show "p \<noteq> 0 \<Longrightarrow> p \<in> frames pm - taken pm"
      using a by (cases rule: allocate_page_cases [OF wf, of site pid flags])
        (auto dest: free_slot_not_taken [OF wf])
    show "p \<noteq> 0 \<Longrightarrow> taken pm' = insert p (taken pm)"
      using a by (cases rule: allocate_page_cases [OF wf, of site pid flags])
        (auto simp: page_update [OF wf])
    show "frames pm' = frames pm" "pm_wf pm'"
      using a wf by (cases rule: allocate_page_cases [OF wf, of site pid flags];
        auto simp: page_update [OF wf])+
  }
  {
    assume a: "release_page p pm = Inr pm'"
    show "taken pm' = taken pm - {p}" "frames pm' = frames pm" "pm_wf pm'"
      using a wf by (cases rule: release_page_cases [OF wf, of p];
        auto simp: page_update [OF wf])+
  }
  {
    assume a: "allocate_page site pid flags pm = Inr (0, pm')"
    show "pm' = pm \<and> frames pm \<subseteq> taken pm"
      using a by (cases rule: allocate_page_cases [OF wf, of site pid flags])
        (auto dest: free_slot_not_taken [OF wf])
  }
qed

section \<open>Alignment\<close>

lemma mask12: "(4095 :: regsize) = mask 12"
  by (simp add: mask_eq_exp_minus_1)

lemma page_aligned_dvd: "page_aligned a \<longleftrightarrow> 4096 dvd unat a"
proof -
  have "unat (a AND 4095) = unat a mod 4096"
    unfolding mask12 by (simp add: take_bit_eq_mod unat_mod flip: take_bit_eq_mask)
  then show ?thesis
    by (metis dvd_eq_mod_eq_0 page_aligned_def unat_eq_0)
qed

lemma page_aligned_apart:
  assumes "page_aligned a" "page_aligned b" "a \<noteq> b"
  shows "apart a 4096 b 4096"
proof -
  have d: "4096 dvd unat (x - y)" if "page_aligned x" "page_aligned y" for x y
    using that by (auto simp: page_aligned_dvd unat_sub_if' intro!: dvd_diff_nat dvd_add)
  have "unat (b - a) \<noteq> 0" "unat (a - b) \<noteq> 0"
    using assms(3) by (auto simp: unat_eq_0)
  then show ?thesis
    using d [OF assms(1,2)] d [OF assms(2,1)] by (auto simp: apart_def dest: dvd_imp_le)
qed

lemma page_aligned_take_bit: "page_aligned a \<longleftrightarrow> take_bit 12 a = 0"
  by (simp add: page_aligned_def mask12 take_bit_eq_mask)

lemma page_aligned_add: "page_aligned a \<Longrightarrow> page_aligned (a + k * 4096)"
  by (auto simp: page_aligned_dvd unat_word_ariths intro!: dvd_mod dvd_add)

lemma page_aligned_round_down: "page_aligned (PAGE_ROUND_DOWN p)"
  by (simp add: page_aligned_def PAGE_ROUND_DOWN_def and.assoc)

lemma unat_round_down: "unat (PAGE_ROUND_DOWN p) = unat p - unat p mod 4096"
proof -
  have "p - (p AND mask 12) = p AND NOT (p AND mask 12)"
    by (rule disjunctive_diff_eq_and_not) (simp flip: and.assoc)
  also have "\<dots> = p AND NOT (mask 12)"
    by (rule bit_word_eqI) (auto simp: bit_simps)
  finally have "PAGE_ROUND_DOWN p = p - take_bit 12 p"
    by (simp add: PAGE_ROUND_DOWN_def mask12 take_bit_eq_mask)
  then show ?thesis
    by (simp add: unat_sub word_le_nat_alt take_bit_eq_mod unat_mod)
qed

section \<open>Initialisation\<close>

abbreviation free_page_desc :: "addr \<Rightarrow> page_t" where
  "free_page_desc a \<equiv> \<lparr>pg_ptr = a, pg_flags = PAGE_FREE, pg_site = None, pg_pid = -1\<rparr>"

lemma init_pages_spec:
  assumes "unat e + 4096 \<le> 2 ^ 64" "length ps = MAX_PAGES" "i \<le> MAX_PAGES"
    "init_pages mem e i ps = (ps', n)"
  shows "length ps' = MAX_PAGES \<and> i \<le> n \<and> n \<le> MAX_PAGES \<and> (\<forall>k < i. ps' ! k = ps ! k) \<and>
    (\<forall>k. i \<le> k \<and> k < n \<longrightarrow> ps' ! k = free_page_desc (mem + of_nat (k - i) * 4096) \<and>
       unat mem + (k - i) * 4096 < unat e) \<and>
    (n = MAX_PAGES \<or> unat e \<le> unat mem + (n - i) * 4096)"
  using assms
proof (induction mem e i ps rule: init_pages.induct)
  case (1 mem e i ps)
  show ?case
  proof (cases "mem < e \<and> i < MAX_PAGES")
    case False
    then show ?thesis
      using "1.prems" by (auto simp: init_pages.simps [of mem e i ps] word_less_nat_alt)
  next
    case True
    let ?ps = "ps[i := free_page_desc mem]"
    have mem: "unat (mem + 4096) = unat mem + 4096"
      using True "1.prems"(1) by (simp add: word_less_nat_alt unat_plus_if')
    have rec: "init_pages (mem + 4096) e (Suc i) ?ps = (ps', n)"
      using True "1.prems"(4) by (simp add: init_pages.simps [of mem e i ps])
    have "init_pages (mem + PAGE_SIZE) e (Suc i) ?ps = (ps', n)"
      using rec by simp
    note IH = "1.IH" [OF True "1.prems"(1) _ _ this, simplified mem PAGE_SIZE_def]
    have IH': "length ps' = MAX_PAGES" "Suc i \<le> n" "n \<le> MAX_PAGES" "\<forall>k < Suc i. ps' ! k = ?ps ! k"
      "\<And>k. Suc i \<le> k \<Longrightarrow> k < n \<Longrightarrow> ps' ! k = free_page_desc (mem + 4096 + of_nat (k - Suc i) * 4096)"
      "\<And>k. Suc i \<le> k \<Longrightarrow> k < n \<Longrightarrow> unat mem + 4096 + (k - Suc i) * 4096 < unat e"
      "n = MAX_PAGES \<or> unat e \<le> unat mem + 4096 + (n - Suc i) * 4096"
      using IH True "1.prems"(2) by simp_all
    have step: "k - i = Suc (k - Suc i)" if "Suc i \<le> k" for k
      using that by simp
    have tail: "ps' ! k = free_page_desc (mem + of_nat (k - i) * 4096) \<and> unat mem + (k - i) * 4096 < unat e"
      if k: "i \<le> k" "k < n" for k
    proof (cases "k = i")
      case True
      then show ?thesis
        using IH'(4) "1.prems"(2) \<open>mem < e \<and> i < MAX_PAGES\<close> by (simp add: word_less_nat_alt)
    next
      case False
      then have "Suc i \<le> k" using k by simp
      then show ?thesis
        using IH'(5,6) [of k] k(2) by (simp add: step algebra_simps)
    qed
    show ?thesis
      using IH'(1,2,3,4,7) tail True step [OF IH'(2)] by (auto simp: algebra_simps)
  qed
qed

lemma page_aligned_round_up: "page_aligned (PAGE_ROUND_UP p)"
  using page_aligned_add [OF page_aligned_round_down, of p 1] by (simp add: PAGE_ROUND_UP_def)

lemma unat_round_up:
  "unat p + 4096 < 2 ^ 64 \<Longrightarrow> unat (PAGE_ROUND_UP p) = unat p - unat p mod 4096 + 4096"
  by (simp add: PAGE_ROUND_UP_def unat_plus_if' unat_round_down)

lemma init_paged_memory_pages_use:
  assumes "unat e + 4096 \<le> 2 ^ 64" "length (pm_pages pm) = MAX_PAGES"
    "init_pages (PAGE_ROUND_UP h) e 0 (pm_pages pm) = (ps, n)"
  shows "pages_in_use (init_paged_memory_pages h e pm) =
           map (\<lambda>k. free_page_desc (PAGE_ROUND_UP h + of_nat k * 4096)) [0..<n]"
    "n \<le> MAX_PAGES" "length ps = MAX_PAGES"
    "\<And>k. k < n \<Longrightarrow> unat (PAGE_ROUND_UP h) + k * 4096 < unat e"
    "n = MAX_PAGES \<or> unat e \<le> unat (PAGE_ROUND_UP h) + n * 4096"
proof -
  note spec = init_pages_spec [OF assms(1,2) _ assms(3)]
  then have n: "n \<le> MAX_PAGES" "length ps = MAX_PAGES"
    by auto
  then have "unat (of_nat n :: u32) = n" by simp
  then show "pages_in_use (init_paged_memory_pages h e pm) =
      map (\<lambda>k. free_page_desc (PAGE_ROUND_UP h + of_nat k * 4096)) [0..<n]"
    using spec n assms(3)
    by (auto simp: pages_in_use_def init_paged_memory_pages_def intro!: nth_equalityI)
  show "n \<le> MAX_PAGES" "length ps = MAX_PAGES" by fact+
  show "\<And>k. k < n \<Longrightarrow> unat (PAGE_ROUND_UP h) + k * 4096 < unat e"
    "n = MAX_PAGES \<or> unat e \<le> unat (PAGE_ROUND_UP h) + n * 4096"
    using spec by auto
qed

text \<open>
  The descriptors that \<open>init_paged_memory\<close> fills in before it builds the kernel page
  table: every frame is free, and the frames are the pages from the first page
  boundary above \<open>heap_start\<close> below the end of RAM, 48 at most.
\<close>

lemma init_pages_ok:
  assumes "unat e + 4096 \<le> 2 ^ 64" "unat h + 4096 < 2 ^ 64" "length (pm_pages pm) = MAX_PAGES"
  defines "base \<equiv> PAGE_ROUND_UP h"
  shows "pm_wf (init_paged_memory_pages h e pm) \<and> taken (init_paged_memory_pages h e pm) = {} \<and>
    frames (init_paged_memory_pages h e pm) =
      {base + of_nat k * 4096 |k. k < MAX_PAGES \<and> unat base + k * 4096 < unat e}"
proof -
  obtain ps n where ps: "init_pages base e 0 (pm_pages pm) = (ps, n)"
    by fastforce
  note use = init_paged_memory_pages_use [OF assms(1,3) ps [unfolded base_def], folded base_def]
  have unat: "unat (base + of_nat k * 4096) = unat base + k * 4096" if "k < n" for k
    using use(2) use(4) [of k] that unat_lt64 [of e]
    by (simp add: unat_plus_if' unat_word_ariths)
  have base: "unat base > 0"
    using unat_round_up [OF assms(2)] by (simp add: base_def)
  have inj: "distinct (map pg_ptr (pages_in_use (init_paged_memory_pages h e pm)))"
    using unat by (auto simp: use(1) distinct_map inj_on_def)
       (metis add_left_cancel mult_cancel2 zero_neq_numeral)
  have "base + of_nat k * 4096 \<noteq> 0" if "k < n" for k
    using unat [OF that] base by (metis add_is_0 less_numeral_extra(3) unat_0)
  then have ptrs: "list_all (\<lambda>pg. pg_ptr pg \<noteq> 0 \<and> page_aligned (pg_ptr pg))
      (pages_in_use (init_paged_memory_pages h e pm))"
    by (auto simp: use(1) list_all_iff base_def page_aligned_add page_aligned_round_up)
  have "pm_lock (init_paged_memory_pages h e pm) = 0"
    "pm_pages (init_paged_memory_pages h e pm) = ps" "pm_num_pages (init_paged_memory_pages h e pm) = of_nat n"
    using ps by (simp_all add: init_paged_memory_pages_def base_def)
  then have "pm_wf (init_paged_memory_pages h e pm)"
    using inj ptrs use(2,3) by (simp add: pm_wf_def)
  moreover have "taken (init_paged_memory_pages h e pm) = {}"
    by (auto simp: taken_def use(1))
  moreover have "frames (init_paged_memory_pages h e pm) =
      {base + of_nat k * 4096 |k. k < MAX_PAGES \<and> unat base + k * 4096 < unat e}"
  proof -
    have "k < n \<longleftrightarrow> k < MAX_PAGES \<and> unat base + k * 4096 < unat e" for k
      using use(2,5) use(4) [of k] by linarith
    moreover have "frames (init_paged_memory_pages h e pm) = (\<lambda>k. base + of_nat k * 4096) ` {0..<n}"
      by (simp add: frames_def use(1) image_image)
    ultimately show ?thesis by (auto simp: image_def)
  qed
  ultimately show ?thesis by blast
qed

text \<open>
  C5: a page that \<open>allocate_page\<close> hands out is a real, page-aligned frame that
  nobody owned; from then on it is owned by the given pid and no other frame
  changes hands. A null result means that every frame is taken, and then nothing
  changes. The call always returns.
\<close>

theorem allocate_page_correct:
  assumes "pm_wf pm"
  shows "\<exists>p pm'. allocate_page site pid flags pm = Inr (p, pm') \<and> pm_wf pm' \<and> frames pm' = frames pm \<and>
    (if p = 0 then pm' = pm \<and> frames pm = taken pm
     else p \<in> frames pm - taken pm \<and> page_aligned p \<and> owner pm' = (owner pm)(p \<mapsto> pid))"
proof (rule allocate_page_cases [OF assms, of site pid flags], goal_cases full got)
  case full
  then show ?thesis
    using assms pa.owned_frames [OF assms] by auto
next
  case (got i pg)
  then show ?thesis
    using free_slot_not_taken [OF assms got(1,2)] by (simp add: page_update [OF assms])
qed

definition pm_example :: paged_mem_t where
  "pm_example = \<lparr>pm_ksatp = 0, pm_kpagetable = 0, pm_lock = 0,
     pm_pages = [free_page_desc 0x80000000, free_page_desc 0x80001000] @ replicate 46 (free_page_desc 0),
     pm_num_pages = 2, pm_unclaimed_start = 0, pm_unclaimed_end = 0x80000000\<rparr>"

lemma pm_example_wf: "pm_wf pm_example"
  by (simp add: pm_wf_def pm_example_def pages_in_use_def page_aligned_def)

theorem allocate_page_correct_witness:
  "\<exists>p pm'. allocate_page ''user'' 3 PAGE_USERMEM pm_example = Inr (p, pm') \<and> p \<in> frames pm_example"
proof -
  have "allocate_page ''user'' 3 PAGE_USERMEM pm_example \<noteq> Inr (0, pm')" for pm'
    by (simp add: allocate_page_def pm_example_def pages_in_use_def)
  then show ?thesis
    using allocate_page_correct [OF pm_example_wf, of "''user''" 3 PAGE_USERMEM]
    by (metis Diff_iff)
qed

text \<open>
  C10: \<open>release_page\<close> always returns; afterwards the frame has no owner (nothing
  happens for an address that is no frame, or a frame that is already free) and
  all other frames keep theirs.
\<close>

theorem release_page_correct:
  assumes "pm_wf pm"
  shows "\<exists>pm'. release_page p pm = Inr pm' \<and> pm_wf pm' \<and> frames pm' = frames pm \<and>
    owner pm' = (owner pm)(p := None)"
proof (rule release_page_cases [OF assms, of p], goal_cases noop freed)
  case noop
  then have "owner pm p = None"
    using dom_owner [OF assms] by auto
  then have "(owner pm)(p := None) = owner pm"
    by (rule fun_upd_idem)
  then show ?case using noop assms by simp
next
  case (freed i pg)
  then show ?case by (simp add: page_update [OF assms])
qed

theorem release_page_correct_witness:
  "\<exists>pm'. release_page 0x80001000 pm_example = Inr pm' \<and> owner pm' = (owner pm_example)(0x80001000 := None)"
  using release_page_correct [OF pm_example_wf, of "0x80001000"] by blast

text \<open>
  The two counting loops agree with the abstract view: \<open>count_free_pages\<close> is
  the number of frames nobody owns and \<open>count_alloced_pages\<close> the number of
  frames owned by a process.
\<close>

theorem page_counts_correct:
  assumes "pm_wf pm"
  shows "unat (count_free_pages pm) = card (frames pm - taken pm) \<and>
    unat (count_alloced_pages pid pm) = card {a. owner pm a = Some pid}"
proof -
  let ?use = "pages_in_use pm"
  have d: "distinct (map pg_ptr ?use)" and len: "length ?use < 2 ^ 32"
    using assms by (simp_all add: pm_wf_def pages_in_use_def)
  have small: "unat (of_nat (length (filter P ?use)) :: u32) = length (filter P ?use)" for P
    using le_less_trans [OF length_filter_le len] by simp
  have inj: "inj_on pg_ptr (set ?use)"
    using d by (simp add: distinct_map)
  have "pg_ptr ` {pg \<in> set ?use. pg_flags pg = PAGE_FREE} = frames pm - taken pm"
    using inj by (auto simp: frames_def taken_def dest: inj_onD)
  moreover have "pg_ptr ` {pg \<in> set ?use. pg_flags pg \<noteq> PAGE_FREE \<and> pg_pid pg = pid} = {a. owner pm a = Some pid}"
    by (auto simp: owner_eq_Some [OF assms])
  ultimately show ?thesis
    unfolding count_free_pages_def count_alloced_pages_def small
    by (simp only: length_filter_card [OF d])
qed

theorem page_counts_correct_witness:
  "unat (count_free_pages pm_example) = card (frames pm_example - taken pm_example)"
  using page_counts_correct [OF pm_example_wf] by blast

end
