(* ===== verification/Vm.thy ===== *)
theory Vm
  imports Pagealloc
begin

text \<open>
  Sv39 page tables, \<^verbatim>\<open>src/vm.c\<close> with the macros of \<^verbatim>\<open>include/riscv.h\<close> (build
  with \<^verbatim>\<open>CONFIG_MMU\<close>). A page table is a tree of pages in physical memory; the
  state of the operations is the memory together with the page allocator. The
  abstract view is the map from virtual page numbers to leaf entries.
\<close>

section \<open>Macros\<close>

definition PTE_V :: regsize where [simp, kconsts]: "PTE_V = 1"
definition PTE_R :: regsize where [simp, kconsts]: "PTE_R = 2"
definition PTE_W :: regsize where [simp, kconsts]: "PTE_W = 4"
definition PTE_X :: regsize where [simp, kconsts]: "PTE_X = 8"
definition PTE_U :: regsize where [simp, kconsts]: "PTE_U = 16"
definition PTE_G :: regsize where [simp, kconsts]: "PTE_G = 32"
definition PTE_A :: regsize where [simp, kconsts]: "PTE_A = 64"
definition PTE_D :: regsize where [simp, kconsts]: "PTE_D = 128"

definition PERM_KCODE :: regsize where "PERM_KCODE = PTE_R OR PTE_X"
definition PERM_KDATA :: regsize where "PERM_KDATA = PTE_R OR PTE_W"
definition PERM_KRODATA :: regsize where "PERM_KRODATA = PTE_R"
definition PERM_NONLEAF :: regsize where "PERM_NONLEAF = PTE_V"
definition PERM_UCODE :: regsize where "PERM_UCODE = PTE_U OR PTE_R OR PTE_X"
definition PERM_UDATA :: regsize where "PERM_UDATA = PTE_U OR PTE_R OR PTE_W"
definition PERM_URODATA :: regsize where "PERM_URODATA = PTE_U OR PTE_R"

definition PERM_MASK :: "regsize \<Rightarrow> regsize" where
  "PERM_MASK pte = pte AND 0x3ff"

definition PHYS_TO_PPN :: "addr \<Rightarrow> regsize" where
  "PHYS_TO_PPN paddr = drop_bit 12 paddr"

definition PHYS_TO_PTE :: "addr \<Rightarrow> regsize" where
  "PHYS_TO_PTE paddr = push_bit 10 (PHYS_TO_PPN paddr)"

definition PPN_TO_PHYS :: "regsize \<Rightarrow> addr" where
  "PPN_TO_PHYS ppn = push_bit 12 ppn"

definition PTE_TO_PHYS :: "regsize \<Rightarrow> addr" where
  "PTE_TO_PHYS pte = PPN_TO_PHYS (drop_bit 10 pte)"

definition HAS_V :: "regsize \<Rightarrow> bool" where "HAS_V pte \<longleftrightarrow> pte AND PTE_V \<noteq> 0"
definition HAS_R :: "regsize \<Rightarrow> bool" where "HAS_R pte \<longleftrightarrow> pte AND PTE_R \<noteq> 0"
definition HAS_W :: "regsize \<Rightarrow> bool" where "HAS_W pte \<longleftrightarrow> pte AND PTE_W \<noteq> 0"
definition HAS_X :: "regsize \<Rightarrow> bool" where "HAS_X pte \<longleftrightarrow> pte AND PTE_X \<noteq> 0"
definition HAS_U :: "regsize \<Rightarrow> bool" where "HAS_U pte \<longleftrightarrow> pte AND PTE_U \<noteq> 0"

definition IS_NONLEAF :: "regsize \<Rightarrow> bool" where
  "IS_NONLEAF pte \<longleftrightarrow> HAS_V pte \<and> \<not> HAS_R pte \<and> \<not> HAS_X pte"

definition IS_USER :: "regsize \<Rightarrow> bool" where
  "IS_USER pte \<longleftrightarrow> HAS_U pte"

definition IS_VALID :: "regsize \<Rightarrow> bool" where
  "IS_VALID pte \<longleftrightarrow> HAS_V pte \<or> (\<not> HAS_R pte \<and> HAS_W pte)"

definition VPN :: "regsize \<Rightarrow> nat \<Rightarrow> nat" where
  "VPN vaddr level = unat (drop_bit (12 + 9 * level) vaddr AND 0x1ff)"

definition PAGE_OFFS :: "regsize \<Rightarrow> regsize" where
  "PAGE_OFFS a = a AND (PAGE_SIZE - 1)"

definition MAKE_SATP :: "addr \<Rightarrow> regsize" where
  "MAKE_SATP p = PHYS_TO_PPN p OR push_bit 60 8"

text \<open>\<open>~0xffe00000\<close> is a 32-bit unsigned complement, so the mask keeps 21 bits.\<close>

definition USR_VIRT :: "addr \<Rightarrow> regsize" where
  "USR_VIRT pa = pa AND ucast (NOT (0xffe00000 :: u32))"

definition TOPMOST_VIRT_PAGE :: regsize where [simp, kconsts]: "TOPMOST_VIRT_PAGE = 0x1ff000"

definition USR_STK_VIRT :: "addr \<Rightarrow> regsize" where
  "USR_STK_VIRT pa = USR_VIRT (pa OR TOPMOST_VIRT_PAGE)"

definition STK_ROUND :: "addr \<Rightarrow> regsize" where
  "STK_ROUND a = a AND NOT 0xf"

section \<open>Operations\<close>

type_synonym vm = "memory \<times> paged_mem_t"

definition pt_entry :: "addr \<Rightarrow> nat \<Rightarrow> addr" where
  "pt_entry pt i = pt + of_nat (8 * i)"

text \<open>One round of the loop of \<open>map_page_sv39\<close> per level, from level 2 down to 0.\<close>

fun map_page_level :: "nat \<Rightarrow> addr \<Rightarrow> addr \<Rightarrow> regsize \<Rightarrow> regsize \<Rightarrow> u32 \<Rightarrow> vm \<Rightarrow> vm res" where
  "map_page_level 0 pt phys virt perm pid (mem, pm) =
     Inr (store64 mem (pt_entry pt (VPN virt 0))
            (PHYS_TO_PTE phys OR perm OR PTE_A OR PTE_D OR PTE_V), pm)"
| "map_page_level (Suc l) pt phys virt perm pid (mem, pm) =
     (let vpn_n = VPN virt (Suc l); pte = load64 mem (pt_entry pt vpn_n) in
      if pte = 0 then
        bnd (kalloc ''pagetable'' pid pm) (\<lambda>(next, pm).
        if next = 0 then Inl (Panic ''pagetable subtable alloc'')
        else map_page_level l next phys virt perm pid
          (store64 (memset mem next PAGE_SIZE 0) (pt_entry pt vpn_n) (PHYS_TO_PTE next OR PERM_NONLEAF), pm))
      else map_page_level l (PTE_TO_PHYS pte) phys virt perm pid (mem, pm))"

definition map_page_sv39 :: "addr \<Rightarrow> addr \<Rightarrow> regsize \<Rightarrow> regsize \<Rightarrow> u32 \<Rightarrow> vm \<Rightarrow> vm res" where
  "map_page_sv39 pt phys virt perm pid s = map_page_level 2 pt phys virt perm pid s"

text \<open>
  \<open>map_range\<close> advances until the address equals the end exactly. After \<open>2 ^ 52\<close>
  rounds of 4096 bytes the 64-bit address is back where it started, so a loop
  that has not met its end by then never does.
\<close>

fun map_range_loop :: "nat \<Rightarrow> addr \<Rightarrow> addr \<Rightarrow> addr \<Rightarrow> regsize \<Rightarrow> regsize \<Rightarrow> u32 \<Rightarrow> vm \<Rightarrow> vm res" where
  "map_range_loop 0 pt page_pa pa_end va perm pid s = (if page_pa \<noteq> pa_end then Inl Diverges else Inr s)"
| "map_range_loop (Suc n) pt page_pa pa_end va perm pid s =
     (if page_pa \<noteq> pa_end then
        bnd (map_page_sv39 pt page_pa va perm pid s)
          (map_range_loop n pt (page_pa + PAGE_SIZE) pa_end (va + PAGE_SIZE) perm pid)
      else Inr s)"

definition map_range :: "addr \<Rightarrow> addr \<Rightarrow> addr \<Rightarrow> regsize \<Rightarrow> regsize \<Rightarrow> u32 \<Rightarrow> vm \<Rightarrow> vm res" where
  "map_range pt pa_start pa_end va_start perm pid s =
     map_range_loop (2 ^ 52) pt pa_start pa_end va_start perm pid s"

text \<open>The loop of \<open>va2pa\<close>; the first argument is \<open>level + 1\<close>, so 0 stands for \<open>level < 0\<close>.\<close>

fun va2pa_loop :: "nat \<Rightarrow> addr \<Rightarrow> regsize \<Rightarrow> memory \<Rightarrow> addr" where
  "va2pa_loop 0 pt va mem = 0"
| "va2pa_loop (Suc level) pt va mem =
     (let pte = load64 mem (pt_entry pt (VPN va level)) in
      if \<not> IS_VALID pte then 0
      else if \<not> IS_NONLEAF pte then PTE_TO_PHYS pte OR PAGE_OFFS va
      else va2pa_loop level (PTE_TO_PHYS pte) va mem)"

definition va2pa :: "addr \<Rightarrow> regsize \<Rightarrow> memory \<Rightarrow> addr" where
  "va2pa pt va mem = va2pa_loop 3 pt va mem"

text \<open>
  The recursion of \<open>free_page_table_r\<close> follows non-leaf entries as deep as they
  go; the first argument bounds the depth (a table of the kernel has three
  levels). It reads memory that it does not change, so the entries of a table
  can be taken from the state it started in.
\<close>

fun free_page_table_r :: "nat \<Rightarrow> memory \<Rightarrow> addr \<Rightarrow> nat \<Rightarrow> paged_mem_t \<Rightarrow> paged_mem_t res" where
  "free_page_table_r 0 mem pt level pm = Inl Diverges"
| "free_page_table_r (Suc n) mem pt level pm =
     bnd (foldl (\<lambda>r i. bnd r (\<lambda>pm.
            let pte = load64 mem (pt_entry pt i) in
            if IS_NONLEAF pte then
              bnd (free_page_table_r n mem (PTE_TO_PHYS pte) (level + 1) pm) (\<lambda>pm.
              if level < 2 then release_page (PTE_TO_PHYS pte) pm else Inr pm)
            else Inr pm)) (Inr pm) [0..<512]) (\<lambda>pm.
     if level = 1 then release_page (PTE_TO_PHYS (load64 mem (pt_entry pt 0))) pm else Inr pm)"

definition free_page_table :: "addr \<Rightarrow> vm \<Rightarrow> vm res" where
  "free_page_table pt s = (case s of (mem, pm) \<Rightarrow>
     bnd (free_page_table_r 4 mem pt 0 pm) (\<lambda>pm. bnd (release_page pt pm) (\<lambda>pm. Inr (mem, pm))))"

text \<open>\<open>(vpn2 << 30) | (vpn1 << 21) | (vpn0 << 12)\<close> is computed in \<open>int\<close> and then widened.\<close>

definition vpns_to_va :: "nat \<Rightarrow> nat \<Rightarrow> nat \<Rightarrow> regsize" where
  "vpns_to_va vpn2 vpn1 vpn0 =
     scast (push_bit 30 (of_nat vpn2 :: u32) OR push_bit 21 (of_nat vpn1) OR push_bit 12 (of_nat vpn0))"

fun copy_level0 :: "addr \<Rightarrow> addr \<Rightarrow> nat \<Rightarrow> nat \<Rightarrow> u32 \<Rightarrow> nat list \<Rightarrow> vm \<Rightarrow> vm res" where
  "copy_level0 dst src3 vpn2 vpn1 pid [] s = Inr s"
| "copy_level0 dst src3 vpn2 vpn1 pid (vpn0 # is) s =
     (let pte = load64 (fst s) (pt_entry src3 vpn0) in
      bnd (if IS_VALID pte \<and> IS_USER pte
           then map_page_sv39 dst (PTE_TO_PHYS pte) (vpns_to_va vpn2 vpn1 vpn0) (PERM_MASK pte) pid s
           else Inr s)
        (copy_level0 dst src3 vpn2 vpn1 pid is))"

fun copy_level1 :: "addr \<Rightarrow> addr \<Rightarrow> nat \<Rightarrow> u32 \<Rightarrow> nat list \<Rightarrow> vm \<Rightarrow> vm res" where
  "copy_level1 dst src2 vpn2 pid [] s = Inr s"
| "copy_level1 dst src2 vpn2 pid (vpn1 # is) s =
     (let pte = load64 (fst s) (pt_entry src2 vpn1) in
      bnd (if IS_VALID pte then copy_level0 dst (PTE_TO_PHYS pte) vpn2 vpn1 pid [0..<512] s else Inr s)
        (copy_level1 dst src2 vpn2 pid is))"

fun copy_level2 :: "addr \<Rightarrow> addr \<Rightarrow> u32 \<Rightarrow> nat list \<Rightarrow> vm \<Rightarrow> vm res" where
  "copy_level2 dst src pid [] s = Inr s"
| "copy_level2 dst src pid (vpn2 # is) s =
     (let pte = load64 (fst s) (pt_entry src vpn2) in
      bnd (if IS_VALID pte then copy_level1 dst (PTE_TO_PHYS pte) vpn2 pid [0..<512] s else Inr s)
        (copy_level2 dst src pid is))"

definition copy_page_table :: "addr \<Rightarrow> addr \<Rightarrow> u32 \<Rightarrow> vm \<Rightarrow> vm res" where
  "copy_page_table dst src pid s = copy_level2 dst src pid [0..<512] s"

definition find_next_level_page_table :: "addr \<Rightarrow> memory \<Rightarrow> addr" where
  "find_next_level_page_table pt mem =
     (case find_index (\<lambda>i. IS_NONLEAF (load64 mem (pt_entry pt i)) \<and> IS_USER (load64 mem (pt_entry pt i))) [0..<512] of
        Some i \<Rightarrow> PTE_TO_PHYS (load64 mem (pt_entry pt i))
      | None \<Rightarrow> 0)"

text \<open>The addresses that the linker script and the machine header fix.\<close>

record layout =
  RAM_START :: addr
  user_code_start :: addr
  rodata_start :: addr
  rodata_end :: addr
  data_start :: addr
  heap_start :: addr
  trap_frame_addr :: addr
  paged_memory_addr :: addr
  entry_of :: "string \<Rightarrow> addr"

definition KERNEL_CODE_START :: "layout \<Rightarrow> addr" where
  "KERNEL_CODE_START ly = RAM_START ly + 512 * 8"

definition MTIME :: addr where [simp, kconsts]: "MTIME = 0x200bff8"
definition MTIMECMP_BASE :: addr where [simp, kconsts]: "MTIMECMP_BASE = 0x2004000"
definition PLIC_THRESHOLD :: addr where [simp, kconsts]: "PLIC_THRESHOLD = 0x0c000000 + 0x00200000 + 0x1000"
definition UART_BASE :: addr where [simp, kconsts]: "UART_BASE = 0x10000000"

definition map_page_id :: "addr \<Rightarrow> addr \<Rightarrow> regsize \<Rightarrow> u32 \<Rightarrow> vm \<Rightarrow> vm res" where
  "map_page_id pt pa perm pid s = map_page_sv39 pt pa pa perm pid s"

definition map_range_id :: "addr \<Rightarrow> addr \<Rightarrow> addr \<Rightarrow> regsize \<Rightarrow> vm \<Rightarrow> vm res" where
  "map_range_id pt pa_start pa_end perm s = map_range pt pa_start pa_end pa_start perm (-1) s"

fun map_pages :: "addr \<Rightarrow> page_t list \<Rightarrow> vm \<Rightarrow> vm res" where
  "map_pages pt [] s = Inr s"
| "map_pages pt (p # ps) s = bnd (map_page_id pt (pg_ptr p) PERM_KDATA (-1) s) (map_pages pt ps)"

definition make_kernel_page_table :: "layout \<Rightarrow> page_t list \<Rightarrow> vm \<Rightarrow> (addr \<times> vm) res" where
  "make_kernel_page_table ly pages s = (case s of (mem, pm) \<Rightarrow>
     bnd (kalloc ''make_kernel_page_table'' (-1) pm) (\<lambda>(pt, pm).
     if pt = 0 then Inl (Panic ''kernel pagetable alloc'') else
     bnd (map_page_id pt (RAM_START ly) PERM_KDATA (-1) (memset mem pt PAGE_SIZE 0, pm)) (\<lambda>s.
     bnd (map_range_id pt (KERNEL_CODE_START ly) (user_code_start ly) PERM_KCODE s) (\<lambda>s.
     bnd (map_range_id pt (rodata_start ly) (PAGE_ROUND_UP (rodata_end ly)) PERM_KRODATA s) (\<lambda>s.
     bnd (map_range_id pt (PAGE_ROUND_DOWN (data_start ly)) (PAGE_ROUND_UP (heap_start ly)) PERM_KDATA s) (\<lambda>s.
     bnd (map_pages pt pages s) (\<lambda>s.
     bnd (map_page_id pt (PAGE_ROUND_DOWN MTIME) PERM_KDATA (-1) s) (\<lambda>s.
     bnd (map_page_id pt MTIMECMP_BASE PERM_KDATA (-1) s) (\<lambda>s.
     bnd (map_page_id pt PLIC_THRESHOLD PERM_KDATA (-1) s) (\<lambda>s.
     bnd (map_page_id pt UART_BASE PERM_KDATA (-1) s) (\<lambda>s.
     Inr (pt, s))))))))))))"

definition init_user_page_table :: "layout \<Rightarrow> addr \<Rightarrow> u32 \<Rightarrow> vm \<Rightarrow> vm res" where
  "init_user_page_table ly pt pid s = (case s of (mem, pm) \<Rightarrow>
     bnd (map_page_id pt (RAM_START ly) PERM_KDATA pid (memset mem pt PAGE_SIZE 0, pm)) (\<lambda>s.
     bnd (map_page_id pt (KERNEL_CODE_START ly) PERM_KCODE pid s) (\<lambda>s.
     bnd (map_page_id pt (PAGE_ROUND_DOWN (trap_frame_addr ly)) PERM_KDATA pid s) (\<lambda>s.
     bnd (map_page_id pt (PAGE_ROUND_DOWN (paged_memory_addr ly)) PERM_KDATA pid s) (\<lambda>s.
     bnd (map_range pt (rodata_start ly) (data_start ly) (USR_VIRT (rodata_start ly)) PERM_URODATA pid s) (\<lambda>s.
     map_range pt (user_code_start ly) (rodata_start ly) (USR_VIRT (user_code_start ly)) PERM_UCODE pid s))))))"

text \<open>\<open>init_paged_memory\<close> as a whole: descriptors, then the kernel page table.\<close>

definition init_paged_memory :: "layout \<Rightarrow> regsize \<Rightarrow> vm \<Rightarrow> vm res" where
  "init_paged_memory ly paged_mem_end s = (case s of (mem, pm) \<Rightarrow>
     let pm = init_paged_memory_pages (heap_start ly) paged_mem_end pm in
     bnd (make_kernel_page_table ly (pages_in_use pm) (mem, pm)) (\<lambda>(pt, mem, pm).
     Inr (mem, pm\<lparr>pm_kpagetable := pt, pm_ksatp := MAKE_SATP pt\<rparr>)))"

section \<open>Page table entries\<close>

lemma bit_mask_consts:
  "(0x3ff :: regsize) = mask 10" "(0x1ff :: regsize) = mask 9" "(4095 :: regsize) = mask 12"
  by (simp_all add: mask_eq_exp_minus_1)

lemma bit_PTE_TO_PHYS: "bit (PTE_TO_PHYS pte) k \<longleftrightarrow> 12 \<le> k \<and> k < 64 \<and> bit pte (k - 2)"
  by (auto simp: PTE_TO_PHYS_def PPN_TO_PHYS_def bit_simps)

lemma bit_PHYS_TO_PTE: "bit (PHYS_TO_PTE a) k \<longleftrightarrow> 10 \<le> k \<and> k < 64 \<and> bit a (k + 2)"
  by (auto simp: PHYS_TO_PTE_def PHYS_TO_PPN_def bit_simps)

lemma low_bits: "x < 2 ^ 10 \<Longrightarrow> 10 \<le> k \<Longrightarrow> \<not> bit (x :: regsize) k"
proof -
  assume "x < 2 ^ 10" "10 \<le> k"
  then have "take_bit 10 x = x" by (simp add: take_bit_eq_mod word_mod_def mod_less) (simp add: word_less_def)
  then show "\<not> bit x k" using \<open>10 \<le> k\<close> by (metis bit_take_bit_iff not_le)
qed

lemma page_aligned_bits: "page_aligned a \<longleftrightarrow> (\<forall>k < 12. \<not> bit a k)"
  by (auto simp: page_aligned_take_bit bit_eq_iff bit_simps)

lemma page_aligned_PTE [simp]: "page_aligned (PTE_TO_PHYS pte)"
  by (simp add: page_aligned_bits bit_PTE_TO_PHYS)

lemma PTE_roundtrip:
  assumes "page_aligned a" "flags < 2 ^ 10"
  shows "PTE_TO_PHYS (PHYS_TO_PTE a OR flags) = a"
proof (rule bit_word_eqI)
  fix k assume "k < LENGTH(64)"
  moreover have "Suc (Suc (k - 2)) = k" if "12 \<le> k"
    using that by simp
  ultimately show "bit (PTE_TO_PHYS (PHYS_TO_PTE a OR flags)) k = bit a k"
    using assms low_bits [of flags "k - 2"]
    by (cases "12 \<le> k") (auto simp: bit_PTE_TO_PHYS bit_PHYS_TO_PTE bit_or_iff page_aligned_bits)
qed

lemma PERM_MASK_PTE: "flags < 2 ^ 10 \<Longrightarrow> PERM_MASK (PHYS_TO_PTE a OR flags) = flags"
  unfolding PERM_MASK_def bit_mask_consts
  by (rule bit_word_eqI) (use low_bits [of flags] in \<open>force simp: bit_PHYS_TO_PTE bit_simps not_le [symmetric]\<close>)

lemma and_bit0: "x AND 1 \<noteq> 0 \<longleftrightarrow> bit (x :: regsize) 0"
  by (simp add: and_one_eq odd_iff_mod_2_eq_one bit_0)

section \<open>Entries of table pages\<close>

abbreviation entry :: "memory \<Rightarrow> addr \<Rightarrow> nat \<Rightarrow> regsize" where
  "entry mem p i \<equiv> load64 mem (pt_entry p i)"

definition in_page :: "addr \<Rightarrow> addr \<Rightarrow> bool" where
  "in_page p x \<longleftrightarrow> unat (x - p) < 4096"

lemma in_page_entry: "i < 512 \<Longrightarrow> j < 8 \<Longrightarrow> in_page p (pt_entry p i + of_nat j)"
proof -
  assume "i < 512" "j < 8"
  moreover from this have "pt_entry p i + of_nat j - p = of_nat (8 * i + j)"
    by (simp add: pt_entry_def)
  ultimately show ?thesis by (simp add: in_page_def del: of_nat_add of_nat_mult)
qed

lemma in_page_unique:
  assumes "page_aligned p" "page_aligned q" "in_page p x" "in_page q x"
  shows "p = q"
proof (rule ccontr)
  assume "p \<noteq> q"
  then have "apart p 4096 q 4096" using assms by (intro page_aligned_apart)
  from apart_outside [OF this, of "unat (x - q)"] assms show False
    by (simp add: in_page_def)
qed

lemma entry_cong:
  "i < 512 \<Longrightarrow> (\<And>x. in_page p x \<Longrightarrow> mem' x = mem x) \<Longrightarrow> entry mem' p i = entry mem p i"
  by (rule load64_cong) (simp add: in_page_entry)

lemma store64_outside:
  assumes "i < 512" "\<not> in_page p x"
  shows "store64 mem (pt_entry p i) v x = mem x"
proof -
  have "x = pt_entry p i + of_nat (unat (x - pt_entry p i))" by simp
  then have "\<not> unat (x - pt_entry p i) < 8"
    using in_page_entry [OF assms(1)] assms(2) by metis
  then show ?thesis by (simp add: store64_apply)
qed

lemma entry_store64:
  assumes "i < 512" "j < 512"
  shows "entry (store64 mem (pt_entry p i) v) p j = (if i = j then v else entry mem p j)"
proof (cases "i = j")
  case False
  have "pt_entry p a - pt_entry p b = of_nat (8 * a) - of_nat (8 * b)" for a b
    by (simp add: pt_entry_def)
  then have "apart (pt_entry p i) 8 (pt_entry p j) 8"
    using assms False by (auto simp: apart_def unat_sub_if' simp del: of_nat_mult)
  then show ?thesis using False by (simp add: load64_store64_apart)
qed simp

lemma memset_page_outside: "\<not> in_page p x \<Longrightarrow> memset mem p PAGE_SIZE 0 x = mem x"
  by (simp add: memset_zero_apply in_page_def)

lemma load64_zero: "(\<And>i. i < 8 \<Longrightarrow> mem (a + of_nat i) = 0) \<Longrightarrow> load64 mem a = 0"
  by (rule bit_word_eqI) (simp add: load64_def bit_word_le nth_load_bytes)

lemma entry_memset: "i < 512 \<Longrightarrow> entry (memset mem p PAGE_SIZE 0) p i = 0"
  by (rule load64_zero) (use in_page_entry in \<open>simp add: memset_zero_apply in_page_def\<close>)

lemma VPN_lt: "VPN va l < 512"
proof -
  have "drop_bit (12 + 9 * l) va AND 0x1ff \<le> 0x1ff" by (rule word_and_le1)
  then show ?thesis by (simp add: VPN_def word_le_nat_alt)
qed

section \<open>The tree of tables\<close>

text \<open>
  \<open>tables l mem p\<close> are the pages of the tree with root \<open>p\<close> whose root stands at
  level \<open>l\<close>; \<open>tree l mem p\<close> says that interior entries are empty or point to
  subtrees that share no page with each other or the root; \<open>leaf l mem p va\<close> is
  the level 0 entry that a walk for \<open>va\<close> ends at, 0 when it meets an empty entry.
\<close>

fun tables :: "nat \<Rightarrow> memory \<Rightarrow> addr \<Rightarrow> addr set" where
  "tables 0 mem p = {p}"
| "tables (Suc l) mem p =
     insert p (\<Union>i \<in> {i. i < 512 \<and> entry mem p i \<noteq> 0}. tables l mem (PTE_TO_PHYS (entry mem p i)))"

fun tree :: "nat \<Rightarrow> memory \<Rightarrow> addr \<Rightarrow> bool" where
  "tree 0 mem p \<longleftrightarrow> page_aligned p"
| "tree (Suc l) mem p \<longleftrightarrow> page_aligned p \<and>
     (\<forall>i < 512. entry mem p i \<noteq> 0 \<longrightarrow> IS_NONLEAF (entry mem p i) \<and>
        tree l mem (PTE_TO_PHYS (entry mem p i)) \<and> p \<notin> tables l mem (PTE_TO_PHYS (entry mem p i))) \<and>
     (\<forall>i < 512. \<forall>j < 512. i \<noteq> j \<longrightarrow> entry mem p i \<noteq> 0 \<longrightarrow> entry mem p j \<noteq> 0 \<longrightarrow>
        tables l mem (PTE_TO_PHYS (entry mem p i)) \<inter> tables l mem (PTE_TO_PHYS (entry mem p j)) = {})"

fun leaf :: "nat \<Rightarrow> memory \<Rightarrow> addr \<Rightarrow> regsize \<Rightarrow> regsize" where
  "leaf 0 mem p va = entry mem p (VPN va 0)"
| "leaf (Suc l) mem p va =
     (let e = entry mem p (VPN va (Suc l)) in if e = 0 then 0 else leaf l mem (PTE_TO_PHYS e) va)"

lemma root_in_tables [simp]: "p \<in> tables l mem p"
  by (cases l) auto

lemma tree_aligned: "tree l mem p \<Longrightarrow> q \<in> tables l mem p \<Longrightarrow> page_aligned q"
  by (induction l arbitrary: p) auto

lemma tree_root_aligned: "tree l mem p \<Longrightarrow> page_aligned p"
  by (cases l) auto

text \<open>A change of memory outside the table pages does not touch the tree.\<close>

definition same_pages :: "addr set \<Rightarrow> memory \<Rightarrow> memory \<Rightarrow> bool" where
  "same_pages S mem mem' \<longleftrightarrow> (\<forall>q \<in> S. \<forall>x. in_page q x \<longrightarrow> mem' x = mem x)"

lemma same_pages_mono: "same_pages S mem mem' \<Longrightarrow> T \<subseteq> S \<Longrightarrow> same_pages T mem mem'"
  by (auto simp: same_pages_def)

lemma entry_same: "same_pages S mem mem' \<Longrightarrow> p \<in> S \<Longrightarrow> i < 512 \<Longrightarrow> entry mem' p i = entry mem p i"
  by (rule entry_cong) (auto simp: same_pages_def)

lemma tree_frame:
  assumes "same_pages (tables l mem p) mem mem'"
  shows "tables l mem' p = tables l mem p \<and> (tree l mem' p \<longleftrightarrow> tree l mem p) \<and>
    leaf l mem' p va = leaf l mem p va"
  using assms
proof (induction l arbitrary: p)
  case 0
  then have "entry mem' p i = entry mem p i" if "i < 512" for i
    using entry_same [of "{p}" mem mem' p i] that by simp
  then show ?case by (simp add: VPN_lt)
next
  case (Suc l)
  have e: "entry mem' p i = entry mem p i" if "i < 512" for i
    using Suc.prems _ that by (rule entry_same) simp
  have sub: "tables l mem' (PTE_TO_PHYS (entry mem p i)) = tables l mem (PTE_TO_PHYS (entry mem p i)) \<and>
      (tree l mem' (PTE_TO_PHYS (entry mem p i)) \<longleftrightarrow> tree l mem (PTE_TO_PHYS (entry mem p i))) \<and>
      leaf l mem' (PTE_TO_PHYS (entry mem p i)) va = leaf l mem (PTE_TO_PHYS (entry mem p i)) va"
    if "i < 512" "entry mem p i \<noteq> 0" for i
    by (rule Suc.IH, rule same_pages_mono [OF Suc.prems]) (use that in auto)
  then have "tables (Suc l) mem' p = tables (Suc l) mem p"
    using e by auto
  moreover have "tree (Suc l) mem' p \<longleftrightarrow> tree (Suc l) mem p"
    using e sub by simp
  moreover have "leaf (Suc l) mem' p va = leaf (Suc l) mem p va"
    using e [OF VPN_lt] sub [OF VPN_lt] by (simp add: Let_def)
  ultimately show ?case by blast
qed

text \<open>The subtrees of a root other than the one behind entry \<open>k\<close>.\<close>

definition siblings :: "nat \<Rightarrow> memory \<Rightarrow> addr \<Rightarrow> nat \<Rightarrow> addr set" where
  "siblings l mem p k =
     (\<Union>i \<in> {i. i < 512 \<and> i \<noteq> k \<and> entry mem p i \<noteq> 0}. tables l mem (PTE_TO_PHYS (entry mem p i)))"

lemma tables_split:
  "k < 512 \<Longrightarrow> tables (Suc l) mem p = insert p (siblings l mem p k \<union>
     (if entry mem p k = 0 then {} else tables l mem (PTE_TO_PHYS (entry mem p k))))"
  by (auto simp: siblings_def)

lemma tree_step:
  assumes T: "tree (Suc l) mem p" and k: "k < 512"
    and e: "entry mem' p k = e" "e \<noteq> 0" "IS_NONLEAF e" "tree l mem' (PTE_TO_PHYS e)"
    and others: "\<And>j. j < 512 \<Longrightarrow> j \<noteq> k \<Longrightarrow> entry mem' p j = entry mem p j"
    and disj: "tables l mem' (PTE_TO_PHYS e) \<inter> insert p (siblings l mem p k) = {}"
    and unch: "\<And>x. \<not> in_page p x \<Longrightarrow> (\<forall>q \<in> tables l mem' (PTE_TO_PHYS e). \<not> in_page q x) \<Longrightarrow> mem' x = mem x"
  shows "tree (Suc l) mem' p"
    "tables (Suc l) mem' p = insert p (siblings l mem p k \<union> tables l mem' (PTE_TO_PHYS e))"
    "leaf (Suc l) mem' p va =
       (if VPN va (Suc l) = k then leaf l mem' (PTE_TO_PHYS e) va else leaf (Suc l) mem p va)"
proof -
  have same: "same_pages (tables l mem (PTE_TO_PHYS (entry mem p j))) mem mem'"
    if "j < 512" "j \<noteq> k" "entry mem p j \<noteq> 0" for j
    unfolding same_pages_def
  proof (intro ballI allI impI)
    fix q x assume q: "q \<in> tables l mem (PTE_TO_PHYS (entry mem p j))" and x: "in_page q x"
    have al: "page_aligned q" "page_aligned p"
      using T that q by (auto intro: tree_aligned)
    have "q \<in> siblings l mem p k" "q \<noteq> p"
      using T that q by (auto simp: siblings_def)
    then show "mem' x = mem x"
      using in_page_unique [OF al(1) _ x] al(2) tree_aligned [OF e(4)] disj by (intro unch) blast+
  qed
  have kept: "tables l mem' (PTE_TO_PHYS (entry mem p j)) = tables l mem (PTE_TO_PHYS (entry mem p j)) \<and>
      (tree l mem' (PTE_TO_PHYS (entry mem p j)) \<longleftrightarrow> tree l mem (PTE_TO_PHYS (entry mem p j))) \<and>
      leaf l mem' (PTE_TO_PHYS (entry mem p j)) va = leaf l mem (PTE_TO_PHYS (entry mem p j)) va"
    if "j < 512" "j \<noteq> k" "entry mem p j \<noteq> 0" for j va
    by (rule tree_frame [OF same [OF that]])
  have sib: "siblings l mem' p k = siblings l mem p k"
    using kept others by (auto simp: siblings_def)
  then show "tables (Suc l) mem' p = insert p (siblings l mem p k \<union> tables l mem' (PTE_TO_PHYS e))"
    using e k by (subst tables_split [OF k]) simp
  show "leaf (Suc l) mem' p va =
       (if VPN va (Suc l) = k then leaf l mem' (PTE_TO_PHYS e) va else leaf (Suc l) mem p va)"
    using e kept [OF VPN_lt] others [OF VPN_lt] by (simp add: Let_def)
  have child: "entry mem' p i = (if i = k then e else entry mem p i)" if "i < 512" for i
    using e(1) others [OF that] by simp
  have sibI: "tables l mem (PTE_TO_PHYS (entry mem p j)) \<subseteq> siblings l mem p k"
    if "j < 512" "j \<noteq> k" "entry mem p j \<noteq> 0" for j
    using that by (auto simp: siblings_def)
  show "tree (Suc l) mem' p"
    unfolding tree.simps
  proof (intro conjI allI impI)
    show "page_aligned p" using T by simp
    fix i assume i: "i < 512" "entry mem' p i \<noteq> 0"
    show "IS_NONLEAF (entry mem' p i)" "tree l mem' (PTE_TO_PHYS (entry mem' p i))"
      "p \<notin> tables l mem' (PTE_TO_PHYS (entry mem' p i))"
      using T i e(3,4) kept disj by (auto simp: child split: if_splits)
    fix j assume j: "j < 512" "i \<noteq> j" "entry mem' p j \<noteq> 0"
    show "tables l mem' (PTE_TO_PHYS (entry mem' p i)) \<inter> tables l mem' (PTE_TO_PHYS (entry mem' p j)) = {}"
      using i j T kept disj sibI [of i] sibI [of j]
      by (cases "i = k"; cases "j = k") (auto simp: child)
  qed
qed

section \<open>Mapping a page\<close>

definition leaf_pte :: "addr \<Rightarrow> regsize \<Rightarrow> regsize" where
  "leaf_pte phys perm = PHYS_TO_PTE phys OR perm OR PTE_A OR PTE_D OR PTE_V"

definition outside :: "addr set \<Rightarrow> addr \<Rightarrow> bool" where
  "outside S x \<longleftrightarrow> (\<forall>q \<in> S. \<not> in_page q x)"

text \<open>What a successful call does to the tree with root \<open>p\<close> at level \<open>l\<close>.\<close>

definition mapped :: "nat \<Rightarrow> addr \<Rightarrow> regsize \<Rightarrow> regsize \<Rightarrow> vm \<Rightarrow> vm \<Rightarrow> bool" where
  "mapped l p e virt s s' \<longleftrightarrow> (case (s, s') of ((mem, pm), (mem', pm')) \<Rightarrow>
     pm_wf pm' \<and> frames pm' = frames pm \<and> taken pm \<subseteq> taken pm' \<and> tree l mem' p \<and>
     tables l mem' p = tables l mem p \<union> (taken pm' - taken pm) \<and>
     (\<forall>x. outside (tables l mem' p) x \<longrightarrow> mem' x = mem x) \<and>
     (\<forall>va. leaf l mem' p va =
        (if \<forall>i \<le> l. VPN va i = VPN virt i then e else leaf l mem p va)))"

lemma empty_table:
  assumes "\<And>i. i < 512 \<Longrightarrow> entry mem p i = 0" "page_aligned p"
  shows "tables l mem p = {p}" "tree l mem p" "leaf l mem p va = 0"
  using assms by (cases l; simp add: VPN_lt)+

lemma PTE_NONLEAF:
  assumes "page_aligned a"
  shows "PTE_TO_PHYS (PHYS_TO_PTE a OR PERM_NONLEAF) = a" "IS_NONLEAF (PHYS_TO_PTE a OR PERM_NONLEAF)"
    "PHYS_TO_PTE a OR PERM_NONLEAF \<noteq> 0"
proof -
  show "PTE_TO_PHYS (PHYS_TO_PTE a OR PERM_NONLEAF) = a"
    using assms by (simp add: PTE_roundtrip PERM_NONLEAF_def)
  let ?e = "PHYS_TO_PTE a OR PERM_NONLEAF"
  have flags: "PERM_MASK ?e = 1"
    by (simp add: PERM_MASK_PTE PERM_NONLEAF_def)
  have low: "?e AND f = PERM_MASK ?e AND f" if "0x3ff AND f = f" for f
    by (simp add: PERM_MASK_def and.assoc that)
  show "IS_NONLEAF ?e"
    by (simp add: IS_NONLEAF_def HAS_V_def HAS_R_def HAS_X_def low flags)
  show "?e \<noteq> 0" using flags by (auto simp: PERM_MASK_def)
qed

lemma frames_aligned: "pm_wf pm \<Longrightarrow> q \<in> frames pm \<Longrightarrow> page_aligned q"
  by (auto simp: pm_wf_def frames_def list_all_iff)

lemma kalloc_got:
  assumes "pm_wf pm" "kalloc site pid pm = Inr (q, pm1)" "q \<noteq> 0"
  shows "pm_wf pm1" "frames pm1 = frames pm" "taken pm1 = insert q (taken pm)" "q \<notin> taken pm"
    "page_aligned q" "q \<in> frames pm"
proof -
  note a = assms(1) assms(2) [unfolded kalloc_def]
  show "pm_wf pm1" "frames pm1 = frames pm" "taken pm1 = insert q (taken pm)"
    by (rule pa.alloc_inv [OF a], rule pa.alloc_frames [OF a], rule pa.alloc_owned [OF a assms(3)])
  show "q \<notin> taken pm" "q \<in> frames pm"
    using pa.alloc_fresh [OF a assms(3)] by auto
  then show "page_aligned q" using frames_aligned [OF assms(1)] by blast
qed

lemma mapped_step:
  fixes c p mem l virt
  defines "k \<equiv> VPN virt (Suc l)"
  defines "old \<equiv> if entry mem p k = 0 then {} else tables l mem (PTE_TO_PHYS (entry mem p k))"
  assumes T: "tree (Suc l) mem p" "tables (Suc l) mem p \<subseteq> taken pm"
    and ih: "mapped l c pte virt (m1, pm1) (mem', pm')"
    and pm1: "taken pm \<subseteq> taken pm1" "frames pm1 = frames pm"
    and c: "tables l m1 c = old \<union> (taken pm1 - taken pm)"
    and e: "entry m1 p k = e" "e \<noteq> 0" "IS_NONLEAF e" "PTE_TO_PHYS e = c"
    and others: "\<And>j. j < 512 \<Longrightarrow> j \<noteq> k \<Longrightarrow> entry m1 p j = entry mem p j"
    and unch: "\<And>x. \<not> in_page p x \<Longrightarrow> outside (tables l m1 c) x \<Longrightarrow> m1 x = mem x"
    and leaf1: "\<And>va. leaf l m1 c va =
      (if entry mem p k = 0 then 0 else leaf l mem (PTE_TO_PHYS (entry mem p k)) va)"
  shows "mapped (Suc l) p pte virt (mem, pm) (mem', pm')"
proof -
  have k: "k < 512" unfolding k_def by (rule VPN_lt)
  note ih = ih [unfolded mapped_def prod.case]
  have al: "page_aligned p" using T by simp
  have split: "tables (Suc l) mem p = insert p (siblings l mem p k \<union> old)"
    unfolding old_def by (rule tables_split [OF k])
  have dj: "old \<inter> insert p (siblings l mem p k) = {}"
    using T(1) k by (auto simp: old_def siblings_def)
  have tc: "tables l mem' c = old \<union> (taken pm' - taken pm)" using ih c pm1 by auto
  have disj: "tables l mem' c \<inter> insert p (siblings l mem p k) = {}"
    using tc dj split T(2) by (auto simp del: tables.simps)
  have root: "mem' x = m1 x" if "in_page p x" for x
  proof -
    have "outside (tables l mem' c) x"
      unfolding outside_def using disj tree_aligned ih in_page_unique [OF al _ that] by blast
    then show ?thesis using ih by blast
  qed
  note ent = entry_cong [OF _ root]
  have unch': "mem' x = mem x" if "\<not> in_page p x" "outside (tables l mem' c) x" for x
    using that ih unch [of x] by (auto simp: outside_def)
  have "tree (Suc l) mem' p" "tables (Suc l) mem' p = insert p (siblings l mem p k \<union> tables l mem' c)"
    "\<And>va. leaf (Suc l) mem' p va = (if VPN va (Suc l) = k then leaf l mem' c va else leaf (Suc l) mem p va)"
    using tree_step [OF T(1) k, of mem' e, unfolded e(4)] e(1-3) ih ent k others disj
      unch' [unfolded outside_def] by simp_all
  note step = this
  have "leaf (Suc l) mem' p va =
      (if \<forall>i \<le> Suc l. VPN va i = VPN virt i then pte else leaf (Suc l) mem p va)" for va
    using step(3) [of va] ih leaf1 by (auto simp: le_Suc_eq k_def Let_def)
  moreover have "tables (Suc l) mem' p = tables (Suc l) mem p \<union> (taken pm' - taken pm)"
    using step(2) tc split by auto
  moreover have "mem' x = mem x" if "outside (tables (Suc l) mem' p) x" for x
    using that step(2) by (intro unch') (auto simp: outside_def)
  ultimately show ?thesis
    using ih pm1 step(1) unfolding mapped_def prod.case by blast
qed

text \<open>The table that \<open>map_page_sv39\<close> adds: a zeroed fresh page, then the entry that links it.\<close>

definition link_table :: "memory \<Rightarrow> addr \<Rightarrow> nat \<Rightarrow> addr \<Rightarrow> memory" where
  "link_table mem p k q =
     store64 (memset mem q PAGE_SIZE 0) (pt_entry p k) (PHYS_TO_PTE q OR PERM_NONLEAF)"

lemma link_table_entries:
  assumes "page_aligned p" "page_aligned q" "p \<noteq> q" "k < 512" "j < 512"
  shows "entry (link_table mem p k q) q j = 0"
    "entry (link_table mem p k q) p j = (if j = k then PHYS_TO_PTE q OR PERM_NONLEAF else entry mem p j)"
proof -
  have out: "\<not> in_page q x" if "in_page p x" for x
    using in_page_unique [OF assms(1,2) that] assms(3) by blast
  have "entry (link_table mem p k q) q j = entry (memset mem q PAGE_SIZE 0) q j"
    unfolding link_table_def using out by (intro entry_cong store64_outside assms) blast
  then show "entry (link_table mem p k q) q j = 0"
    by (simp add: entry_memset assms del: PAGE_SIZE_def)
  show "entry (link_table mem p k q) p j = (if j = k then PHYS_TO_PTE q OR PERM_NONLEAF else entry mem p j)"
    unfolding link_table_def using entry_cong [OF assms(5) memset_page_outside [OF out], of p]
    by (auto simp: entry_store64 assms)
qed

lemma link_table_outside: "k < 512 \<Longrightarrow> \<not> in_page p x \<Longrightarrow> \<not> in_page q x \<Longrightarrow> link_table mem p k q x = mem x"
  by (simp add: link_table_def store64_outside memset_page_outside del: PAGE_SIZE_def)

lemma map_page_level_mapped:
  assumes "pm_wf pm" "tree l mem p" "tables l mem p \<subseteq> taken pm"
    "map_page_level l p phys virt perm pid (mem, pm) = Inr s'"
  shows "mapped l p (leaf_pte phys perm) virt (mem, pm) s'"
  using assms
proof (induction l arbitrary: p mem pm)
  case 0
  then show ?case
    by (auto simp: mapped_def leaf_pte_def entry_store64 VPN_lt outside_def store64_outside)
next
  case (Suc l)
  let ?k = "VPN virt (Suc l)"
  obtain mem' pm' where s': "s' = (mem', pm')" by fastforce
  note k = VPN_lt [of virt "Suc l"]
  have al: "page_aligned p" "p \<in> taken pm" using Suc.prems by simp_all
  show ?case
  proof (cases "entry mem p ?k = 0")
    case True
    obtain q pm1 where q: "kalloc ''pagetable'' pid pm = Inr (q, pm1)" "q \<noteq> 0"
      and rest: "map_page_level l q phys virt perm pid (link_table mem p ?k q, pm1) = Inr s'"
      using Suc.prems(4) True by (auto simp: Let_def link_table_def split: if_splits)
    note got = kalloc_got [OF Suc.prems(1) q]
    have pq: "p \<noteq> q" using al got by auto
    note link = link_table_entries [OF al(1) got(5) pq k]
    note new = empty_table [OF link(1) got(5)]
    have ih: "mapped l q (leaf_pte phys perm) virt (link_table mem p ?k q, pm1) s'"
      by (rule Suc.IH [OF got(1) new(2) _ rest]) (auto simp: new got)
    show ?thesis
      unfolding s'
      by (rule mapped_step [OF Suc.prems(2,3) ih [unfolded s']])
        (use True got PTE_NONLEAF [OF got(5)] in
          \<open>auto simp: new link link_table_outside outside_def k\<close>)
  next
    case False
    let ?c = "PTE_TO_PHYS (entry mem p ?k)"
    have rest: "map_page_level l ?c phys virt perm pid (mem, pm) = Inr s'"
      using Suc.prems(4) False by (simp add: Let_def)
    have sub: "tree l mem ?c" "tables l mem ?c \<subseteq> taken pm" "IS_NONLEAF (entry mem p ?k)"
      using Suc.prems(2,3) k False by auto
    show ?thesis
      unfolding s'
      by (rule mapped_step [OF Suc.prems(2,3) Suc.IH [OF Suc.prems(1) sub(1,2) rest, unfolded s']])
        (use False sub in auto)
  qed
qed

text \<open>Enough free frames: a call adds at most one table per level below the root.\<close>

lemma finite_frames [simp]: "finite (frames pm)"
  by (simp add: frames_def)

definition nfree :: "paged_mem_t \<Rightarrow> nat" where
  "nfree pm = card (frames pm - taken pm)"

lemma kalloc_free:
  assumes "pm_wf pm" "0 < nfree pm"
  shows "\<exists>q pm1. kalloc site pid pm = Inr (q, pm1) \<and> q \<noteq> 0 \<and> nfree pm = Suc (nfree pm1)"
proof -
  obtain q pm1 where q: "kalloc site pid pm = Inr (q, pm1)"
    using pa.alloc_total [OF assms(1)] unfolding kalloc_def by blast
  have "q \<noteq> 0"
  proof
    assume "q = 0"
    then have "frames pm \<subseteq> taken pm"
      using pa.alloc_null [OF assms(1)] q unfolding kalloc_def by blast
    then have "frames pm - taken pm = {}" by blast
    with assms(2) show False by (simp add: nfree_def)
  qed
  note got = kalloc_got [OF assms(1) q this]
  have "frames pm - taken pm = insert q (frames pm1 - taken pm1)" "q \<notin> frames pm1 - taken pm1"
    using got by auto
  then show ?thesis using q \<open>q \<noteq> 0\<close> by (simp add: nfree_def)
qed

lemma map_page_level_total:
  assumes "pm_wf pm" "l \<le> nfree pm"
  shows "\<exists>mem' pm'. map_page_level l p phys virt perm pid (mem, pm) = Inr (mem', pm') \<and>
    pm_wf pm' \<and> nfree pm \<le> nfree pm' + l"
  using assms
proof (induction l arbitrary: p mem pm)
  case 0
  then show ?case by simp
next
  case (Suc l)
  obtain q pm1 where q: "kalloc ''pagetable'' pid pm = Inr (q, pm1)" and "q \<noteq> 0" and n: "nfree pm = Suc (nfree pm1)"
    using kalloc_free [OF Suc.prems(1), of "''pagetable''" pid] Suc.prems(2) by auto
  note got = kalloc_got [OF Suc.prems(1) q \<open>q \<noteq> 0\<close>]
  let ?ok = "\<lambda>pm p' mem'. \<exists>mem2 pm2. map_page_level l p' phys virt perm pid (mem', pm) = Inr (mem2, pm2) \<and>
    pm_wf pm2 \<and> nfree pm \<le> nfree pm2 + l"
  have new: "?ok pm1 p' mem'" for p' mem'
    using Suc.IH [OF got(1)] Suc.prems(2) n by simp
  have "?ok pm p' mem'" for p' mem'
    using Suc by simp
  note old = this
  show ?case
  proof (cases "entry mem p (VPN virt (Suc l)) = 0")
    case True
    obtain mem2 pm2 where
      "map_page_level l q phys virt perm pid (link_table mem p (VPN virt (Suc l)) q, pm1) = Inr (mem2, pm2)"
      "pm_wf pm2" "nfree pm1 \<le> nfree pm2 + l"
      using new by blast
    then show ?thesis
      using q \<open>q \<noteq> 0\<close> n True by (auto simp: Let_def link_table_def)
  next
    case False
    then show ?thesis
      using old [of "PTE_TO_PHYS (entry mem p (VPN virt (Suc l)))" mem] by (auto simp: Let_def)
  qed
qed

lemma map_page_total:
  assumes "pm_wf (snd s)" "2 \<le> nfree (snd s)"
  shows "\<exists>s'. map_page_sv39 pt phys virt perm pid s = Inr s' \<and> pm_wf (snd s') \<and> nfree (snd s) \<le> nfree (snd s') + 2"
  using map_page_level_total [OF assms, of pt phys virt perm pid "fst s"] by (auto simp: map_page_sv39_def)

section \<open>Address spaces\<close>

definition vpage :: "regsize \<Rightarrow> regsize" where
  "vpage va = take_bit 27 (drop_bit 12 va)"

lemma bit_vpage: "bit (vpage va) k \<longleftrightarrow> k < 27 \<and> bit va (k + 12)"
  by (auto simp: vpage_def bit_simps add.commute)

lemma VPN_eq_iff:
  "VPN a i = VPN b i \<longleftrightarrow> (\<forall>k < 9. bit a (12 + 9 * i + k) = bit b (12 + 9 * i + k))"
proof -
  have *: "VPN a i = unat (take_bit 9 (drop_bit (12 + 9 * i) a))" for a
    by (simp add: VPN_def bit_mask_consts take_bit_eq_mask)
  show ?thesis
    unfolding * by (auto simp: bit_eq_iff bit_simps dest: spec)
qed

lemma vpage_VPN: "(\<forall>i \<le> 2. VPN a i = VPN b i) \<longleftrightarrow> vpage a = vpage b"
proof
  assume l: "\<forall>i \<le> 2. VPN a i = VPN b i"
  show "vpage a = vpage b"
  proof (rule bit_word_eqI)
    fix k assume "k < LENGTH(64)"
    have "bit a (k + 12) = bit b (k + 12)" if "k < 27"
    proof -
      have "k div 9 \<le> 2" using that by simp
      then have "VPN a (k div 9) = VPN b (k div 9)" using l by blast
      then have "bit a (12 + 9 * (k div 9) + k mod 9) = bit b (12 + 9 * (k div 9) + k mod 9)"
        unfolding VPN_eq_iff by (metis mod_less_divisor zero_less_numeral)
      moreover have "12 + 9 * (k div 9) + k mod 9 = k + 12" by simp
      ultimately show ?thesis by metis
    qed
    then show "bit (vpage a) k = bit (vpage b) k" by (auto simp: bit_vpage)
  qed
next
  assume v: "vpage a = vpage b"
  show "\<forall>i \<le> 2. VPN a i = VPN b i"
  proof (intro allI impI)
    fix i :: nat assume i: "i \<le> 2"
    show "VPN a i = VPN b i"
      unfolding VPN_eq_iff
    proof (intro allI impI)
      fix k :: nat assume "k < 9"
      then have "9 * i + k < 27" using i by simp
      moreover have "bit (vpage a) (9 * i + k) = bit (vpage b) (9 * i + k)" using v by simp
      ultimately show "bit a (12 + 9 * i + k) = bit b (12 + 9 * i + k)"
        by (simp add: bit_vpage ac_simps)
    qed
  qed
qed

definition as_wf :: "addr \<Rightarrow> vm \<Rightarrow> bool" where
  "as_wf pt s \<longleftrightarrow> pm_wf (snd s) \<and> tree 2 (fst s) pt \<and> tables 2 (fst s) pt \<subseteq> taken (snd s)"

definition pte_at :: "addr \<Rightarrow> vm \<Rightarrow> regsize \<Rightarrow> regsize" where
  "pte_at pt s va = leaf 2 (fst s) pt va"

lemma unat_numeral_1024: "unat (2 ^ 10 :: regsize) = 1024"
  by simp

lemma lt10_iff: "x < 2 ^ 10 \<longleftrightarrow> take_bit 10 (x :: regsize) = x"
proof
  assume "take_bit 10 x = x"
  then have "x = x mod 2 ^ 10" by (simp add: take_bit_eq_mod)
  then have "unat x = unat x mod 1024" by (metis unat_mod unat_numeral_1024)
  then show "x < 2 ^ 10" by (simp add: word_less_nat_alt)
next
  assume x: "x < 2 ^ 10"
  show "take_bit 10 x = x"
    by (rule bit_word_eqI) (use low_bits [OF x] in \<open>auto simp: bit_take_bit_iff not_le [symmetric]\<close>)
qed

lemma leaf_pte_flags:
  assumes "perm < 2 ^ 10"
  shows "PERM_MASK (leaf_pte phys perm) = perm OR 193"
    and "page_aligned phys \<Longrightarrow> PTE_TO_PHYS (leaf_pte phys perm) = phys"
proof -
  have lt: "perm OR 193 < 2 ^ 10"
    using assms unfolding lt10_iff take_bit_or by (simp add: take_bit_eq_mod)
  have eq: "leaf_pte phys perm = PHYS_TO_PTE phys OR (perm OR 193)"
    by (simp add: leaf_pte_def or.assoc)
  show "PERM_MASK (leaf_pte phys perm) = perm OR 193"
    unfolding eq by (rule PERM_MASK_PTE [OF lt])
  show "PTE_TO_PHYS (leaf_pte phys perm) = phys" if "page_aligned phys"
    unfolding eq by (rule PTE_roundtrip [OF that lt])
qed

lemma flag_of_mask: "0x3ff AND f = f \<Longrightarrow> pte AND f = PERM_MASK pte AND f"
  by (simp add: PERM_MASK_def and.assoc)

lemma leaf_pte_valid:
  assumes "perm < 2 ^ 10"
  shows "HAS_V (leaf_pte phys perm)" "HAS_R (leaf_pte phys perm) = HAS_R perm"
    "HAS_W (leaf_pte phys perm) = HAS_W perm" "HAS_X (leaf_pte phys perm) = HAS_X perm"
    "HAS_U (leaf_pte phys perm) = HAS_U perm"
proof -
  have *: "leaf_pte phys perm AND f = (perm AND f) OR (193 AND f)" if "0x3ff AND f = f" for f
    unfolding flag_of_mask [OF that, of "leaf_pte phys perm"] leaf_pte_flags(1) [OF assms]
    by (simp add: bit.conj_disj_distrib2)
  show "HAS_V (leaf_pte phys perm)" "HAS_R (leaf_pte phys perm) = HAS_R perm"
    "HAS_W (leaf_pte phys perm) = HAS_W perm" "HAS_X (leaf_pte phys perm) = HAS_X perm"
    "HAS_U (leaf_pte phys perm) = HAS_U perm"
    by (simp_all add: HAS_V_def HAS_R_def HAS_W_def HAS_X_def HAS_U_def *)
qed

lemma va2pa_leaf:
  assumes "tree l mem p"
  shows "va2pa_loop (Suc l) p va mem =
    (let e = leaf l mem p va in
     if IS_VALID e \<and> \<not> IS_NONLEAF e then PTE_TO_PHYS e OR PAGE_OFFS va else 0)"
  using assms
proof (induction l arbitrary: p)
  case 0
  then show ?case by (simp add: Let_def)
next
  case (Suc l)
  show ?case
  proof (cases "entry mem p (VPN va (Suc l)) = 0")
    case True
    then show ?thesis
      by (simp add: Let_def IS_VALID_def HAS_V_def HAS_W_def)
  next
    case False
    then have "IS_NONLEAF (entry mem p (VPN va (Suc l)))" "tree l mem (PTE_TO_PHYS (entry mem p (VPN va (Suc l))))"
      using Suc.prems VPN_lt by auto
    then show ?thesis
      using Suc.IH False by (subst va2pa_loop.simps) (simp add: Let_def IS_VALID_def IS_NONLEAF_def)
  qed
qed

lemma va2pa_pte:
  "as_wf pt s \<Longrightarrow> va2pa pt va (fst s) =
    (let e = pte_at pt s va in
     if IS_VALID e \<and> \<not> IS_NONLEAF e then PTE_TO_PHYS e OR PAGE_OFFS va else 0)"
  using va2pa_leaf [of 2 "fst s" pt va] by (simp add: as_wf_def va2pa_def pte_at_def numeral_3_eq_3)

text \<open>
  The interface that clients of the page table rely on: mapping one page keeps
  the invariant and replaces the entry of exactly one virtual page.
\<close>

fun map_all :: "(addr \<Rightarrow> regsize \<Rightarrow> 's \<Rightarrow> 's res) \<Rightarrow> (addr \<times> regsize) list \<Rightarrow> 's \<Rightarrow> 's res" where
  "map_all f [] s = Inr s"
| "map_all f ((pa, va) # ps) s = bnd (f pa va s) (map_all f ps)"

locale address_space =
  fixes map1 :: "addr \<Rightarrow> regsize \<Rightarrow> 's \<Rightarrow> 's res"
    and pte :: "'s \<Rightarrow> regsize \<Rightarrow> regsize"
    and mk :: "addr \<Rightarrow> regsize"
    and inv :: "'s \<Rightarrow> bool"
  assumes map1_inv: "inv s \<Longrightarrow> map1 pa va s = Inr s' \<Longrightarrow> inv s'"
    and map1_pte: "inv s \<Longrightarrow> map1 pa va s = Inr s' \<Longrightarrow>
      pte s' a = (if vpage a = vpage va then mk pa else pte s a)"
begin

lemma map_all_inv: "inv s \<Longrightarrow> map_all map1 ps s = Inr s' \<Longrightarrow> inv s'"
  by (induction ps arbitrary: s) (auto, metis map1_inv)

lemma map_all_pte:
  "inv s \<Longrightarrow> map_all map1 ps s = Inr s' \<Longrightarrow>
   pte s' a = (case map_of (rev (map (\<lambda>(pa, va). (vpage va, mk pa)) ps)) (vpage a) of
                 Some e \<Rightarrow> e | None \<Rightarrow> pte s a)"
proof (induction ps arbitrary: s)
  case Nil
  then show ?case by simp
next
  case (Cons x ps)
  obtain pa va where x: "x = (pa, va)" by fastforce
  obtain s1 where s1: "map1 pa va s = Inr s1" "map_all map1 ps s1 = Inr s'"
    using Cons.prems by (auto simp: x)
  show ?case
    using Cons.IH [OF map1_inv [OF Cons.prems(1) s1(1)] s1(2)] map1_pte [OF Cons.prems(1) s1(1)]
    by (auto simp: x map_add_def split: option.splits)
qed

lemma map_all_each:
  assumes "inv s" "map_all map1 ps s = Inr s'" "distinct (map (vpage \<circ> snd) ps)" "(pa, va) \<in> set ps"
    "vpage a = vpage va"
  shows "pte s' a = mk pa"
proof -
  let ?m = "map (\<lambda>(pa, va). (vpage va, mk pa)) ps"
  have "map fst ?m = map (vpage \<circ> snd) ps" by (induction ps) auto
  then have "distinct (map fst ?m)" using assms(3) by metis
  then have "distinct (map fst (rev ?m))" by (simp add: rev_map [symmetric] del: map_map)
  moreover have "(vpage va, mk pa) \<in> set (rev ?m)" using assms(4) by force
  ultimately have "map_of (rev ?m) (vpage va) = Some (mk pa)" by (rule map_of_is_SomeI)
  then show ?thesis using map_all_pte [OF assms(1,2), of a] assms(5) by simp
qed

lemma map_all_keeps:
  assumes "inv s" "map_all map1 ps s = Inr s'" "\<And>va. P (pte s va)" "\<And>pa. P (mk pa)"
  shows "P (pte s' va)"
  using map_all_pte [OF assms(1,2), of va] assms(3,4)
  by (auto split: option.splits dest!: map_of_SomeD)

lemma map_all_other:
  assumes "inv s" "map_all map1 ps s = Inr s'" "vpage a \<notin> (vpage \<circ> snd) ` set ps"
  shows "pte s' a = pte s a"
proof -
  have "map_of (rev (map (\<lambda>(pa, va). (vpage va, mk pa)) ps)) (vpage a) = None"
    using assms(3) by (force simp: map_of_eq_None_iff)
  then show ?thesis using map_all_pte [OF assms(1,2), of a] by simp
qed

end

interpretation vm_as: address_space "\<lambda>pa va. map_page_sv39 pt pa va perm pid" "pte_at pt"
  "\<lambda>pa. leaf_pte pa perm" "as_wf pt"
proof
  fix s pa va s' a
  assume a: "as_wf pt s" "map_page_sv39 pt pa va perm pid s = Inr s'"
  have "mapped 2 pt (leaf_pte pa perm) va (fst s, snd s) s'"
    using a by (intro map_page_level_mapped) (simp_all add: as_wf_def map_page_sv39_def)
  then show "as_wf pt s'" "pte_at pt s' a = (if vpage a = vpage va then leaf_pte pa perm else pte_at pt s a)"
    using a(1) vpage_VPN [of a va]
    by (auto simp: mapped_def as_wf_def pte_at_def split: prod.splits)
qed

section \<open>Ranges\<close>

lemma unat_vpage: "unat (vpage x) = unat x div 4096 mod 2 ^ 27"
proof -
  have "unat (take_bit 27 (drop_bit 12 x)) = take_bit 27 (drop_bit 12 (unat x))"
    using take_bit_nat_eq_self [of "unat x" 64] unat_lt64 [of x]
    by (simp add: unsigned_take_bit_eq unsigned_drop_bit_eq)
  then show ?thesis by (simp add: vpage_def take_bit_eq_mod drop_bit_eq_div)
qed

lemma div_mod_page: "(a mod 2 ^ 64) div 4096 mod 2 ^ 27 = a div 4096 mod (2 ^ 27 :: nat)"
proof -
  have "drop_bit 12 (take_bit 64 a) = take_bit 52 (drop_bit 12 a)"
    by (simp add: drop_bit_take_bit)
  then have "take_bit 27 (drop_bit 12 (take_bit 64 a)) = take_bit 27 (drop_bit 12 a)"
    by (simp add: take_bit_take_bit)
  then show ?thesis by (simp add: take_bit_eq_mod drop_bit_eq_div)
qed

lemma unat_vpage_add: "unat (vpage (va + of_nat i * 4096)) = (unat va div 4096 + i) mod 2 ^ 27"
proof -
  have "unat (va + of_nat i * 4096) = (unat va + i * 4096) mod 2 ^ 64"
    by (simp add: unat_word_ariths unat_of_nat mod_simps)
  moreover have "(unat va + i * 4096) div 4096 = unat va div 4096 + i" by simp
  ultimately show ?thesis unfolding unat_vpage by (simp only: div_mod_page)
qed

definition range_pages :: "addr \<Rightarrow> regsize \<Rightarrow> nat \<Rightarrow> (addr \<times> regsize) list" where
  "range_pages pa va n = map (\<lambda>i. (pa + of_nat i * 4096, va + of_nat i * 4096)) [0..<n]"

lemma range_pages_distinct:
  assumes "n \<le> 2 ^ 27"
  shows "distinct (map (vpage \<circ> snd) (range_pages pa va n))"
proof -
  have le: "i = j" if "i \<le> j" "j < n"
    "vpage (va + of_nat i * 4096) = vpage (va + of_nat j * 4096)" for i j
  proof -
    have "(unat va div 4096 + j) mod 2 ^ 27 = (unat va div 4096 + i) mod 2 ^ 27"
      using that(3) unat_vpage_add by metis
    then have "2 ^ 27 dvd (unat va div 4096 + j) - (unat va div 4096 + i)"
      using that(1) mod_eq_dvd_iff_nat by (metis add_le_cancel_left)
    then have "2 ^ 27 dvd j - i" by simp
    then show "i = j" using that assms by (auto dest!: dvd_imp_le)
  qed
  have "inj_on (\<lambda>i. vpage (va + of_nat i * 4096)) {0..<n}"
    by (rule linorder_inj_onI) (auto dest: le [OF less_imp_le])
  then show ?thesis by (simp add: range_pages_def distinct_map comp_def)
qed

lemma range_pages_Suc:
  "range_pages pa va (Suc n) = (pa, va) # range_pages (pa + 4096) (va + 4096) n"
proof -
  have "[0..<Suc n] = 0 # map Suc [0..<n]" by (simp add: map_Suc_upt upt_conv_Cons del: upt_Suc)
  then show ?thesis
    by (simp add: range_pages_def algebra_simps del: upt_Suc)
qed

lemma map_range_loop_all:
  assumes "n \<le> k" "n < 2 ^ 52"
  shows "map_range_loop k pt pa (pa + of_nat n * 4096) va perm pid s =
    map_all (\<lambda>pa va. map_page_sv39 pt pa va perm pid) (range_pages pa va n) s"
  using assms
proof (induction n arbitrary: k pa va s)
  case 0
  then show ?case by (cases k) (simp_all add: range_pages_def)
next
  case (Suc n)
  then obtain k' where k: "k = Suc k'" by (cases k) auto
  have "unat (of_nat (Suc n) * 4096 :: addr) = Suc n * 4096"
    using Suc.prems by (simp add: unat_word_ariths unat_of_nat)
  then have "pa \<noteq> pa + of_nat (Suc n) * 4096" by (metis add_cancel_right_right mult_eq_0_iff nat.simps(3) unat_0 zero_neq_numeral)
  moreover have "pa + of_nat (Suc n) * 4096 = (pa + 4096) + of_nat n * 4096" by (simp add: algebra_simps)
  moreover have "map_range_loop k' pt (pa + 4096) (pa + 4096 + of_nat n * 4096) (va + 4096) perm pid =
      map_all (\<lambda>pa va. map_page_sv39 pt pa va perm pid) (range_pages (pa + 4096) (va + 4096) n)"
    using Suc.IH [of k' "pa + 4096" "va + 4096"] Suc.prems by (intro ext) (simp add: k)
  ultimately show ?case
    by (simp only: k range_pages_Suc map_range_loop.simps map_all.simps if_True PAGE_SIZE_def not_False_eq_True)
qed

lemma map_all_total:
  assumes "pm_wf (snd s)" "2 * length ps \<le> nfree (snd s)"
  shows "\<exists>s'. map_all (\<lambda>pa va. map_page_sv39 pt pa va perm pid) ps s = Inr s' \<and> pm_wf (snd s') \<and>
    nfree (snd s) \<le> nfree (snd s') + 2 * length ps"
  using assms
proof (induction ps arbitrary: s)
  case Nil
  then show ?case by simp
next
  case (Cons x ps)
  obtain pa va where x: "x = (pa, va)" by fastforce
  obtain s1 where s1: "map_page_sv39 pt pa va perm pid s = Inr s1" "pm_wf (snd s1)"
    "nfree (snd s) \<le> nfree (snd s1) + 2"
    using map_page_total Cons.prems by fastforce
  with Cons.prems Cons.IH [of s1] show ?case by (force simp: x)
qed

lemma map_range_total:
  assumes "pm_wf (snd s)" "2 * n \<le> nfree (snd s)" "n < 2 ^ 52" "e = pa + of_nat n * 4096"
  shows "\<exists>s'. map_range pt pa e va perm pid s = Inr s' \<and> pm_wf (snd s') \<and>
    nfree (snd s) \<le> nfree (snd s') + 2 * n"
  using map_all_total [OF assms(1), of "range_pages pa va n" pt perm pid] assms(2-)
    map_range_loop_all [of n "2 ^ 52" pt pa va perm pid s]
  by (simp add: map_range_def range_pages_def)

lemma map_range_loop_some:
  "map_range_loop k pt pa e va perm pid s = Inr s' \<Longrightarrow>
   \<exists>ps. map_all (\<lambda>pa va. map_page_sv39 pt pa va perm pid) ps s = Inr s'"
proof (induction k arbitrary: pa va s)
  case 0
  then show ?case by (auto split: if_splits intro: exI [of _ "[]"])
next
  case (Suc k)
  then show ?case
  proof (cases "pa = e")
    case True
    then show ?thesis using Suc.prems by (auto intro: exI [of _ "[]"])
  next
    case False
    then obtain s1 where s1: "map_page_sv39 pt pa va perm pid s = Inr s1"
      "map_range_loop k pt (pa + PAGE_SIZE) e (va + PAGE_SIZE) perm pid s1 = Inr s'"
      using Suc.prems by auto
    with Suc.IH obtain ps where "map_all (\<lambda>pa va. map_page_sv39 pt pa va perm pid) ps s1 = Inr s'"
      by blast
    with s1 show ?thesis by (intro exI [of _ "(pa, va) # ps"]) simp
  qed
qed

lemma map_range_keeps:
  assumes "as_wf pt s" "map_range pt pa e va perm pid s = Inr s'"
    "\<And>a. P (pte_at pt s a)" "\<And>pa. P (leaf_pte pa perm)"
  shows "as_wf pt s' \<and> (\<forall>a. P (pte_at pt s' a))"
proof -
  obtain ps where ps: "map_all (\<lambda>pa va. map_page_sv39 pt pa va perm pid) ps s = Inr s'"
    using map_range_loop_some assms(2) unfolding map_range_def by blast
  show ?thesis
    using vm_as.map_all_inv [OF assms(1) ps] vm_as.map_all_keeps [OF assms(1) ps, of P] assms(3,4) by blast
qed

lemma map_page_keeps:
  assumes "as_wf pt s" "map_page_sv39 pt pa va perm pid s = Inr s'"
    "\<And>a. P (pte_at pt s a)" "\<And>pa. P (leaf_pte pa perm)"
  shows "as_wf pt s' \<and> (\<forall>a. P (pte_at pt s' a))"
  using vm_as.map1_inv [OF assms(1,2)] vm_as.map1_pte [OF assms(1,2)] assms(3,4) by simp

section \<open>Properties\<close>

text \<open>
  C2: a call of \<open>map_page_sv39\<close> that returns keeps the page table a tree of
  owned pages, replaces the leaf entry of exactly the given virtual page, takes
  frames only for the tables it adds and writes no byte outside table pages.
\<close>

theorem map_page_sv39_correct:
  assumes "as_wf pt (mem, pm)" "map_page_sv39 pt phys virt perm pid (mem, pm) = Inr (mem', pm')"
  shows "as_wf pt (mem', pm') \<and>
    (\<forall>va. pte_at pt (mem', pm') va =
       (if vpage va = vpage virt then leaf_pte phys perm else pte_at pt (mem, pm) va)) \<and>
    tables 2 mem' pt = tables 2 mem pt \<union> (taken pm' - taken pm) \<and> taken pm \<subseteq> taken pm' \<and>
    (\<forall>x. outside (tables 2 mem' pt) x \<longrightarrow> mem' x = mem x)"
proof -
  have "mapped 2 pt (leaf_pte phys perm) virt (mem, pm) (mem', pm')"
    using assms by (intro map_page_level_mapped) (simp_all add: as_wf_def map_page_sv39_def)
  then show ?thesis
    using vm_as.map1_inv [OF assms] vm_as.map1_pte [OF assms] by (simp add: mapped_def)
qed

text \<open>A table page at the first frame of a machine with three frames.\<close>

definition vm_example :: vm where
  "vm_example = (\<lambda>x. 0, \<lparr>pm_ksatp = 0, pm_kpagetable = 0, pm_lock = 0,
     pm_pages = [\<lparr>pg_ptr = 0x80000000, pg_flags = 1, pg_site = None, pg_pid = 1\<rparr>,
       free_page_desc 0x80001000, free_page_desc 0x80002000] @ replicate 45 (free_page_desc 0),
     pm_num_pages = 3, pm_unclaimed_start = 0, pm_unclaimed_end = 0x80000000\<rparr>)"

lemma taken_filter: "taken pm = set (map pg_ptr (filter (\<lambda>pg. pg_flags pg \<noteq> PAGE_FREE) (pages_in_use pm)))"
  by (auto simp: taken_def)

lemma vm_example_pm: "pm_wf (snd vm_example)" "taken (snd vm_example) = {0x80000000}"
  "frames (snd vm_example) = {0x80000000, 0x80001000, 0x80002000}"
  by (simp_all add: pm_wf_def vm_example_def pages_in_use_def page_aligned_def frames_def taken_filter)

lemma vm_example_wf: "as_wf 0x80000000 vm_example"
proof -
  have "entry (fst vm_example) p i = 0" for p i
    by (rule load64_zero) (simp add: vm_example_def)
  then have "tree 2 (fst vm_example) 0x80000000" "tables 2 (fst vm_example) 0x80000000 = {0x80000000}"
    by (simp_all add: page_aligned_def numeral_2_eq_2)
  then show ?thesis by (simp add: as_wf_def vm_example_pm)
qed

text \<open>
  C20: \<open>map_page_sv39\<close> returns, without a panic, whenever two frames are free:
  it adds at most one table for each of the two lower levels.
\<close>

theorem map_page_sv39_returns:
  assumes "pm_wf pm" "2 \<le> card (frames pm - taken pm)"
  shows "\<exists>s'. map_page_sv39 pt phys virt perm pid (mem, pm) = Inr s'"
  using map_page_total [of "(mem, pm)" pt phys virt perm pid] assms by (auto simp: nfree_def)

lemma vm_example_free: "2 \<le> card (frames (snd vm_example) - taken (snd vm_example))"
proof -
  have "frames (snd vm_example) - taken (snd vm_example) = {0x80001000, 0x80002000}"
    unfolding vm_example_pm by auto
  then show ?thesis by simp
qed

theorem map_page_sv39_returns_witness:
  "\<exists>s'. map_page_sv39 0x80000000 0x80005000 0x1000 PERM_UCODE 1 (fst vm_example, snd vm_example) = Inr s'"
  by (rule map_page_sv39_returns [OF vm_example_pm(1) vm_example_free])

lemma vm_example_map: "\<exists>m p. map_page_sv39 0x80000000 0x80005000 0x1000 PERM_UCODE 1 vm_example = Inr (m, p)"
  using map_page_total [OF vm_example_pm(1), of "0x80000000" "0x80005000" "0x1000" PERM_UCODE 1] vm_example_free
  by (auto simp: nfree_def)

theorem map_page_sv39_correct_witness:
  "\<exists>s'. as_wf 0x80000000 s' \<and> pte_at 0x80000000 s' 0x1000 = leaf_pte 0x80005000 PERM_UCODE"
proof -
  obtain m p where "map_page_sv39 0x80000000 0x80005000 0x1000 PERM_UCODE 1 (fst vm_example, snd vm_example) = Inr (m, p)"
    using vm_example_map by auto
  from map_page_sv39_correct [OF _ this] vm_example_wf show ?thesis by (metis prod.collapse)
qed

text \<open>
  C8: after mapping a page readable or executable, \<open>va2pa\<close> resolves every
  address of it to the same offset in the physical page, and every address of
  another page as before.
\<close>

theorem map_page_va2pa:
  assumes "as_wf pt s" "map_page_sv39 pt phys virt perm pid s = Inr s'"
    and "page_aligned phys" "perm < 2 ^ 10" "HAS_R perm \<or> HAS_X perm"
  shows "va2pa pt va (fst s') =
    (if vpage va = vpage virt then phys OR PAGE_OFFS va else va2pa pt va (fst s))"
  using assms leaf_pte_valid [OF assms(4), of phys] leaf_pte_flags(2) [OF assms(4,3)]
    vm_as.map1_pte [OF assms(1,2)] va2pa_pte [OF vm_as.map1_inv [OF assms(1,2)]] va2pa_pte [OF assms(1)]
  by (auto simp: Let_def IS_VALID_def IS_NONLEAF_def)

theorem map_page_va2pa_witness:
  "\<exists>s'. map_page_sv39 0x80000000 0x80005000 0x1000 PERM_UCODE 1 vm_example = Inr s' \<and>
     va2pa 0x80000000 0x1234 (fst s') = 0x80005234"
proof -
  obtain m p where s: "map_page_sv39 0x80000000 0x80005000 0x1000 PERM_UCODE 1 vm_example = Inr (m, p)"
    using vm_example_map by auto
  have "vpage 0x1234 = vpage 0x1000" by (simp add: vpage_def)
  moreover have "(0x80005000 :: addr) OR PAGE_OFFS 0x1234 = 0x80005234" by (simp add: PAGE_OFFS_def)
  ultimately show ?thesis
    using map_page_va2pa [OF vm_example_wf s, of "0x1234"] s
    by (simp add: page_aligned_def PERM_UCODE_def HAS_R_def)
qed

text \<open>
  C21: \<open>map_range\<close> over \<open>n\<close> pages that returns has mapped the \<open>i\<close>-th virtual
  page of the range to the \<open>i\<close>-th physical page with the given permissions and
  changed no other virtual page.
\<close>

theorem map_range_correct:
  assumes "as_wf pt s" "n \<le> 2 ^ 27"
    "map_range pt pa (pa + of_nat n * 4096) va perm pid s = Inr s'"
  shows "as_wf pt s' \<and>
    (\<forall>i a. i < n \<and> vpage a = vpage (va + of_nat i * 4096) \<longrightarrow>
       pte_at pt s' a = leaf_pte (pa + of_nat i * 4096) perm) \<and>
    (\<forall>a. (\<forall>i < n. vpage a \<noteq> vpage (va + of_nat i * 4096)) \<longrightarrow> pte_at pt s' a = pte_at pt s a)"
proof -
  have all: "map_all (\<lambda>pa va. map_page_sv39 pt pa va perm pid) (range_pages pa va n) s = Inr s'"
    using assms(2,3) map_range_loop_all [of n "2 ^ 52"] by (simp add: map_range_def)
  have mem: "(pa + of_nat i * 4096, va + of_nat i * 4096) \<in> set (range_pages pa va n)" if "i < n" for i
    using that by (auto simp: range_pages_def)
  show ?thesis
  proof (intro conjI allI impI)
    show "as_wf pt s'" by (rule vm_as.map_all_inv [OF assms(1) all])
    fix i a assume "i < n \<and> vpage a = vpage (va + of_nat i * 4096)"
    then show "pte_at pt s' a = leaf_pte (pa + of_nat i * 4096) perm"
      by (intro vm_as.map_all_each [OF assms(1) all range_pages_distinct [OF assms(2)] mem]) auto
  next
    fix a assume "\<forall>i < n. vpage a \<noteq> vpage (va + of_nat i * 4096)"
    then show "pte_at pt s' a = pte_at pt s a"
      by (intro vm_as.map_all_other [OF assms(1) all]) (auto simp: range_pages_def)
  qed
qed

theorem map_range_correct_witness:
  "\<exists>s'. map_range 0x80000000 0x80005000 0x80006000 0x1000 PERM_UCODE 1 vm_example = Inr s' \<and>
     pte_at 0x80000000 s' 0x1000 = leaf_pte 0x80005000 PERM_UCODE"
proof -
  obtain m p where "map_page_sv39 0x80000000 0x80005000 0x1000 PERM_UCODE 1 vm_example = Inr (m, p)"
    using vm_example_map by auto
  then have s: "map_range 0x80000000 0x80005000 (0x80005000 + of_nat 1 * 4096) 0x1000 PERM_UCODE 1 vm_example = Inr (m, p)"
    unfolding map_range_def by (subst map_range_loop_all) (simp_all add: range_pages_def)
  have "pte_at 0x80000000 (m, p) 0x1000 = leaf_pte (0x80005000 + of_nat 0 * 4096) PERM_UCODE"
    using map_range_correct [OF vm_example_wf _ s]
    by (metis Groups.add_ac(2) add_0 mult_zero_left numeral_le_one_iff of_nat_0 one_le_power one_le_numeral zero_less_one)
  with s show ?thesis by auto
qed

lemma map_range_loop_misaligned:
  "\<not> 4096 dvd unat (e - pa) \<Longrightarrow> map_range_loop k pt pa e va perm pid s \<noteq> Inr s'"
proof (induction k arbitrary: pa va s)
  case 0
  then show ?case by auto
next
  case (Suc k)
  have "\<not> page_aligned (e - pa)" using Suc.prems by (simp add: page_aligned_dvd)
  then have "\<not> page_aligned (e - (pa + 4096))"
    using page_aligned_add [of "e - (pa + 4096)" 1] by (auto simp: algebra_simps)
  then show ?case using Suc by (auto simp: page_aligned_dvd)
qed

text \<open>
  A range whose length is no multiple of the page size is never finished:
  the address steps over the end, so \<open>map_range\<close> does not return.
\<close>

theorem map_range_misaligned:
  assumes "\<not> 4096 dvd unat (pa_end - pa_start)"
  shows "map_range pt pa_start pa_end va perm pid s \<noteq> Inr s'"
  unfolding map_range_def by (rule map_range_loop_misaligned [OF assms])

theorem map_range_misaligned_witness:
  "\<nexists>s'. map_range 0x80000000 0x80005000 0x80005800 0x1000 PERM_UCODE 1 vm_example = Inr s'"
  using map_range_misaligned [of "0x80005800" "0x80005000"] by simp

text \<open>
  What a user process may do with an entry of its page table: an entry that is
  accessible in user mode is readable and not writable.
\<close>

definition user_readonly :: "regsize \<Rightarrow> bool" where
  "user_readonly pte \<longleftrightarrow> (HAS_U pte \<longrightarrow> HAS_R pte \<and> \<not> HAS_W pte)"

lemma user_readonly_leaf:
  "user_readonly (leaf_pte pa PERM_KDATA)" "user_readonly (leaf_pte pa PERM_KCODE)"
  "user_readonly (leaf_pte pa PERM_URODATA)" "user_readonly (leaf_pte pa PERM_UCODE)"
  by (simp_all add: user_readonly_def leaf_pte_valid PERM_KDATA_def PERM_KCODE_def PERM_URODATA_def
    PERM_UCODE_def) (simp_all add: HAS_U_def HAS_R_def HAS_W_def)

lemma cleared_table:
  assumes "pm_wf pm" "pt \<in> taken pm"
  shows "as_wf pt (memset mem pt PAGE_SIZE 0, pm)" "pte_at pt (memset mem pt PAGE_SIZE 0, pm) va = 0"
proof -
  have "page_aligned pt"
    using assms frames_aligned pa.owned_frames by blast
  note e = empty_table [OF entry_memset this]
  show "as_wf pt (memset mem pt PAGE_SIZE 0, pm)" "pte_at pt (memset mem pt PAGE_SIZE 0, pm) va = 0"
    using assms e by (simp_all add: as_wf_def pte_at_def del: PAGE_SIZE_def)
qed

text \<open>What every mapping keeps holds of the table that \<open>init_user_page_table\<close> builds.\<close>

lemma init_user_page_table_rule:
  assumes "init_user_page_table ly pt pid (mem, pm) = Inr s'" "P (memset mem pt PAGE_SIZE 0, pm)"
    and page: "\<And>pa perm s s'. perm \<in> {PERM_KDATA, PERM_KCODE} \<Longrightarrow> P s \<Longrightarrow> map_page_sv39 pt pa pa perm pid s = Inr s' \<Longrightarrow> P s'"
    and rng: "\<And>pa e va perm s s'. perm \<in> {PERM_URODATA, PERM_UCODE} \<Longrightarrow> P s \<Longrightarrow> map_range pt pa e va perm pid s = Inr s' \<Longrightarrow> P s'"
  shows "P s'"
proof -
  obtain s1 s2 s3 s4 s5 where
    s: "map_page_sv39 pt (RAM_START ly) (RAM_START ly) PERM_KDATA pid (memset mem pt PAGE_SIZE 0, pm) = Inr s1"
    "map_page_sv39 pt (KERNEL_CODE_START ly) (KERNEL_CODE_START ly) PERM_KCODE pid s1 = Inr s2"
    "map_page_sv39 pt (PAGE_ROUND_DOWN (trap_frame_addr ly)) (PAGE_ROUND_DOWN (trap_frame_addr ly)) PERM_KDATA pid s2 = Inr s3"
    "map_page_sv39 pt (PAGE_ROUND_DOWN (paged_memory_addr ly)) (PAGE_ROUND_DOWN (paged_memory_addr ly)) PERM_KDATA pid s3 = Inr s4"
    "map_range pt (rodata_start ly) (data_start ly) (USR_VIRT (rodata_start ly)) PERM_URODATA pid s4 = Inr s5"
    "map_range pt (user_code_start ly) (rodata_start ly) (USR_VIRT (user_code_start ly)) PERM_UCODE pid s5 = Inr s'"
    using assms(1) by (auto simp: init_user_page_table_def map_page_id_def)
  have "P s4" using page [OF _ page [OF _ page [OF _ page [OF _ assms(2) s(1)] s(2)] s(3)] s(4)] by simp
  then show ?thesis using rng [OF _ rng [OF _ _ s(5)] s(6)] by simp
qed

text \<open>
  C9: the page table that \<open>init_user_page_table\<close> builds in a page of the
  process is a well-formed tree in which nothing that user mode can reach is
  writable: the kernel's stack, code, trap frame and page descriptors are
  mapped for supervisor access only, code and constants of the userland
  read-only.
\<close>

theorem init_user_page_table_protects:
  assumes "pm_wf pm" "pt \<in> taken pm" "init_user_page_table ly pt pid (mem, pm) = Inr s'"
  shows "as_wf pt s' \<and> (\<forall>va. user_readonly (pte_at pt s' va))"
proof (rule init_user_page_table_rule [OF assms(3), where P = "\<lambda>s. as_wf pt s \<and> (\<forall>va. user_readonly (pte_at pt s va))"])
  show "as_wf pt (memset mem pt PAGE_SIZE 0, pm) \<and> (\<forall>va. user_readonly (pte_at pt (memset mem pt PAGE_SIZE 0, pm) va))"
    using cleared_table [OF assms(1,2)] by (simp add: user_readonly_def HAS_U_def del: PAGE_SIZE_def)
qed (use map_page_keeps [where P = user_readonly] map_range_keeps [where P = user_readonly] user_readonly_leaf in blast)+

text \<open>The table of the example is built in a machine with thirteen frames.\<close>

definition user_pm :: paged_mem_t where
  "user_pm = \<lparr>pm_ksatp = 0, pm_kpagetable = 0, pm_lock = 0,
     pm_pages = \<lparr>pg_ptr = 0x80100000, pg_flags = 1, pg_site = None, pg_pid = 1\<rparr> #
       map free_page_desc [0x80101000, 0x80102000, 0x80103000, 0x80104000, 0x80105000, 0x80106000,
         0x80107000, 0x80108000, 0x80109000, 0x8010a000, 0x8010b000, 0x8010c000] @ replicate 35 (free_page_desc 0),
     pm_num_pages = 13, pm_unclaimed_start = 0, pm_unclaimed_end = 0x80100000\<rparr>"

definition user_layout :: layout where
  "user_layout = \<lparr>RAM_START = 0x80000000, user_code_start = 0x80002000, rodata_start = 0x80003000,
     rodata_end = 0x80004000, data_start = 0x80004000, heap_start = 0x80006000,
     trap_frame_addr = 0x80004100, paged_memory_addr = 0x80005200, entry_of = (\<lambda>_. 0)\<rparr>"

lemma user_pm_facts: "pm_wf user_pm" "taken user_pm = {0x80100000}" "nfree user_pm = 12"
proof -
  show "pm_wf user_pm" and t: "taken user_pm = {0x80100000}"
    by (simp_all add: pm_wf_def user_pm_def pages_in_use_def page_aligned_def taken_filter)
  have "frames user_pm - taken user_pm = {0x80101000, 0x80102000, 0x80103000, 0x80104000, 0x80105000,
      0x80106000, 0x80107000, 0x80108000, 0x80109000, 0x8010a000, 0x8010b000, 0x8010c000}"
    unfolding t by (simp add: frames_def user_pm_def pages_in_use_def)
  then show "nfree user_pm = 12" by (simp add: nfree_def)
qed

lemma user_table_built: "\<exists>s'. init_user_page_table user_layout 0x80100000 1 (mem, user_pm) = Inr s'"
proof -
  let ?s0 = "(memset mem 0x80100000 PAGE_SIZE 0, user_pm)" and ?pt = "0x80100000 :: addr"
  let ?ok = "\<lambda>s k. pm_wf (snd s) \<and> k \<le> nfree (snd s)"
  have page: "\<exists>s'. map_page_sv39 pt a v perm pid s = Inr s' \<and> ?ok s' k" if "?ok s (k + 2)" for s k pt a v perm pid
    using map_page_total [of s pt a v perm pid] that by fastforce
  have rng: "\<exists>s'. map_range pt a (a + 4096) v perm pid s = Inr s' \<and> ?ok s' k" if "?ok s (k + 2)" for s k pt a v perm pid
    using map_range_total [of s 1 "a + 4096" a pt v perm pid] that by fastforce
  have "?ok ?s0 12" by (simp add: user_pm_facts)
  then obtain s1 where s1: "map_page_sv39 ?pt 0x80000000 0x80000000 PERM_KDATA 1 ?s0 = Inr s1" "?ok s1 10"
    using page [of ?s0 10 ?pt "0x80000000" "0x80000000" PERM_KDATA 1] by auto
  then obtain s2 where s2: "map_page_sv39 ?pt 0x80001000 0x80001000 PERM_KCODE 1 s1 = Inr s2" "?ok s2 8"
    using page [of s1 8 ?pt "0x80001000" "0x80001000" PERM_KCODE 1] by auto
  then obtain s3 where s3: "map_page_sv39 ?pt 0x80004000 0x80004000 PERM_KDATA 1 s2 = Inr s3" "?ok s3 6"
    using page [of s2 6 ?pt "0x80004000" "0x80004000" PERM_KDATA 1] by auto
  then obtain s4 where s4: "map_page_sv39 ?pt 0x80005000 0x80005000 PERM_KDATA 1 s3 = Inr s4" "?ok s4 4"
    using page [of s3 4 ?pt "0x80005000" "0x80005000" PERM_KDATA 1] by auto
  then obtain s5 where s5: "map_range ?pt 0x80003000 (0x80003000 + 4096) (USR_VIRT 0x80003000) PERM_URODATA 1 s4 = Inr s5" "?ok s5 2"
    using rng [of s4 2 ?pt "0x80003000" "USR_VIRT 0x80003000" PERM_URODATA 1] by auto
  then obtain s6 where s6: "map_range ?pt 0x80002000 (0x80002000 + 4096) (USR_VIRT 0x80002000) PERM_UCODE 1 s5 = Inr s6"
    using rng [of s5 0 ?pt "0x80002000" "USR_VIRT 0x80002000" PERM_UCODE 1] by auto
  show ?thesis
    using s1(1) s2(1) s3(1) s4(1) s5(1) s6
    by (simp add: init_user_page_table_def map_page_id_def user_layout_def KERNEL_CODE_START_def PAGE_ROUND_DOWN_def)
qed

theorem init_user_page_table_protects_witness:
  "\<exists>s'. init_user_page_table user_layout 0x80100000 1 (\<lambda>_. 0, user_pm) = Inr s' \<and> as_wf 0x80100000 s'"
  using user_table_built [of "\<lambda>_. 0"]
    init_user_page_table_protects [OF user_pm_facts(1), of "0x80100000" user_layout 1 "\<lambda>_. 0"]
  by (auto simp: user_pm_facts)

end
