(* ===== verification/Kstring.thy ===== *)
theory Kstring
  imports Prelude
begin

text \<open>
  String routines of the kernel (\<^verbatim>\<open>src/string.c\<close>) and of the userland
  (\<^verbatim>\<open>user/src/ustr.c\<close>). A C string is the list of its characters without the
  terminating zero; a character array is the list of all its characters,
  \<open>cstr\<close> reads the string that starts at its beginning. Plain \<open>char\<close> is unsigned
  on RISC-V.
\<close>

definition NUL :: char where "NUL = CHR 0x00"

definition cstr :: "char list \<Rightarrow> string" where
  "cstr buf = takeWhile (\<lambda>c. c \<noteq> NUL) buf"

definition put :: "'a list \<Rightarrow> nat \<Rightarrow> 'a \<Rightarrow> 'a list res" where
  "put buf i c = (if i < length buf then Inr (buf[i := c]) else Inl OutOfBounds)"

section \<open>Kernel strings\<close>

fun strncmp :: "string \<Rightarrow> string \<Rightarrow> u32 \<Rightarrow> int" where
  "strncmp [] [] num = 0"
| "strncmp [] (y # b) num = -1"
| "strncmp (x # a) [] num = 1"
| "strncmp (x # a) (y # b) num =
     (if x \<noteq> y then (if num = 0 then 0 else of_char x - of_char y)
      else if num - 1 > 0 then strncmp a b (num - 1) else 0)"

fun kstrlen_loop :: "string \<Rightarrow> u32 \<Rightarrow> u32" where
  "kstrlen_loop [] i = i"
| "kstrlen_loop (c # s) i = kstrlen_loop s (i + 1)"

definition kstrlen :: "string \<Rightarrow> int" where
  "kstrlen s = sint (kstrlen_loop s 0)"

text \<open>The result is \<open>Some\<close> of the value stored through \<open>end_of_prefix\<close> when \<open>has_prefix\<close> returns 1.\<close>

definition has_prefix :: "string \<Rightarrow> string \<Rightarrow> int option" where
  "has_prefix str prefix =
     (let prefix_len = kstrlen prefix in
      if strncmp str prefix (of_int prefix_len) \<noteq> 0 then None else Some prefix_len)"

fun strncpy_loop :: "char list \<Rightarrow> nat \<Rightarrow> string \<Rightarrow> u32 \<Rightarrow> u32 \<Rightarrow> char list res" where
  "strncpy_loop dest d [] i num = put dest d NUL"
| "strncpy_loop dest d (c # src) i num =
     (if i < num - 1 then bnd (put dest d c) (\<lambda>dest. strncpy_loop dest (d + 1) src (i + 1) num)
      else put dest d NUL)"

definition strncpy :: "char list \<Rightarrow> string \<Rightarrow> u32 \<Rightarrow> char list res" where
  "strncpy dest src num = strncpy_loop dest 0 src 0 num"

lemma div10_less: "num div 10 > 0 \<Longrightarrow> unat (num div 10 :: u32) < unat num"
proof -
  assume "num div 10 > 0"
  then have "unat num div 10 > 0" by (simp add: word_less_nat_alt unat_div)
  then show ?thesis by (simp add: unat_div)
qed

function itoa_need :: "u32 \<Rightarrow> nat \<Rightarrow> nat" where
  "itoa_need num need_size =
     (if num div 10 > 0 then itoa_need (num div 10) (need_size + 1) else need_size + 1)"
  by pat_completeness auto
termination
  by (relation "measure (\<lambda>(num, n). unat num)") (simp_all add: div10_less)

function itoa_fill :: "char list \<Rightarrow> nat \<Rightarrow> u32 \<Rightarrow> char list res" where
  "itoa_fill buf i orig_num =
     bnd (put buf (i - 1) (char_of (48 + unat (orig_num mod 10)))) (\<lambda>buf.
     if orig_num div 10 > 0 then itoa_fill buf (i - 1) (orig_num div 10) else Inr buf)"
  by pat_completeness auto
termination
  by (relation "measure (\<lambda>(buf, i, num). unat num)") (simp_all add: div10_less)

definition itoa :: "char list \<Rightarrow> int \<Rightarrow> u32 \<Rightarrow> (int \<times> char list) res" where
  "itoa buf sz num =
     (let need_size = itoa_need num 0 + 1 in
      if int need_size > sz then Inr (- int need_size, buf)
      else bnd (put buf (need_size - 1) NUL) (\<lambda>buf.
           bnd (itoa_fill buf (need_size - 1) num) (\<lambda>buf. Inr (int need_size, buf))))"

declare itoa_need.simps [simp del] itoa_fill.simps [simp del]

section \<open>Userland strings\<close>

definition char_at :: "string \<Rightarrow> int" where
  "char_at s = (case s of [] \<Rightarrow> 0 | c # _ \<Rightarrow> of_char c)"

text \<open>The loop of \<open>ustrncmp\<close>; unlike \<open>strncmp\<close> it compares the characters it stopped at in any case.\<close>

fun ustrncmp_loop :: "string \<Rightarrow> string \<Rightarrow> u32 \<Rightarrow> u32 \<Rightarrow> int" where
  "ustrncmp_loop [] [] i num = 0"
| "ustrncmp_loop [] (y # b) i num = -1"
| "ustrncmp_loop (x # a) [] i num = 1"
| "ustrncmp_loop (x # a) (y # b) i num =
     (if x \<noteq> y then of_char x - of_char y
      else if i + 1 < num then ustrncmp_loop a b (i + 1) num
      else char_at a - char_at b)"

definition ustrncmp :: "string \<Rightarrow> string \<Rightarrow> u32 \<Rightarrow> int" where
  "ustrncmp a b num = ustrncmp_loop a b 0 num"

fun ustrlen_loop :: "string \<Rightarrow> u32 \<Rightarrow> u32" where
  "ustrlen_loop [] i = i"
| "ustrlen_loop (c # s) i = ustrlen_loop s (i + 1)"

definition ustrlen :: "string \<Rightarrow> int" where
  "ustrlen s = sint (ustrlen_loop s 0)"

definition is_digit :: "char \<Rightarrow> bool" where
  "is_digit c \<longleftrightarrow> \<not> (of_char c < (48 :: nat) \<or> of_char c > (57 :: nat))"

text \<open>The second loop of \<open>uatoi\<close> reads the digits from the last to the first.\<close>

fun uatoi_digits :: "string \<Rightarrow> u32 \<Rightarrow> u32 \<Rightarrow> u32" where
  "uatoi_digits [] number mult_10 = number"
| "uatoi_digits (c # rev_s) number mult_10 =
     uatoi_digits rev_s (number + (of_char c - 48) * mult_10) (mult_10 * 10)"

text \<open>The result and whether \<open>*err\<close> is set.\<close>

definition uatoi :: "string \<Rightarrow> int \<times> bool" where
  "uatoi s =
     (let (multiplier, s) = (if s \<noteq> [] \<and> hd s = CHR ''-'' then (-1, tl s) else (1, s)) in
      if \<not> list_all is_digit s then (0, True)
      else (sint (uatoi_digits (rev s) 0 1 * multiplier), False))"

section \<open>Comparison\<close>

lemma strncmp_pos:
  "num > 0 \<Longrightarrow> strncmp a b num = 0 \<longleftrightarrow> take (unat num) a = take (unat num) b"
proof (induction a b num rule: strncmp.induct)
  case (4 x a y b num)
  have num: "unat num = Suc (unat (num - 1))"
    using "4.prems" unat_minus_one [of num] by (simp add: word_gt_0 unat_gt_0)
  show ?case
  proof (cases "x = y \<and> num - 1 > 0")
    case True
    with 4 num show ?thesis by simp
  next
    case False
    then have "x \<noteq> y \<or> num = 1" using "4.prems" by (auto simp: word_gt_0)
    then show ?thesis using "4.prems" by (auto simp: num)
  qed
qed (auto simp: word_gt_0 take_Cons' unat_eq_0)

lemma kstrlen_loop_eq: "kstrlen_loop s i = i + of_nat (length s)"
  by (induction s arbitrary: i) (auto simp: algebra_simps)

lemma ustrlen_loop_eq: "ustrlen_loop s i = i + of_nat (length s)"
  by (induction s arbitrary: i) (auto simp: algebra_simps)

lemma sint_of_nat32: "n < 2 ^ 31 \<Longrightarrow> sint (of_nat n :: u32) = int n"
  by (simp add: signed_of_nat signed_take_bit_int_eq_self)

lemma kstrlen_length: "length s < 2 ^ 31 \<Longrightarrow> kstrlen s = int (length s)"
  by (simp add: kstrlen_def kstrlen_loop_eq sint_of_nat32)

lemma ustrlen_length: "length s < 2 ^ 31 \<Longrightarrow> ustrlen s = int (length s)"
  by (simp add: ustrlen_def ustrlen_loop_eq sint_of_nat32)

section \<open>Decimal numerals\<close>

text \<open>The reference: the decimal digits of a natural number, most significant first.\<close>

fun decimal :: "nat \<Rightarrow> string" where
  "decimal n = (if n < 10 then [char_of (48 + n)] else decimal (n div 10) @ [char_of (48 + n mod 10)])"

declare decimal.simps [simp del]

lemma itoa_need_eq: "itoa_need num k = k + length (decimal (unat num))"
proof (induction num k rule: itoa_need.induct)
  case (1 num k)
  have pos: "num div 10 > 0 \<longleftrightarrow> \<not> unat num < 10"
    by (simp add: word_less_nat_alt unat_div div_greater_zero_iff not_less)
  show ?case
    using 1 pos by (subst itoa_need.simps, subst decimal.simps) (auto simp: unat_div)
qed

lemma decimal_length_pos: "0 < length (decimal n)"
  by (subst decimal.simps) simp

lemma update_last_split:
  assumes "0 < i" "i \<le> length buf" "d \<le> i - 1"
  shows "take (i - 1 - d) (buf[i - 1 := c]) = take (i - 1 - d) buf" "drop (i - 1) (buf[i - 1 := c]) = c # drop i buf"
  using assms by (simp_all add: take_update_cancel drop_update_swap flip: Cons_nth_drop_Suc)

lemma itoa_fill_eq:
  "length (decimal (unat num)) \<le> i \<Longrightarrow> i \<le> length buf \<Longrightarrow>
   itoa_fill buf i num = Inr (take (i - length (decimal (unat num))) buf @ decimal (unat num) @ drop i buf)"
proof (induction buf i num rule: itoa_fill.induct)
  case (1 buf i num)
  let ?c = "char_of (48 + unat (num mod 10)) :: char"
  have i: "0 < i" using "1.prems"(1) decimal_length_pos [of "unat num"] by linarith
  have put: "put buf (i - 1) ?c = Inr (buf[i - 1 := ?c])"
    using i "1.prems"(2) by (simp add: put_def)
  have small: "num div 10 > 0 \<longleftrightarrow> \<not> unat num < 10"
    by (simp add: word_less_nat_alt unat_div div_greater_zero_iff not_less)
  show ?case
  proof (cases "unat num < 10")
    case True
    then have "decimal (unat num) = [?c]"
      by (subst decimal.simps) (simp add: unat_mod)
    moreover have "itoa_fill buf i num = Inr (buf[i - 1 := ?c])"
      using small True unfolding itoa_fill.simps [of buf i num] put by simp
    ultimately show ?thesis using i "1.prems"(2) by (simp add: upd_conv_take_nth_drop)
  next
    case False
    then have d: "decimal (unat num) = decimal (unat (num div 10)) @ [?c]"
      by (subst decimal.simps) (simp add: unat_div unat_mod)
    have "itoa_fill buf i num = itoa_fill (buf[i - 1 := ?c]) (i - 1) (num div 10)"
      using small False unfolding itoa_fill.simps [of buf i num] put by simp
    also have "\<dots> = Inr (take (i - 1 - length (decimal (unat (num div 10)))) (buf[i - 1 := ?c]) @
        decimal (unat (num div 10)) @ drop (i - 1) (buf[i - 1 := ?c]))"
      using "1.IH" [OF put] small False "1.prems" d by simp
    finally show ?thesis
      using update_last_split [OF i "1.prems"(2), of "length (decimal (unat (num div 10)))" ?c] "1.prems"(1) d
      by simp
  qed
qed

lemma digit_char: "d < 10 \<Longrightarrow> is_digit (char_of (48 + d))" "d < 10 \<Longrightarrow> char_of (48 + d) \<noteq> NUL"
  "d < 10 \<Longrightarrow> char_of (48 + d) \<noteq> CHR ''-''" "d < 10 \<Longrightarrow> of_char (char_of (48 + d)) = (of_nat (48 + d) :: u32)"
proof -
  assume d: "d < 10"
  then have *: "of_char (char_of (48 + d)) = 48 + d" by simp
  show "is_digit (char_of (48 + d))" using d * by (simp add: is_digit_def)
  have "of_char NUL = (0 :: nat)" "of_char CHR ''-'' = (45 :: nat)" by (simp_all add: NUL_def)
  with * d show "char_of (48 + d) \<noteq> NUL" "char_of (48 + d) \<noteq> CHR ''-''" by force+
  show "of_char (char_of (48 + d)) = (of_nat (48 + d) :: u32)"
    using * by (metis of_nat_of_char)
qed

lemma decimal_digits: "list_all is_digit (decimal n)" "list_all (\<lambda>c. c \<noteq> NUL) (decimal n)"
  "list_all (\<lambda>c. c \<noteq> CHR ''-'') (decimal n)"
proof -
  have "list_all (\<lambda>c. is_digit c \<and> c \<noteq> NUL \<and> c \<noteq> CHR ''-'') (decimal n)"
  proof (induction n rule: decimal.induct)
    case (1 n)
    then show ?case by (subst decimal.simps) (auto simp: digit_char)
  qed
  then show "list_all is_digit (decimal n)" "list_all (\<lambda>c. c \<noteq> NUL) (decimal n)"
    "list_all (\<lambda>c. c \<noteq> CHR ''-'') (decimal n)"
    by (auto simp: list_all_iff)
qed

lemma cstr_append: "list_all (\<lambda>c. c \<noteq> NUL) s \<Longrightarrow> cstr (s @ NUL # r) = s"
  by (induction s) (auto simp: cstr_def)

lemma uatoi_digits_decimal: "uatoi_digits (rev (decimal n)) k m = k + of_nat n * m"
proof (induction n arbitrary: k m rule: decimal.induct)
  case (1 n)
  show ?case
  proof (cases "n < 10")
    case True
    then show ?thesis by (subst decimal.simps) (simp add: digit_char)
  next
    case False
    have "(of_nat n :: u32) = of_nat (10 * (n div 10) + n mod 10)" by simp
    also have "\<dots> = 10 * of_nat (n div 10) + of_nat (n mod 10)" by (simp only: of_nat_add of_nat_mult of_nat_numeral)
    finally show ?thesis
      using 1 [OF False] False by (subst decimal.simps) (simp add: digit_char algebra_simps)
  qed
qed

text \<open>What \<open>itoa\<close> leaves in the buffer, and how many characters a 32-bit number takes.\<close>

lemma itoa_writes:
  fixes num :: u32
  assumes "sz \<le> int (length buf)"
  defines "d \<equiv> decimal (unat num)"
  shows "itoa buf sz num = (if int (length d) + 1 \<le> sz
    then Inr (int (length d) + 1, d @ NUL # drop (length d + 1) buf)
    else Inr (- (int (length d) + 1), buf))"
proof (cases "int (length d) + 1 \<le> sz")
  case True
  let ?n = "length d"
  have n: "?n < length buf" using True assms by simp
  have fill: "itoa_fill (buf[?n := NUL]) ?n num = Inr (d @ drop ?n (buf[?n := NUL]))"
    using itoa_fill_eq [of num ?n "buf[?n := NUL]"] n by (simp add: d_def)
  have "drop ?n (buf[?n := NUL]) = NUL # drop (?n + 1) buf"
    using n by (simp add: drop_update_swap flip: Cons_nth_drop_Suc)
  with True n fill show ?thesis
    by (simp add: itoa_def itoa_need_eq put_def d_def [symmetric] add.commute)
next
  case False
  then show ?thesis by (simp add: itoa_def itoa_need_eq d_def add.commute)
qed

lemma decimal_length: "n < 10 ^ Suc k \<Longrightarrow> length (decimal n) \<le> Suc k"
proof (induction k arbitrary: n)
  case 0
  then show ?case by (subst decimal.simps) simp
next
  case (Suc k)
  then have "n div 10 < 10 ^ Suc k" by (simp add: div_less_iff_less_mult)
  then show ?case using Suc.IH [of "n div 10"] by (subst decimal.simps) simp
qed

text \<open>\<open>uatoi\<close> on a numeral, of any 32-bit number: the number read as a signed one.\<close>

lemma uatoi_decimal:
  fixes num :: u32
  shows "uatoi (decimal (unat num)) = (sint num, False)"
    and "uatoi (CHR ''-'' # decimal (unat num)) = (sint (- num), False)"
proof -
  have plain: "\<not> (decimal (unat num) \<noteq> [] \<and> hd (decimal (unat num)) = CHR ''-'')"
    using decimal_digits(3) [of "unat num"] by (cases "decimal (unat num)") auto
  show "uatoi (decimal (unat num)) = (sint num, False)"
    unfolding uatoi_def Let_def if_not_P [OF plain] by (simp add: decimal_digits uatoi_digits_decimal)
  show "uatoi (CHR ''-'' # decimal (unat num)) = (sint (- num), False)"
    by (simp add: uatoi_def decimal_digits uatoi_digits_decimal)
qed

section \<open>Properties\<close>

text \<open>
  C22: \<open>itoa\<close> writes the decimal numeral of the number with its terminator and
  returns the size used, when that fits the given size, and otherwise returns
  the negated required size and leaves the buffer alone; it never writes out of
  bounds of a buffer of the given size.
\<close>

theorem itoa_correct:
  fixes num :: u32
  assumes "sz \<le> int (length buf)"
  defines "d \<equiv> decimal (unat num)"
  shows "if int (length d) + 1 \<le> sz
    then itoa buf sz num = Inr (int (length d) + 1, d @ NUL # drop (length d + 1) buf)
    else itoa buf sz num = Inr (- (int (length d) + 1), buf)"
  unfolding d_def using itoa_writes [OF assms(1), of num] by simp

theorem itoa_correct_witness:
  "itoa (replicate 8 NUL) 8 1203 = Inr (5, ''1203'' @ NUL # replicate 3 NUL)"
proof -
  have "decimal 1203 = ''1203''" by code_simp
  then show ?thesis using itoa_correct [of 8 "replicate 8 NUL" 1203] by simp
qed

text \<open>
  C23: \<open>uatoi\<close> reads back what \<open>itoa\<close> wrote. \<open>itoa\<close> returns for every 32-bit
  number and every buffer, with a positive size when at least 11 characters
  are given; after a positive result \<open>uatoi\<close> of the string in the buffer reports
  no error and is the number (read as a signed one, so itself below \<open>2 ^ 31\<close>).
\<close>

theorem uatoi_itoa:
  fixes num :: u32
  assumes "sz \<le> int (length buf)"
  shows "\<exists>m buf'. itoa buf sz num = Inr (m, buf') \<and> (11 \<le> sz \<longrightarrow> 0 < m) \<and>
    (0 < m \<longrightarrow> uatoi (cstr buf') = (sint num, False) \<and> (num < 2 ^ 31 \<longrightarrow> uatoi (cstr buf') = (uint num, False)))"
proof -
  let ?d = "decimal (unat num)"
  have "unat num < 2 ^ 32" using unsigned_less [of num] by simp
  then have "unat num < 10 ^ Suc 9" by simp
  then have len: "length ?d \<le> 10" using decimal_length [of "unat num" 9] by simp
  have str: "cstr (?d @ NUL # r) = ?d" for r by (rule cstr_append [OF decimal_digits(2)])
  have pos: "sint num = uint num" if "num < 2 ^ 31"
    using that sint_of_nat32 [of "unat num"] by (simp add: word_less_nat_alt)
  show ?thesis
    using len pos by (auto simp: itoa_writes [OF assms] str uatoi_decimal)
qed

theorem uatoi_itoa_witness:
  "\<exists>m buf'. itoa (replicate 11 (CHR ''x'')) 11 2147483647 = Inr (m, buf') \<and> 0 < m \<and> uatoi (cstr buf') = (2147483647, False)"
  using uatoi_itoa [of 11 "replicate 11 (CHR ''x'')" 2147483647] by auto

end
