(* ===== verification/Kstate.thy ===== *)
theory Kstate
  imports Vm Kstring
begin

text \<open>
  The global data of the kernel: the structures of \<^verbatim>\<open>include/proc.h\<close>,
  \<^verbatim>\<open>include/fs.h\<close>, \<^verbatim>\<open>include/pipe.h\<close>, \<^verbatim>\<open>include/bakedinfs.h\<close>,
  \<^verbatim>\<open>include/cpu.h\<close> and \<^verbatim>\<open>include/drivers/uart/uart.h\<close>, and the record of all
  global variables. Pages handed out by the page allocator are bytes of \<open>k_mem\<close>;
  the kernel's own tables are records beside it. A pointer into a table is the
  index of the entry, a pointer to one of several kinds of object is a datatype.
\<close>

section \<open>Constants\<close>

definition MAX_PROCS :: nat where [simp, kconsts]: "MAX_PROCS = 8"
definition MAX_PROC_FDS :: nat where [simp, kconsts]: "MAX_PROC_FDS = 8"
definition MAX_FILES :: nat where [simp, kconsts]: "MAX_FILES = 32"
definition MAX_PIPES :: nat where [simp, kconsts]: "MAX_PIPES = 4"
definition BIFS_MAX_FILES :: nat where [simp, kconsts]: "BIFS_MAX_FILES = 32"
definition BIFS_MAX_DIRS :: nat where [simp, kconsts]: "BIFS_MAX_DIRS = 8"
definition MAX_FILENAME_LEN :: nat where [simp, kconsts]: "MAX_FILENAME_LEN = 16"
definition UART_BUF_SZ :: nat where [simp, kconsts]: "UART_BUF_SZ = 64"
definition ONE_SECOND :: regsize where [simp, kconsts]: "ONE_SECOND = 10 * 1000 * 1000"

definition FD_STDIN :: nat where [simp, kconsts]: "FD_STDIN = 0"
definition FD_STDOUT :: nat where [simp, kconsts]: "FD_STDOUT = 1"
definition FD_STDERR :: nat where [simp, kconsts]: "FD_STDERR = 2"
definition FDMODE_READ :: u32 where [simp, kconsts]: "FDMODE_READ = 1"
definition FDMODE_WRITE :: u32 where [simp, kconsts]: "FDMODE_WRITE = 2"
definition FFLAGS_READABLE :: u32 where [simp, kconsts]: "FFLAGS_READABLE = 2"
definition FFLAGS_WRITABLE :: u32 where [simp, kconsts]: "FFLAGS_WRITABLE = 4"
definition FFLAGS_UART_STREAM :: u32 where [simp, kconsts]: "FFLAGS_UART_STREAM = 256"
definition FFLAGS_PIPE :: u32 where [simp, kconsts]: "FFLAGS_PIPE = 1024"

definition PIPE_FLAG_ALLOCATED :: u32 where [simp, kconsts]: "PIPE_FLAG_ALLOCATED = 1"
definition PIPE_FLAG_WRITE_CLOSED :: u32 where [simp, kconsts]: "PIPE_FLAG_WRITE_CLOSED = 2"
definition PIPE_BUF_FULL :: u32 where [simp, kconsts]: "PIPE_BUF_FULL = 4"

definition BIFS_READABLE :: u32 where [simp, kconsts]: "BIFS_READABLE = 1"
definition BIFS_RAW :: u32 where [simp, kconsts]: "BIFS_RAW = 4"
definition BIFS_TMPFILE :: u32 where [simp, kconsts]: "BIFS_TMPFILE = 16"

definition PWAKE_COND_CHAN :: u32 where [simp, kconsts]: "PWAKE_COND_CHAN = 0"
definition PWAKE_COND_NSCHEDS :: u32 where [simp, kconsts]: "PWAKE_COND_NSCHEDS = 1"
definition PROC_MAGIC_STACK_SENTINEL :: u32 where [simp, kconsts]: "PROC_MAGIC_STACK_SENTINEL = 0xdeadf00d"

definition REG_RA :: nat where [simp, kconsts]: "REG_RA = 0"
definition REG_SP :: nat where [simp, kconsts]: "REG_SP = 1"
definition REG_TP :: nat where [simp, kconsts]: "REG_TP = 3"
definition REG_FP :: nat where [simp, kconsts]: "REG_FP = 7"
definition REG_A0 :: nat where [simp, kconsts]: "REG_A0 = 9"
definition REG_A1 :: nat where [simp, kconsts]: "REG_A1 = 10"
definition REG_A2 :: nat where [simp, kconsts]: "REG_A2 = 11"
definition REG_A7 :: nat where [simp, kconsts]: "REG_A7 = 16"

section \<open>Files\<close>

text \<open>\<open>file_t*\<close>: an entry of \<open>ftable\<close> or one of the three standard streams.\<close>

datatype file_ref = FTable nat | Stdin | Stdout | Stderr

text \<open>\<open>fs_file\<close>: nothing, an entry of \<open>pipes.all\<close> or an entry of \<open>bifs_all_files\<close>.\<close>

datatype fs_obj = NoObj | PipeObj nat | BifsObj nat

text \<open>The functions that \<open>read\<close> and \<open>write\<close> of a file point to.\<close>

datatype file_op = NoOp | UartOp | BifsOp | PipeOp

record file_t =
  f_refcount :: u32
  f_flags :: u32
  f_position :: u32
  f_mode :: u32
  f_fs_file :: fs_obj
  f_read :: file_op
  f_write :: file_op
  f_tmpfile_mem :: addr

record file_table_t =
  ft_lock :: spinlock
  ft_files :: "file_t list"

section \<open>Pipes\<close>

record pipe_t =
  pp_lock :: spinlock
  pp_flags :: u32
  pp_buf :: addr
  pp_rf :: file_ref
  pp_wf :: file_ref
  pp_wpos :: u32
  pp_rpos :: u32

record pipes_t =
  pps_lock :: spinlock
  pps_all :: "pipe_t list"

section \<open>Baked-in file system\<close>

text \<open>
  The name of a directory is a literal or the array \<open>piddir\<close> of a process, the
  contents of a file are a literal or a page.
\<close>

datatype name_ref = NoName | LitName string | PidDir nat
datatype data_ref = NoData | LitData string | MemData addr
datatype lsdir_op = NoLs | BifsLs | BinLs
datatype query_op = NoQuery | SysmemQuery | StatsQuery nat

record bifs_directory_t =
  bd_flags :: u32
  bd_name :: name_ref
  bd_parent :: "nat option"
  bd_lsdir :: lsdir_op

record bifs_file_t =
  bf_flags :: u32
  bf_name :: string
  bf_parent :: "nat option"
  bf_data :: data_ref
  bf_dataquery :: query_op

section \<open>Console\<close>

record uart_state_t =
  rxbuf :: "char list"
  rx_rpos :: nat
  rx_wpos :: nat
  rx_num_newlines :: int
  rx_buff_full :: int

section \<open>Processes\<close>

record trap_frame_t =
  tf_regs :: "regsize list"
  tf_pc :: regsize

datatype pstate = AVAILABLE | READY | RUNNING | SLEEPING | ZOMBIE

text \<open>\<open>void *chan\<close>: the objects a process can wait on.\<close>

datatype chan = NoChan | ChanPipe nat | ChanProc nat | ChanUart | ChanFile nat

record pwake_cond_t =
  pc_type :: u32
  pc_target_pid :: u32
  pc_want_nscheds :: regsize

text \<open>
  Where the kernel stack of a process that is not running continues when
  \<open>swtch\<close> comes back to it: in \<open>forkret\<close>, behind \<open>sched\<close> in
  \<open>kernel_timer_tick\<close>, behind \<open>psleep\<close> in \<open>proc_wait\<close> or \<open>proc_sleep\<close>, in the
  loops of \<open>pipe_read\<close>, \<open>pipe_write\<close> and \<open>uart_readline\<close> with their local
  variables, or behind \<open>swtch\<close> in \<open>proc_exit\<close>.
\<close>

datatype kont =
    KForkret
  | KSched
  | KSleep
  | KPipeRead file_ref nat addr u32
  | KPipeWrite file_ref nat addr u32 u32
  | KUartRead file_ref addr u32
  | KExit

record process_t =
  p_lock :: spinlock
  p_ctx :: "regsize list"
  p_usatp :: regsize
  p_upagetable :: addr
  p_pid :: u32
  p_name :: "string option"
  p_parent :: "nat option"
  p_trap :: trap_frame_t
  p_stack_page :: addr
  p_perrno :: addr
  p_magic :: addr
  p_kstack_page :: addr
  p_state :: pstate
  p_wakeup_time :: regsize
  p_chan :: chan
  p_cond :: pwake_cond_t
  p_files :: "file_ref option list"
  p_procfs_dir :: "nat option"
  p_piddir :: "char list"
  p_procfs_name_file :: "nat option"
  p_nscheds :: regsize
  p_kont :: kont

record proc_table_t =
  pt_lock :: spinlock
  pt_procs :: "process_t list"
  pt_num_procs :: int
  pt_pid_counter :: u32

section \<open>All global variables\<close>

text \<open>
  Privilege mode and control and status registers of the hart. Only the low half
  of \<open>mstatus\<close> is kept, which is all that the code reads and writes; \<open>sstatus\<close>,
  \<open>sie\<close> and \<open>sip\<close> are views of \<open>mstatus\<close>, \<open>mie\<close> and \<open>mip\<close>.
\<close>

datatype priv = UMode | SMode | MMode

record csrs =
  c_priv :: priv
  c_mstatus :: u32
  c_mie :: regsize
  c_mip :: regsize
  c_mideleg :: regsize
  c_medeleg :: regsize
  c_mscratch :: regsize
  c_mtvec :: regsize
  c_sscratch :: regsize
  c_stvec :: regsize
  c_pmpaddr0 :: regsize
  c_pmpcfg0 :: regsize

text \<open>
  \<open>k_cpu_proc\<close> is \<open>cpus[0].proc\<close> (one hart), \<open>k_mtime\<close> the timer register,
  \<open>k_console\<close> the characters written to the UART so far (latest first) and
  \<open>k_rx\<close> those waiting in its receive FIFO. \<open>k_mmio\<close> holds the other device
  registers, \<open>k_layout\<close> the addresses and \<open>k_sizeof\<close> the object sizes that compiler
  and linker fix, and \<open>k_noret\<close> is what the return register happens to hold when
  a function with a result ends without a \<open>return\<close>.
\<close>

record kernel =
  k_mem :: memory
  k_pm :: paged_mem_t
  k_proc_table :: proc_table_t
  k_trap_frame :: trap_frame_t
  k_cpu_proc :: "nat option"
  k_ftable :: file_table_t
  k_stdin :: file_t
  k_stdout :: file_t
  k_stderr :: file_t
  k_pipes :: pipes_t
  k_dirs :: "bifs_directory_t list"
  k_files :: "bifs_file_t list"
  k_uart0 :: uart_state_t
  k_unsleep_scheduler :: bool
  k_mtime :: regsize
  k_console :: string
  k_rx :: string
  k_user_stack_size :: regsize
  k_bifs_root :: "nat option"
  k_mmio :: "addr \<Rightarrow> u32"
  k_csr :: csrs
  k_layout :: layout
  k_sizeof :: "string \<Rightarrow> u32"
  k_noret :: int

section \<open>Access\<close>

abbreviation procs :: "kernel \<Rightarrow> process_t list" where
  "procs k \<equiv> pt_procs (k_proc_table k)"

abbreviation proc_of :: "kernel \<Rightarrow> nat \<Rightarrow> process_t" where
  "proc_of k i \<equiv> procs k ! i"

definition upd_proc :: "nat \<Rightarrow> (process_t \<Rightarrow> process_t) \<Rightarrow> kernel \<Rightarrow> kernel" where
  "upd_proc i f k = k\<lparr>k_proc_table := (k_proc_table k)\<lparr>pt_procs := (procs k)[i := f (procs k ! i)]\<rparr>\<rparr>"

definition file_of :: "kernel \<Rightarrow> file_ref \<Rightarrow> file_t" where
  "file_of k r = (case r of FTable i \<Rightarrow> ft_files (k_ftable k) ! i
     | Stdin \<Rightarrow> k_stdin k | Stdout \<Rightarrow> k_stdout k | Stderr \<Rightarrow> k_stderr k)"

definition upd_file :: "file_ref \<Rightarrow> (file_t \<Rightarrow> file_t) \<Rightarrow> kernel \<Rightarrow> kernel" where
  "upd_file r f k = (case r of
       FTable i \<Rightarrow> k\<lparr>k_ftable := (k_ftable k)\<lparr>ft_files := (ft_files (k_ftable k))[i := f (ft_files (k_ftable k) ! i)]\<rparr>\<rparr>
     | Stdin \<Rightarrow> k\<lparr>k_stdin := f (k_stdin k)\<rparr>
     | Stdout \<Rightarrow> k\<lparr>k_stdout := f (k_stdout k)\<rparr>
     | Stderr \<Rightarrow> k\<lparr>k_stderr := f (k_stderr k)\<rparr>)"

abbreviation pipe_of :: "kernel \<Rightarrow> nat \<Rightarrow> pipe_t" where
  "pipe_of k i \<equiv> pps_all (k_pipes k) ! i"

definition upd_pipe :: "nat \<Rightarrow> (pipe_t \<Rightarrow> pipe_t) \<Rightarrow> kernel \<Rightarrow> kernel" where
  "upd_pipe i f k = k\<lparr>k_pipes := (k_pipes k)\<lparr>pps_all := (pps_all (k_pipes k))[i := f (pps_all (k_pipes k) ! i)]\<rparr>\<rparr>"

text \<open>\<open>*proc->perrno = e\<close>.\<close>

definition set_errno :: "nat \<Rightarrow> int \<Rightarrow> kernel \<Rightarrow> kernel" where
  "set_errno i e k = k\<lparr>k_mem := store64 (k_mem k) (p_perrno (proc_of k i)) (of_int e)\<rparr>"

definition errno_of :: "nat \<Rightarrow> kernel \<Rightarrow> regsize" where
  "errno_of i k = load64 (k_mem k) (p_perrno (proc_of k i))"

definition tf_reg :: "kernel \<Rightarrow> nat \<Rightarrow> regsize" where
  "tf_reg k r = tf_regs (k_trap_frame k) ! r"

definition set_reg :: "nat \<Rightarrow> regsize \<Rightarrow> trap_frame_t \<Rightarrow> trap_frame_t" where
  "set_reg r v tf = tf\<lparr>tf_regs := (tf_regs tf)[r := v]\<rparr>"

definition set_tf_reg :: "nat \<Rightarrow> regsize \<Rightarrow> kernel \<Rightarrow> kernel" where
  "set_tf_reg r v k = k\<lparr>k_trap_frame := set_reg r v (k_trap_frame k)\<rparr>"

text \<open>Operations on page tables and the allocator inside the kernel state.\<close>

definition with_vm :: "(vm \<Rightarrow> vm res) \<Rightarrow> kernel \<Rightarrow> kernel res" where
  "with_vm f k = bnd (f (k_mem k, k_pm k)) (\<lambda>(mem, pm). Inr (k\<lparr>k_mem := mem, k_pm := pm\<rparr>))"

definition kalloc_k :: "string \<Rightarrow> u32 \<Rightarrow> kernel \<Rightarrow> (addr \<times> kernel) res" where
  "kalloc_k site pid k = bnd (kalloc site pid (k_pm k)) (\<lambda>(p, pm). Inr (p, k\<lparr>k_pm := pm\<rparr>))"

definition release_page_k :: "addr \<Rightarrow> kernel \<Rightarrow> kernel res" where
  "release_page_k p k = bnd (release_page p (k_pm k)) (\<lambda>pm. Inr (k\<lparr>k_pm := pm\<rparr>))"

definition va2pa_k :: "nat \<Rightarrow> regsize \<Rightarrow> kernel \<Rightarrow> addr" where
  "va2pa_k i va k = va2pa (p_upagetable (proc_of k i)) va (k_mem k)"

text \<open>
  Reading a C string from memory stops at the first zero byte; the bound is the
  size of the address space, past which a string without terminator would have
  wrapped around.
\<close>

fun read_cstr :: "nat \<Rightarrow> memory \<Rightarrow> addr \<Rightarrow> string res" where
  "read_cstr 0 mem a = Inl Diverges"
| "read_cstr (Suc n) mem a =
     (if mem a = 0 then Inr [] else bnd (read_cstr n mem (a + 1)) (\<lambda>s. Inr (char_of (unat (mem a)) # s)))"

definition str_bound :: nat where
  "str_bound = 2 ^ 64"

definition write_str :: "memory \<Rightarrow> addr \<Rightarrow> string \<Rightarrow> memory" where
  "write_str mem a s = store_bytes mem a (map of_char s)"

section \<open>The state before \<open>kinit\<close>\<close>

text \<open>Global variables start as zeros (section \<^verbatim>\<open>.bss\<close>); the machine's memory is arbitrary.\<close>

definition zero_trap :: trap_frame_t where
  "zero_trap = \<lparr>tf_regs = replicate 31 0, tf_pc = 0\<rparr>"

definition zero_file :: file_t where
  "zero_file = \<lparr>f_refcount = 0, f_flags = 0, f_position = 0, f_mode = 0, f_fs_file = NoObj,
     f_read = NoOp, f_write = NoOp, f_tmpfile_mem = 0\<rparr>"

definition zero_pipe :: pipe_t where
  "zero_pipe = \<lparr>pp_lock = 0, pp_flags = 0, pp_buf = 0, pp_rf = Stdin, pp_wf = Stdin, pp_wpos = 0, pp_rpos = 0\<rparr>"

definition zero_dir :: bifs_directory_t where
  "zero_dir = \<lparr>bd_flags = 0, bd_name = NoName, bd_parent = None, bd_lsdir = NoLs\<rparr>"

definition zero_bfile :: bifs_file_t where
  "zero_bfile = \<lparr>bf_flags = 0, bf_name = [], bf_parent = None, bf_data = NoData, bf_dataquery = NoQuery\<rparr>"

definition zero_proc :: process_t where
  "zero_proc = \<lparr>p_lock = 0, p_ctx = replicate 14 0, p_usatp = 0, p_upagetable = 0, p_pid = 0, p_name = None,
     p_parent = None, p_trap = zero_trap, p_stack_page = 0, p_perrno = 0, p_magic = 0, p_kstack_page = 0,
     p_state = AVAILABLE, p_wakeup_time = 0, p_chan = NoChan,
     p_cond = \<lparr>pc_type = 0, pc_target_pid = 0, pc_want_nscheds = 0\<rparr>, p_files = replicate MAX_PROC_FDS None,
     p_procfs_dir = None, p_piddir = replicate MAX_FILENAME_LEN NUL, p_procfs_name_file = None,
     p_nscheds = 0, p_kont = KForkret\<rparr>"

definition zero_csrs :: csrs where
  "zero_csrs = \<lparr>c_priv = MMode, c_mstatus = 0, c_mie = 0, c_mip = 0, c_mideleg = 0, c_medeleg = 0,
     c_mscratch = 0, c_mtvec = 0, c_sscratch = 0, c_stvec = 0, c_pmpaddr0 = 0, c_pmpcfg0 = 0\<rparr>"

definition zero_layout :: layout where
  "zero_layout = \<lparr>RAM_START = 0, user_code_start = 0, rodata_start = 0, rodata_end = 0, data_start = 0,
     heap_start = 0, trap_frame_addr = 0, paged_memory_addr = 0, entry_of = (\<lambda>_. 0)\<rparr>"

definition bss_kernel :: "memory \<Rightarrow> kernel" where
  "bss_kernel mem = \<lparr>k_mem = mem,
     k_pm = \<lparr>pm_ksatp = 0, pm_kpagetable = 0, pm_lock = 0, pm_pages = replicate MAX_PAGES
       \<lparr>pg_ptr = 0, pg_flags = 0, pg_site = None, pg_pid = 0\<rparr>, pm_num_pages = 0, pm_unclaimed_start = 0, pm_unclaimed_end = 0\<rparr>,
     k_proc_table = \<lparr>pt_lock = 0, pt_procs = replicate MAX_PROCS zero_proc, pt_num_procs = 0, pt_pid_counter = 0\<rparr>,
     k_trap_frame = zero_trap, k_cpu_proc = None,
     k_ftable = \<lparr>ft_lock = 0, ft_files = replicate MAX_FILES zero_file\<rparr>,
     k_stdin = zero_file, k_stdout = zero_file, k_stderr = zero_file,
     k_pipes = \<lparr>pps_lock = 0, pps_all = replicate MAX_PIPES zero_pipe\<rparr>,
     k_dirs = replicate BIFS_MAX_DIRS zero_dir, k_files = replicate BIFS_MAX_FILES zero_bfile,
     k_uart0 = \<lparr>rxbuf = replicate UART_BUF_SZ NUL, rx_rpos = 0, rx_wpos = 0, rx_num_newlines = 0, rx_buff_full = 0\<rparr>,
     k_unsleep_scheduler = False, k_mtime = 0, k_console = [], k_rx = [], k_user_stack_size = 0,
     k_bifs_root = None, k_mmio = (\<lambda>_. 0), k_csr = zero_csrs, k_layout = zero_layout, k_sizeof = (\<lambda>_. 0), k_noret = 0\<rparr>"

section \<open>Lemmas on access\<close>

lemma procs_upd_proc [simp]: "procs (upd_proc i f k) = (procs k)[i := f (procs k ! i)]"
  by (simp add: upd_proc_def)

lemma length_procs_upd: "length (procs (upd_proc i f k)) = length (procs k)"
  by simp

end
