(* ===== verification/Procbase.thy ===== *)
theory Procbase
  imports Kstate
begin

text \<open>
  The process table primitives of \<^verbatim>\<open>src/proc.c\<close> that the other components call:
  the current process, locks of processes and of the table, sleeping and
  waking up on a channel, reaping exited children, file descriptors.
\<close>

section \<open>Locks and the current process\<close>

definition myproc :: "kernel \<Rightarrow> nat res" where
  "myproc k = (case k_cpu_proc k of None \<Rightarrow> Inl (Panic ''null in myproc'') | Some i \<Rightarrow> Inr i)"

definition acquire_proc :: "nat \<Rightarrow> kernel \<Rightarrow> kernel res" where
  "acquire_proc i k = bnd (acquire (p_lock (proc_of k i))) (\<lambda>l. Inr (upd_proc i (\<lambda>p. p\<lparr>p_lock := l\<rparr>) k))"

definition release_proc :: "nat \<Rightarrow> kernel \<Rightarrow> kernel" where
  "release_proc i k = upd_proc i (\<lambda>p. p\<lparr>p_lock := release (p_lock p)\<rparr>) k"

definition upd_pt :: "(proc_table_t \<Rightarrow> proc_table_t) \<Rightarrow> kernel \<Rightarrow> kernel" where
  "upd_pt f k = k\<lparr>k_proc_table := f (k_proc_table k)\<rparr>"

definition acquire_pt :: "kernel \<Rightarrow> kernel res" where
  "acquire_pt k = bnd (acquire (pt_lock (k_proc_table k))) (\<lambda>l. Inr (upd_pt (\<lambda>t. t\<lparr>pt_lock := l\<rparr>) k))"

definition release_pt :: "kernel \<Rightarrow> kernel" where
  "release_pt k = upd_pt (\<lambda>t. t\<lparr>pt_lock := release (pt_lock t)\<rparr>) k"

definition find_proc_by_pid :: "u32 \<Rightarrow> kernel \<Rightarrow> nat option" where
  "find_proc_by_pid pid k = find_index (\<lambda>p. p_pid p = pid) (procs k)"

section \<open>Waking up\<close>

definition should_wake_up :: "process_t \<Rightarrow> kernel \<Rightarrow> bool" where
  "should_wake_up p k \<longleftrightarrow> p_wakeup_time p \<noteq> 0 \<and> p_wakeup_time p \<le> k_mtime k"

text \<open>
  With \<open>PWAKE_COND_NSCHEDS\<close> the channel is read as a process, whatever object it
  is.
\<close>

definition update_proc_by_chan :: "nat \<Rightarrow> chan \<Rightarrow> kernel \<Rightarrow> kernel res" where
  "update_proc_by_chan i ch k =
     (let k = k\<lparr>k_unsleep_scheduler := True\<rparr>;
          cond = p_cond (proc_of k i);
          wake = upd_proc i (\<lambda>p. p\<lparr>p_state := READY, p_chan := NoChan\<rparr>) k
      in if pc_type cond = PWAKE_COND_CHAN then Inr wake
         else if pc_type cond = PWAKE_COND_NSCHEDS then
           (case ch of
              ChanProc j \<Rightarrow>
                if pc_target_pid cond = p_pid (proc_of k j) \<and> pc_want_nscheds cond \<le> p_nscheds (proc_of k j)
                then Inr wake else Inr k
            | NoChan \<Rightarrow> Inl NullDeref
            | _ \<Rightarrow> Inl BadCast)
         else Inr k)"

fun wakeup_loop :: "nat list \<Rightarrow> chan \<Rightarrow> kernel \<Rightarrow> kernel res" where
  "wakeup_loop [] ch k = Inr k"
| "wakeup_loop (i # is) ch k =
     (if p_state (proc_of k i) = SLEEPING \<and> p_chan (proc_of k i) = ch then
        bnd (acquire_proc i k) (\<lambda>k.
        bnd (update_proc_by_chan i ch k) (\<lambda>k.
        wakeup_loop is ch (release_proc i k)))
      else wakeup_loop is ch k)"

definition proc_mark_for_wakeup :: "chan \<Rightarrow> kernel \<Rightarrow> kernel res" where
  "proc_mark_for_wakeup ch k =
     bnd (acquire_pt k) (\<lambda>k.
     if pt_num_procs (k_proc_table k) = 0 then Inr (release_pt k)
     else bnd (wakeup_loop [0..<MAX_PROCS] ch k) (\<lambda>k. Inr (release_pt k)))"

section \<open>Sleeping\<close>

fun exited_loop :: "nat list \<Rightarrow> nat \<Rightarrow> kernel \<Rightarrow> (int \<times> kernel) res" where
  "exited_loop [] i k = Inr (-1, k)"
| "exited_loop (j # js) i k =
     (if p_parent (proc_of k j) = Some i then
        bnd (acquire_proc j k) (\<lambda>k.
        if p_state (proc_of k j) = ZOMBIE then
          bnd (release_page_k (p_kstack_page (proc_of k j)) k) (\<lambda>k.
          Inr (sint (p_pid (proc_of k j)), release_proc j (upd_proc j (\<lambda>p. p\<lparr>p_state := AVAILABLE\<rparr>) k)))
        else exited_loop js i (release_proc j k))
      else exited_loop js i k)"

definition check_exited_children :: "nat \<Rightarrow> kernel \<Rightarrow> (int \<times> kernel) res" where
  "check_exited_children i k = exited_loop [0..<MAX_PROCS] i k"

text \<open>
  \<open>psleep\<close> up to its call of \<open>swtch\<close>, which stores where the process goes on.
  What follows the call is \<open>check_exited_children\<close>.
\<close>

definition psleep :: "nat \<Rightarrow> kont \<Rightarrow> kernel \<Rightarrow> kernel" where
  "psleep i c k = upd_proc i (\<lambda>p. p\<lparr>p_state := SLEEPING, p_trap := k_trap_frame k, p_kont := c\<rparr>) k"

text \<open>\<open>proc_yield\<close> up to \<open>swtch\<close>, and what it does after the wakeup.\<close>

definition proc_yield :: "nat \<Rightarrow> chan \<Rightarrow> kont \<Rightarrow> kernel \<Rightarrow> kernel" where
  "proc_yield i ch c k = psleep i c (upd_proc i (\<lambda>p. p\<lparr>p_chan := ch\<rparr>) k)"

definition proc_yield_resume :: "nat \<Rightarrow> kernel \<Rightarrow> kernel res" where
  "proc_yield_resume i k =
     bnd (check_exited_children i k) (\<lambda>(_, k). Inr (k\<lparr>k_trap_frame := p_trap (proc_of k i)\<rparr>))"

section \<open>File descriptors\<close>

definition fd_alloc :: "nat \<Rightarrow> file_ref \<Rightarrow> kernel \<Rightarrow> int \<times> kernel" where
  "fd_alloc i f k =
     (case find_index (\<lambda>x. x = None) (p_files (proc_of k i)) of
        Some fd \<Rightarrow> (int fd, upd_proc i (\<lambda>p. p\<lparr>p_files := (p_files p)[fd := Some f]\<rparr>) k)
      | None \<Rightarrow> (-1, k))"

definition fd_free :: "nat \<Rightarrow> nat \<Rightarrow> kernel \<Rightarrow> kernel" where
  "fd_free i fd k = upd_proc i (\<lambda>p. p\<lparr>p_files := (p_files p)[fd := None]\<rparr>) k"

text \<open>\<open>proc->files[fd]\<close>; the callers do not check the bounds of the array.\<close>

definition get_fd :: "nat \<Rightarrow> nat \<Rightarrow> kernel \<Rightarrow> file_ref option res" where
  "get_fd i fd k = (if fd < length (p_files (proc_of k i)) then Inr (p_files (proc_of k i) ! fd)
                    else Inl OutOfBounds)"

section \<open>What a wakeup does\<close>

lemma upd_proc_upd_proc [simp]:
  "i < length (procs k) \<Longrightarrow> upd_proc i f (upd_proc i g k) = upd_proc i (f \<circ> g) k"
  by (simp add: upd_proc_def)

lemma procs_unsleep [simp]: "procs (k\<lparr>k_unsleep_scheduler := b\<rparr>) = procs k"
  by simp

definition cond_met :: "chan \<Rightarrow> process_t list \<Rightarrow> process_t \<Rightarrow> bool" where
  "cond_met ch ps p \<longleftrightarrow> pc_type (p_cond p) = PWAKE_COND_CHAN \<or>
     (pc_type (p_cond p) = PWAKE_COND_NSCHEDS \<and>
      (\<exists>j. ch = ChanProc j \<and> pc_target_pid (p_cond p) = p_pid (ps ! j) \<and>
           pc_want_nscheds (p_cond p) \<le> p_nscheds (ps ! j)))"

definition waits_on :: "chan \<Rightarrow> process_t \<Rightarrow> bool" where
  "waits_on ch p \<longleftrightarrow> p_state p = SLEEPING \<and> p_chan p = ch"

definition wake1 :: "chan \<Rightarrow> process_t list \<Rightarrow> process_t \<Rightarrow> process_t" where
  "wake1 ch ps p = (if waits_on ch p \<and> cond_met ch ps p then p\<lparr>p_state := READY, p_chan := NoChan\<rparr> else p)"

text \<open>
  A wakeup on a channel is possible: the sleepers on it are not locked, and one
  that waits for a schedule count waits on a process.
\<close>

definition wakeable :: "chan \<Rightarrow> process_t list \<Rightarrow> bool" where
  "wakeable ch ps \<longleftrightarrow> (\<forall>p \<in> set ps. waits_on ch p \<longrightarrow> p_lock p = 0 \<and>
     (pc_type (p_cond p) = PWAKE_COND_NSCHEDS \<longrightarrow> (\<exists>j. ch = ChanProc j)))"

lemma wake1_keeps [simp]:
  "p_pid (wake1 ch ps p) = p_pid p" "p_nscheds (wake1 ch ps p) = p_nscheds p"
  "p_lock (wake1 ch ps p) = p_lock p" "p_cond (wake1 ch ps p) = p_cond p" "p_files (wake1 ch ps p) = p_files p"
  by (simp_all add: wake1_def)

lemma wake1_cong:
  "map p_pid ps = map p_pid ps' \<Longrightarrow> map p_nscheds ps = map p_nscheds ps' \<Longrightarrow>
   (\<And>j. ch = ChanProc j \<Longrightarrow> j < length ps) \<Longrightarrow> wake1 ch ps p = wake1 ch ps' p"
  unfolding wake1_def cond_met_def
  by (cases ch) (auto simp: list_eq_iff_nth_eq)

lemma wake_step:
  assumes "i < length (procs k)" "waits_on ch (proc_of k i)" "wakeable ch (procs k)"
  shows "bnd (acquire_proc i k) (\<lambda>k. bnd (update_proc_by_chan i ch k) (\<lambda>k. Inr (release_proc i k))) =
    Inr (upd_proc i (wake1 ch (procs k)) (k\<lparr>k_unsleep_scheduler := True\<rparr>))"
proof -
  obtain p where p: "p = proc_of k i" by simp
  have lk: "p_lock p = 0" "pc_type (p_cond p) = PWAKE_COND_NSCHEDS \<longrightarrow> (\<exists>j. ch = ChanProc j)"
    using assms unfolding wakeable_def p by (metis nth_mem)+
  have lock: "p\<lparr>p_lock := 0\<rparr> = p"
    "p\<lparr>p_state := READY, p_chan := NoChan, p_lock := 0\<rparr> = p\<lparr>p_state := READY, p_chan := NoChan\<rparr>"
    using lk(1) by (cases p; simp)+
  have other: "p_pid ((procs k)[i := p\<lparr>p_lock := 1\<rparr>] ! j) = p_pid (procs k ! j)"
    "p_nscheds ((procs k)[i := p\<lparr>p_lock := 1\<rparr>] ! j) = p_nscheds (procs k ! j)" for j
    using assms(1) by (cases "i = j"; simp add: p)+
  show ?thesis
    using assms(1,2) lk other
    by (auto simp: lock acquire_proc_def update_proc_by_chan_def release_proc_def upd_proc_def wake1_def
      cond_met_def Let_def p [symmetric] split: chan.splits)
qed

lemma wakeable_upd:
  assumes "wakeable ch (procs k)" "i < length (procs k)"
  shows "wakeable ch ((procs k)[i := wake1 ch ps (proc_of k i)])"
  unfolding wakeable_def
proof
  fix p assume "p \<in> set ((procs k)[i := wake1 ch ps (proc_of k i)])"
  then have "p \<in> set (procs k) \<or> p = wake1 ch ps (proc_of k i)"
    by (meson insertE set_update_subset_insert subsetD)
  moreover have "waits_on ch (wake1 ch ps q) \<longrightarrow> waits_on ch q" for q
    by (auto simp: wake1_def waits_on_def)
  ultimately show "waits_on ch p \<longrightarrow> p_lock p = 0 \<and> (pc_type (p_cond p) = PWAKE_COND_NSCHEDS \<longrightarrow> (\<exists>j. ch = ChanProc j))"
    using assms unfolding wakeable_def by (metis nth_mem wake1_keeps(3,4))
qed

text \<open>
  The state after a wakeup at the indices \<open>is\<close>: \<open>wake1\<close> at each of them, and the
  scheduler told to stay awake exactly when one of them waits on the channel,
  whether its condition was met or not.
\<close>

definition woken :: "nat list \<Rightarrow> chan \<Rightarrow> kernel \<Rightarrow> kernel" where
  "woken is ch k = k\<lparr>k_proc_table := (k_proc_table k)\<lparr>pt_procs :=
       map (\<lambda>i. if i \<in> set is then wake1 ch (procs k) (proc_of k i) else proc_of k i) [0..<length (procs k)]\<rparr>,
     k_unsleep_scheduler := (k_unsleep_scheduler k \<or> (\<exists>i \<in> set is. waits_on ch (proc_of k i)))\<rparr>"

lemma woken_Cons:
  assumes "i < length (procs k)" "i \<notin> set js" "waits_on ch (proc_of k i)" "\<forall>j. ch = ChanProc j \<longrightarrow> j < length (procs k)"
  shows "woken js ch (upd_proc i (wake1 ch (procs k)) (k\<lparr>k_unsleep_scheduler := True\<rparr>)) = woken (i # js) ch k"
proof -
  let ?k1 = "upd_proc i (wake1 ch (procs k)) (k\<lparr>k_unsleep_scheduler := True\<rparr>)"
  have "wake1 ch (procs ?k1) q = wake1 ch (procs k) q" for q
    using assms(1,4) by (intro wake1_cong) (auto simp: list_eq_iff_nth_eq nth_list_update)
  then have "map (\<lambda>i. if i \<in> set js then wake1 ch (procs ?k1) (proc_of ?k1 i) else proc_of ?k1 i) [0..<length (procs ?k1)] =
      map (\<lambda>j. if j \<in> set (i # js) then wake1 ch (procs k) (proc_of k j) else proc_of k j) [0..<length (procs k)]"
    using assms(1,2) by (auto simp: nth_list_update)
  then show ?thesis
    using assms(3) unfolding woken_def by (simp add: upd_proc_def)
qed

lemma woken_skip:
  assumes "\<not> waits_on ch (proc_of k i)"
  shows "woken (i # js) ch k = woken js ch k"
proof -
  have "wake1 ch (procs k) (proc_of k i) = proc_of k i" using assms by (simp add: wake1_def)
  then have "(if j \<in> set (i # js) then wake1 ch (procs k) (proc_of k j) else proc_of k j) =
      (if j \<in> set js then wake1 ch (procs k) (proc_of k j) else proc_of k j)" for j
    by auto
  then show ?thesis using assms unfolding woken_def by simp
qed

lemma wakeup_loop_eq:
  assumes "distinct is" "\<forall>i \<in> set is. i < length (procs k)" "wakeable ch (procs k)"
    "\<forall>j. ch = ChanProc j \<longrightarrow> j < length (procs k)"
  shows "wakeup_loop is ch k = Inr (woken is ch k)"
  using assms
proof (induction "is" arbitrary: k)
  case Nil
  then show ?case by (simp add: woken_def map_nth)
next
  case (Cons i js)
  show ?case
  proof (cases "waits_on ch (proc_of k i)")
    case True
    let ?k1 = "upd_proc i (wake1 ch (procs k)) (k\<lparr>k_unsleep_scheduler := True\<rparr>)"
    have i: "i < length (procs k)" using Cons.prems(2) by simp
    have "wakeup_loop (i # js) ch k = wakeup_loop js ch ?k1"
      using wake_step [OF i True Cons.prems(3)] True
      by (simp add: waits_on_def) (metis bnd_Inr bnd_eq_Inr)
    also have "\<dots> = Inr (woken js ch ?k1)"
      using Cons.prems by (intro Cons.IH) (simp_all add: wakeable_upd i)
    finally show ?thesis
      using Cons.prems True i by (simp add: woken_Cons)
  next
    case False
    then have "wakeup_loop (i # js) ch k = wakeup_loop js ch k" by (auto simp: waits_on_def)
    then show ?thesis
      using Cons.IH [of k] Cons.prems woken_skip [OF False] by simp
  qed
qed

text \<open>Indices that cover the table: the loop is \<open>map\<close>.\<close>

lemma wakeup_all:
  assumes "length (procs k) = MAX_PROCS" "wakeable ch (procs k)" "\<forall>j. ch = ChanProc j \<longrightarrow> j < MAX_PROCS"
  shows "wakeup_loop [0..<MAX_PROCS] ch k =
    Inr (k\<lparr>k_proc_table := (k_proc_table k)\<lparr>pt_procs := map (wake1 ch (procs k)) (procs k)\<rparr>,
      k_unsleep_scheduler := (k_unsleep_scheduler k \<or> (\<exists>p \<in> set (procs k). waits_on ch p))\<rparr>)"
proof -
  have "map (\<lambda>i. if i \<in> set [0..<MAX_PROCS] then wake1 ch (procs k) (proc_of k i) else proc_of k i) [0..<length (procs k)] =
      map (wake1 ch (procs k)) (procs k)"
    using assms(1) by (intro nth_equalityI) simp_all
  moreover have "(\<exists>i \<in> set [0..<MAX_PROCS]. waits_on ch (proc_of k i)) \<longleftrightarrow> (\<exists>p \<in> set (procs k). waits_on ch p)"
    unfolding Bex_def using assms(1) by (simp add: in_set_conv_nth) metis
  moreover have "wakeup_loop [0..<MAX_PROCS] ch k = Inr (woken [0..<MAX_PROCS] ch k)"
    using assms by (intro wakeup_loop_eq) auto
  ultimately show ?thesis unfolding woken_def by (simp only:)
qed

lemma mark_wakeup_eq:
  assumes "pt_lock (k_proc_table k) = 0" "pt_num_procs (k_proc_table k) \<noteq> 0" "length (procs k) = MAX_PROCS"
    "wakeable ch (procs k)" "\<forall>j. ch = ChanProc j \<longrightarrow> j < MAX_PROCS"
  shows "proc_mark_for_wakeup ch k =
    Inr (k\<lparr>k_proc_table := (k_proc_table k)\<lparr>pt_procs := map (wake1 ch (procs k)) (procs k)\<rparr>,
      k_unsleep_scheduler := (k_unsleep_scheduler k \<or> (\<exists>p \<in> set (procs k). waits_on ch p))\<rparr>)"
proof -
  let ?k0 = "upd_pt (\<lambda>t. t\<lparr>pt_lock := 1\<rparr>) k"
  have "acquire_pt k = Inr ?k0" using assms(1) by (simp add: acquire_pt_def)
  moreover have "wakeup_loop [0..<MAX_PROCS] ch ?k0 =
    Inr (?k0\<lparr>k_proc_table := (k_proc_table ?k0)\<lparr>pt_procs := map (wake1 ch (procs k)) (procs k)\<rparr>,
      k_unsleep_scheduler := (k_unsleep_scheduler k \<or> (\<exists>p \<in> set (procs k). waits_on ch p))\<rparr>)"
    using wakeup_all [of ?k0 ch] assms(3-5) by (simp add: upd_pt_def del: upt_Suc)
  ultimately show ?thesis
    using assms(1,2) by (simp add: proc_mark_for_wakeup_def upd_pt_def release_pt_def del: upt_Suc)
qed

text \<open>What the callers that only look at the process table use of it.\<close>

lemma mark_wakeup:
  assumes "pt_lock (k_proc_table k) = 0" "pt_num_procs (k_proc_table k) \<noteq> 0" "length (procs k) = MAX_PROCS"
    "wakeable ch (procs k)" "\<forall>j. ch = ChanProc j \<longrightarrow> j < MAX_PROCS"
  shows "\<exists>k'. proc_mark_for_wakeup ch k = Inr k' \<and> procs k' = map (wake1 ch (procs k)) (procs k) \<and>
    k' = k\<lparr>k_proc_table := (k_proc_table k)\<lparr>pt_procs := procs k'\<rparr>, k_unsleep_scheduler := k_unsleep_scheduler k'\<rparr>"
  using mark_wakeup_eq [OF assms] by simp

section \<open>Properties\<close>

text \<open>
  C13: \<open>proc_mark_for_wakeup\<close> makes ready exactly the processes that sleep on the
  channel and whose wakeup condition is met and clears their channel, and it
  sets \<open>unsleep_scheduler\<close> exactly when some process sleeps on the channel, met
  condition or not. Every other process, every lock and every other part of the
  kernel is as before; with an empty process table nothing changes at all. The
  sleepers on the channel must not be locked, and those that wait for a schedule
  count must sleep on a process.
\<close>

theorem proc_mark_for_wakeup_correct:
  assumes "pt_lock (k_proc_table k) = 0" "length (procs k) = MAX_PROCS"
    "wakeable ch (procs k)" "\<forall>j. ch = ChanProc j \<longrightarrow> j < MAX_PROCS"
  shows "proc_mark_for_wakeup ch k =
    Inr (if pt_num_procs (k_proc_table k) = 0 then k
      else k\<lparr>k_proc_table := (k_proc_table k)\<lparr>pt_procs := map (wake1 ch (procs k)) (procs k)\<rparr>,
        k_unsleep_scheduler := (k_unsleep_scheduler k \<or> (\<exists>p \<in> set (procs k). waits_on ch p))\<rparr>)"
proof (cases "pt_num_procs (k_proc_table k) = 0")
  case True
  then show ?thesis
    using assms(1) by (simp add: proc_mark_for_wakeup_def acquire_pt_def upd_pt_def release_pt_def)
next
  case False
  then show ?thesis using mark_wakeup_eq [OF assms(1) _ assms(2-4)] by simp
qed

text \<open>A table in which process 2 sleeps on pipe 1 and process 3 until process 2 has run four times.\<close>

definition sleepers :: kernel where
  "sleepers = (bss_kernel (\<lambda>_. 0))\<lparr>k_proc_table := \<lparr>pt_lock = 0,
     pt_procs = [zero_proc, zero_proc, zero_proc\<lparr>p_pid := 7, p_state := SLEEPING, p_chan := ChanPipe 1, p_nscheds := 4\<rparr>,
       zero_proc\<lparr>p_pid := 8, p_state := SLEEPING, p_chan := ChanProc 2,
         p_cond := \<lparr>pc_type = 1, pc_target_pid = 7, pc_want_nscheds = 4\<rparr>\<rparr>,
       zero_proc, zero_proc, zero_proc, zero_proc],
     pt_num_procs = 2, pt_pid_counter = 9\<rparr>\<rparr>"

theorem proc_mark_for_wakeup_correct_witness:
  "\<exists>k'. proc_mark_for_wakeup (ChanProc 2) sleepers = Inr k' \<and> \<not> k_unsleep_scheduler sleepers \<and> k_unsleep_scheduler k' \<and>
     p_state (proc_of k' 3) = READY \<and> p_state (proc_of k' 2) = SLEEPING"
proof -
  have ok: "pt_lock (k_proc_table sleepers) = 0" "length (procs sleepers) = MAX_PROCS" "wakeable (ChanProc 2) (procs sleepers)"
    by (simp_all add: wakeable_def sleepers_def waits_on_def zero_proc_def)
  show ?thesis
    using proc_mark_for_wakeup_correct [OF ok]
    by (simp add: sleepers_def wake1_def waits_on_def cond_met_def bss_kernel_def zero_proc_def)
qed

end
