(* ===== verification/Pipe.thy ===== *)
theory Pipe
  imports Procbase
begin

text \<open>
  Pipes (\<^verbatim>\<open>src/pipe.c\<close>) and the allocation of entries of the file table
  (\<open>fs_alloc_file\<close> of \<^verbatim>\<open>src/fs.c\<close>, which pipes call). A pipe is a ring of
  1024 positions in a page of memory. A blocking call is split where it gives
  up the processor: it returns a result, or no result and the state in which
  the process sleeps with its continuation stored.
\<close>

section \<open>File table\<close>

definition fs_alloc_file :: "kernel \<Rightarrow> (file_ref option \<times> kernel) res" where
  "fs_alloc_file k =
     bnd (acquire (ft_lock (k_ftable k))) (\<lambda>l.
     case find_index (\<lambda>f. f_refcount f = 0) (ft_files (k_ftable k)) of
       Some i \<Rightarrow> Inr (Some (FTable i), k\<lparr>k_ftable := (k_ftable k)\<lparr>ft_lock := release l,
           ft_files := (ft_files (k_ftable k))[i := (ft_files (k_ftable k) ! i)
             \<lparr>f_refcount := 1, f_position := 0, f_flags := 0\<rparr>]\<rparr>\<rparr>)
     | None \<Rightarrow> Inr (None, k\<lparr>k_ftable := (k_ftable k)\<lparr>ft_lock := release l\<rparr>\<rparr>))"

section \<open>Allocation\<close>

definition PIPE_BUF_SIZE :: u32 where [simp, kconsts]: "PIPE_BUF_SIZE = 1024"

definition init_pipes :: "kernel \<Rightarrow> kernel" where
  "init_pipes k = k\<lparr>k_pipes := \<lparr>pps_lock = 0,
     pps_all = map (\<lambda>p. p\<lparr>pp_flags := 0, pp_buf := 0\<rparr>) (pps_all (k_pipes k))\<rparr>\<rparr>"

definition acquire_pipe :: "nat \<Rightarrow> kernel \<Rightarrow> kernel res" where
  "acquire_pipe i k = bnd (acquire (pp_lock (pipe_of k i))) (\<lambda>l. Inr (upd_pipe i (\<lambda>p. p\<lparr>pp_lock := l\<rparr>) k))"

definition release_pipe :: "nat \<Rightarrow> kernel \<Rightarrow> kernel" where
  "release_pipe i k = upd_pipe i (\<lambda>p. p\<lparr>pp_lock := release (pp_lock p)\<rparr>) k"

definition upd_pipes_lock :: "spinlock \<Rightarrow> kernel \<Rightarrow> kernel" where
  "upd_pipes_lock l k = k\<lparr>k_pipes := (k_pipes k)\<lparr>pps_lock := l\<rparr>\<rparr>"

definition alloc_pipe :: "u32 \<Rightarrow> kernel \<Rightarrow> (nat option \<times> kernel) res" where
  "alloc_pipe pid k =
     bnd (kalloc_k ''pipe_buf'' pid k) (\<lambda>(pipe_buf, k).
     if pipe_buf = 0 then Inr (None, k) else
     bnd (acquire (pps_lock (k_pipes k))) (\<lambda>l.
     let k = upd_pipes_lock l k in
     case find_index (\<lambda>pp. pp_flags pp = 0) (pps_all (k_pipes k)) of
       Some i \<Rightarrow>
         bnd (acquire_pipe i (upd_pipe i (\<lambda>pp. pp\<lparr>pp_flags := pp_flags pp OR PIPE_FLAG_ALLOCATED\<rparr>) k)) (\<lambda>k.
         Inr (Some i, upd_pipes_lock (release l) (upd_pipe i (\<lambda>pp. pp\<lparr>pp_buf := pipe_buf\<rparr>) k)))
     | None \<Rightarrow> Inr (None, upd_pipes_lock (release l) k)))"

definition free_pipe :: "nat \<Rightarrow> kernel \<Rightarrow> kernel res" where
  "free_pipe i k = bnd (release_page_k (pp_buf (pipe_of k i)) k) (\<lambda>k. Inr (upd_pipe i (\<lambda>pp. pp\<lparr>pp_flags := 0\<rparr>) k))"

definition pipe_open :: "addr \<Rightarrow> kernel \<Rightarrow> (int \<times> kernel) res" where
  "pipe_open pipefd k =
     bnd (myproc k) (\<lambda>i.
     bnd (alloc_pipe (p_pid (proc_of k i)) k) (\<lambda>(pipe, k).
     case pipe of None \<Rightarrow> Inr (-1, set_errno i ENOMEM k) | Some pp \<Rightarrow>
     let k = upd_pipe pp (\<lambda>p. p\<lparr>pp_wpos := 0, pp_rpos := 0\<rparr>) k in
     bnd (fs_alloc_file k) (\<lambda>(f0, k).
     bnd (fs_alloc_file k) (\<lambda>(f1, k).
     case (f0, f1) of
       (Some f0, Some f1) \<Rightarrow>
         (let k = upd_file f0 (\<lambda>f. f\<lparr>f_flags := FFLAGS_PIPE OR FFLAGS_READABLE, f_fs_file := PipeObj pp, f_read := PipeOp\<rparr>) k;
              k = upd_file f1 (\<lambda>f. f\<lparr>f_flags := FFLAGS_PIPE OR FFLAGS_WRITABLE, f_fs_file := PipeObj pp, f_write := PipeOp\<rparr>) k;
              k = upd_pipe pp (\<lambda>p. p\<lparr>pp_rf := f0, pp_wf := f1\<rparr>) k;
              (fd0, k) = fd_alloc i f0 k;
              (fd1, k) = fd_alloc i f1 k
          in if fd0 = -1 \<or> fd1 = -1 then Inr (-1, release_pipe pp (set_errno i EMFILE k))
             else
               (let k = release_pipe pp k;
                    a = va2pa_k i pipefd k
                in if a = 0 then Inl NullDeref
                   else Inr (0, k\<lparr>k_mem := store32 (store32 (k_mem k) a (of_int fd0)) (a + 4) (of_int fd1)\<rparr>)))
     | _ \<Rightarrow> Inr (-1, release_pipe pp (set_errno i ENFILE k))))))"

section \<open>Closing\<close>

definition pipe_close_file :: "file_ref \<Rightarrow> kernel \<Rightarrow> kernel res" where
  "pipe_close_file f k =
     (case f_fs_file (file_of k f) of
        NoObj \<Rightarrow> Inr k
      | BifsObj _ \<Rightarrow> Inl BadCast
      | PipeObj pp \<Rightarrow>
          bnd (acquire_pipe pp k) (\<lambda>k.
          bnd (if f_flags (file_of k f) AND FFLAGS_READABLE \<noteq> 0 then
                 bnd (proc_mark_for_wakeup (ChanPipe pp) k) (\<lambda>k.
                 if f_refcount (file_of k f) = 0
                 then free_pipe pp (upd_file (pp_wf (pipe_of k pp)) (\<lambda>w. w\<lparr>f_fs_file := NoObj\<rparr>) k)
                 else Inr k)
               else if f_flags (file_of k f) AND FFLAGS_WRITABLE \<noteq> 0 then
                 proc_mark_for_wakeup (ChanPipe pp)
                   (if f_refcount (file_of k f) = 0
                    then upd_pipe pp (\<lambda>p. p\<lparr>pp_flags := pp_flags p OR PIPE_FLAG_WRITE_CLOSED\<rparr>) k else k)
               else Inr k)
            (\<lambda>k. Inr (release_pipe pp k))))"

section \<open>Reading\<close>

text \<open>
  The copying loop of \<open>pipe_read\<close>: \<open>rpos\<close> wraps around at the size of the ring,
  the pointer \<open>rbuf\<close> does not.
\<close>

fun pipe_read_copy :: "nat \<Rightarrow> addr \<Rightarrow> addr \<Rightarrow> pipe_t \<Rightarrow> memory \<Rightarrow> nat \<Rightarrow> nat \<times> pipe_t \<times> memory" where
  "pipe_read_copy 0 rbuf wbuf pp mem nread = (nread, pp, mem)"
| "pipe_read_copy (Suc sz) rbuf wbuf pp mem nread =
     (let mem = mem(wbuf := mem rbuf);
          rpos = pp_rpos pp + 1;
          rpos = (if rpos = PIPE_BUF_SIZE then 0 else rpos);
          pp = pp\<lparr>pp_rpos := rpos\<rparr>
      in if pp_rpos pp = pp_wpos pp then (nread + 1, pp, mem)
         else pipe_read_copy sz (rbuf + 1) (wbuf + 1) pp mem (nread + 1))"

definition pipe_read_loop :: "nat \<Rightarrow> file_ref \<Rightarrow> nat \<Rightarrow> addr \<Rightarrow> u32 \<Rightarrow> kernel \<Rightarrow> (int option \<times> kernel) res" where
  "pipe_read_loop i f pp buf sz k =
     (let pipe = pipe_of k pp in
      if pp_rpos pipe = pp_wpos pipe \<and> pp_flags pipe AND PIPE_BUF_FULL = 0 then
        (if pp_flags pipe AND PIPE_FLAG_WRITE_CLOSED \<noteq> 0 then Inr (Some 0, release_pipe pp k)
         else bnd (proc_mark_for_wakeup (ChanPipe pp) k) (\<lambda>k.
              Inr (None, proc_yield i (ChanPipe pp) (KPipeRead f pp buf sz) (release_pipe pp k))))
      else
        (case pipe_read_copy (unat sz) (pp_buf pipe + ucast (pp_rpos pipe)) buf pipe (k_mem k) 0 of
          (nread, pipe, mem) \<Rightarrow>
            let k = upd_pipe pp (\<lambda>_. pipe) (k\<lparr>k_mem := mem\<rparr>);
                k = (if nread > 0 then upd_pipe pp (\<lambda>p. p\<lparr>pp_flags := pp_flags p AND NOT PIPE_BUF_FULL\<rparr>) k else k)
            in Inr (Some (sint (of_nat nread :: u32)), release_pipe pp k)))"

definition pipe_read :: "file_ref \<Rightarrow> addr \<Rightarrow> u32 \<Rightarrow> kernel \<Rightarrow> (int option \<times> kernel) res" where
  "pipe_read f buf sz k =
     bnd (myproc k) (\<lambda>i.
     case f_fs_file (file_of k f) of
       PipeObj pp \<Rightarrow> bnd (acquire_pipe pp k) (pipe_read_loop i f pp buf sz)
     | NoObj \<Rightarrow> Inl NullDeref
     | BifsObj _ \<Rightarrow> Inl BadCast)"

text \<open>After a wakeup the loop starts over with the lock taken again.\<close>

definition pipe_read_resume :: "nat \<Rightarrow> file_ref \<Rightarrow> nat \<Rightarrow> addr \<Rightarrow> u32 \<Rightarrow> kernel \<Rightarrow> (int option \<times> kernel) res" where
  "pipe_read_resume i f pp buf sz k =
     bnd (proc_yield_resume i k) (\<lambda>k. bnd (acquire_pipe pp k) (pipe_read_loop i f pp buf sz))"

section \<open>Writing\<close>

text \<open>As in reading, \<open>wpos\<close> wraps around and the pointer \<open>wbuf\<close> does not.\<close>

fun pipe_do_write :: "nat \<Rightarrow> addr \<Rightarrow> addr \<Rightarrow> pipe_t \<Rightarrow> memory \<Rightarrow> nat \<Rightarrow> nat \<times> pipe_t \<times> memory" where
  "pipe_do_write 0 wbuf rbuf pp mem nwritten = (nwritten, pp, mem)"
| "pipe_do_write (Suc nbytes) wbuf rbuf pp mem nwritten =
     (let mem = mem(wbuf := mem rbuf);
          wpos = pp_wpos pp + 1;
          wpos = (if wpos = PIPE_BUF_SIZE then 0 else wpos);
          pp = pp\<lparr>pp_wpos := wpos\<rparr>
      in if pp_wpos pp = pp_rpos pp then (nwritten + 1, pp\<lparr>pp_flags := pp_flags pp OR PIPE_BUF_FULL\<rparr>, mem)
         else pipe_do_write nbytes (wbuf + 1) (rbuf + 1) pp mem (nwritten + 1))"

definition pipe_write_loop :: "nat \<Rightarrow> file_ref \<Rightarrow> nat \<Rightarrow> addr \<Rightarrow> u32 \<Rightarrow> u32 \<Rightarrow> kernel \<Rightarrow> (int option \<times> kernel) res" where
  "pipe_write_loop i f pp buf nbytes nwritten k =
     (let pipe = pipe_of k pp;
          available = (if pp_flags pipe AND PIPE_BUF_FULL \<noteq> 0 then 0
                       else sint (PIPE_BUF_SIZE - pp_wpos pipe + pp_rpos pipe))
      in if available < 0 then Inr (Some (- ENOBUFS), release_pipe pp k)
         else
           (let (wr, k) = (if available > 0 then
                   (case pipe_do_write (unat (nbytes - nwritten)) (pp_buf pipe + ucast (pp_wpos pipe))
                           (buf + scast nwritten) pipe (k_mem k) 0 of
                      (wr, pipe, mem) \<Rightarrow> (wr, upd_pipe pp (\<lambda>_. pipe) (k\<lparr>k_mem := mem\<rparr>)))
                 else (0, k))
            in bnd (if wr > 0 then proc_mark_for_wakeup (ChanPipe pp) k else Inr k) (\<lambda>k.
               let nwritten = nwritten + of_nat wr in
               if nwritten = nbytes then Inr (Some (sint nwritten), release_pipe pp k)
               else Inr (None, proc_yield i (ChanPipe pp) (KPipeWrite f pp buf nbytes nwritten) (release_pipe pp k)))))"

definition pipe_write :: "file_ref \<Rightarrow> addr \<Rightarrow> u32 \<Rightarrow> kernel \<Rightarrow> (int option \<times> kernel) res" where
  "pipe_write f buf nbytes k =
     (case f_fs_file (file_of k f) of
        NoObj \<Rightarrow> Inr (Some (- EPIPE), k)
      | BifsObj _ \<Rightarrow> Inl BadCast
      | PipeObj pp \<Rightarrow>
          bnd (acquire_pipe pp k) (\<lambda>k.
          bnd (myproc k) (\<lambda>i. pipe_write_loop i f pp buf nbytes 0 k)))"

definition pipe_write_resume :: "nat \<Rightarrow> file_ref \<Rightarrow> nat \<Rightarrow> addr \<Rightarrow> u32 \<Rightarrow> u32 \<Rightarrow> kernel \<Rightarrow> (int option \<times> kernel) res" where
  "pipe_write_resume i f pp buf nbytes nwritten k =
     bnd (proc_yield_resume i k) (\<lambda>k.
     if f_fs_file (file_of k f) = NoObj then Inr (Some (- EPIPE), k)
     else bnd (acquire_pipe pp k) (pipe_write_loop i f pp buf nbytes nwritten))"

section \<open>The ring\<close>

fun copy_bytes :: "memory \<Rightarrow> addr \<Rightarrow> addr \<Rightarrow> nat \<Rightarrow> memory" where
  "copy_bytes mem dst src 0 = mem"
| "copy_bytes mem dst src (Suc n) = copy_bytes (mem(dst := mem src)) (dst + 1) (src + 1) n"

text \<open>Steps from position \<open>a\<close> to position \<open>b\<close> of the ring, all the way round when they are equal.\<close>

definition dist :: "nat \<Rightarrow> nat \<Rightarrow> nat" where
  "dist a b = (if a < b then b - a else b + 1024 - a)"

definition next_pos :: "u32 \<Rightarrow> u32" where
  "next_pos p = (if p + 1 = PIPE_BUF_SIZE then 0 else p + 1)"

lemma unat_next_pos: "unat p < 1024 \<Longrightarrow> unat (next_pos p) = (unat p + 1) mod 1024"
proof -
  assume p: "unat p < 1024"
  then have s: "unat (p + 1) = unat p + 1" by (simp add: unat_plus_if')
  have "p + 1 = 1024 \<longleftrightarrow> unat p = 1023"
  proof -
    have "p + 1 = 1024 \<longleftrightarrow> unat (p + 1) = 1024" by (simp add: word_unat_eq_iff)
    then show ?thesis using s by auto
  qed
  then show ?thesis using p s by (simp add: next_pos_def)
qed

lemma dist_next:
  assumes "a < 1024" "b < 1024"
  shows "dist a b > 0" "dist a b \<le> 1024" "(a + 1) mod 1024 = b \<longleftrightarrow> dist a b = 1"
    "(a + 1) mod 1024 \<noteq> b \<Longrightarrow> dist ((a + 1) mod 1024) b = dist a b - 1"
    "dist a b = d \<Longrightarrow> (a + d) mod 1024 = b"
  using assms by (cases "a = 1023"; auto simp: dist_def)+

definition ring_pos :: "u32 \<Rightarrow> nat \<Rightarrow> u32" where
  "ring_pos p n = of_nat ((unat p + n) mod 1024)"

lemma ring_pos_0: "unat p < 1024 \<Longrightarrow> ring_pos p 0 = p"
  by (simp add: ring_pos_def)

lemma unat_ring_pos [simp]: "unat (ring_pos p n) = (unat p + n) mod 1024"
proof -
  have "(unat p + n) mod 1024 < 2 ^ 32"
    by (rule order.strict_trans [OF mod_less_divisor]) simp_all
  then show ?thesis by (simp add: ring_pos_def)
qed

lemma ring_pos_next: "unat p < 1024 \<Longrightarrow> ring_pos (next_pos p) n = ring_pos p (Suc n)"
proof -
  assume "unat p < 1024"
  then have "(unat (next_pos p) + n) mod 1024 = (unat p + Suc n) mod 1024"
    using unat_next_pos [of p] mod_add_left_eq [of "unat p + 1" 1024 n] by simp
  then show ?thesis unfolding ring_pos_def by metis
qed

lemma next_pos_eq:
  assumes "unat p < 1024" "unat q < 1024"
  shows "next_pos p = q \<longleftrightarrow> dist (unat p) (unat q) = 1"
  using dist_next(3) [OF assms] unat_next_pos [OF assms(1)] by (metis word_unat_eq_iff)

lemma pipe_read_copy_eq:
  assumes "unat (pp_rpos pp) < 1024" "unat (pp_wpos pp) < 1024"
  defines "d \<equiv> dist (unat (pp_rpos pp)) (unat (pp_wpos pp))"
  shows "pipe_read_copy n rb wb pp mem k =
    (k + min n d, pp\<lparr>pp_rpos := ring_pos (pp_rpos pp) (min n d)\<rparr>, copy_bytes mem wb rb (min n d))"
  using assms(1,2) unfolding d_def
proof (induction n arbitrary: rb wb pp mem k)
  case 0
  then show ?case by (simp add: ring_pos_0)
next
  case (Suc n)
  let ?d = "dist (unat (pp_rpos pp)) (unat (pp_wpos pp))"
  let ?pp = "pp\<lparr>pp_rpos := next_pos (pp_rpos pp)\<rparr>"
  have step: "pipe_read_copy (Suc n) rb wb pp mem k =
     (if next_pos (pp_rpos pp) = pp_wpos pp then (k + 1, ?pp, mem(wb := mem rb))
      else pipe_read_copy n (rb + 1) (wb + 1) ?pp (mem(wb := mem rb)) (k + 1))"
    by (simp add: next_pos_def Let_def)
  note d = dist_next [OF Suc.prems]
  show ?case
  proof (cases "?d = 1")
    case True
    then have "next_pos (pp_rpos pp) = pp_wpos pp" using next_pos_eq [OF Suc.prems] by blast
    moreover have "min (Suc n) ?d = 1" "?d \<le> Suc n" using True by simp_all
    moreover have "ring_pos (pp_rpos pp) 1 = next_pos (pp_rpos pp)"
      using ring_pos_next [OF Suc.prems(1), of 0] ring_pos_0 [of "next_pos (pp_rpos pp)"] unat_next_pos [OF Suc.prems(1)]
      by simp
    ultimately show ?thesis
      unfolding step by (simp add: fun_upd_def)
  next
    case False
    then have ne: "next_pos (pp_rpos pp) \<noteq> pp_wpos pp" using next_pos_eq [OF Suc.prems] by blast
    have u: "unat (next_pos (pp_rpos pp)) = (unat (pp_rpos pp) + 1) mod 1024"
      by (rule unat_next_pos [OF Suc.prems(1)])
    have d': "dist (unat (pp_rpos ?pp)) (unat (pp_wpos ?pp)) = ?d - 1"
      using d(3,4) False by (simp add: u)
    have "min (Suc n) ?d = Suc (min n (?d - 1))" using d(1) by linarith
    then show ?thesis
      unfolding step using ne Suc.IH [of ?pp] Suc.prems d' ring_pos_next [OF Suc.prems(1)]
      by (simp add: u)
  qed
qed

lemma pipe_do_write_eq:
  assumes "unat (pp_rpos pp) < 1024" "unat (pp_wpos pp) < 1024"
  defines "d \<equiv> dist (unat (pp_wpos pp)) (unat (pp_rpos pp))"
  shows "pipe_do_write n wb rb pp mem k =
    (k + min n d, pp\<lparr>pp_wpos := ring_pos (pp_wpos pp) (min n d),
       pp_flags := (if d \<le> n then pp_flags pp OR PIPE_BUF_FULL else pp_flags pp)\<rparr>, copy_bytes mem wb rb (min n d))"
  using assms(1,2) unfolding d_def
proof (induction n arbitrary: rb wb pp mem k)
  case 0
  then show ?case using dist_next(1) [OF 0(2,1)] by (simp add: ring_pos_0)
next
  case (Suc n)
  let ?d = "dist (unat (pp_wpos pp)) (unat (pp_rpos pp))"
  let ?pp = "pp\<lparr>pp_wpos := next_pos (pp_wpos pp)\<rparr>"
  have step: "pipe_do_write (Suc n) wb rb pp mem k =
     (if next_pos (pp_wpos pp) = pp_rpos pp then (k + 1, ?pp\<lparr>pp_flags := pp_flags pp OR PIPE_BUF_FULL\<rparr>, mem(wb := mem rb))
      else pipe_do_write n (wb + 1) (rb + 1) ?pp (mem(wb := mem rb)) (k + 1))"
    by (simp add: next_pos_def Let_def)
  note d = dist_next [OF Suc.prems(2,1)]
  show ?case
  proof (cases "?d = 1")
    case True
    then have "next_pos (pp_wpos pp) = pp_rpos pp" using next_pos_eq [OF Suc.prems(2,1)] by blast
    moreover have "min (Suc n) ?d = 1" "?d \<le> Suc n" using True by simp_all
    moreover have "ring_pos (pp_wpos pp) 1 = next_pos (pp_wpos pp)"
      using ring_pos_next [OF Suc.prems(2), of 0] ring_pos_0 [of "next_pos (pp_wpos pp)"] unat_next_pos [OF Suc.prems(2)]
      by simp
    ultimately show ?thesis
      unfolding step by (simp add: fun_upd_def)
  next
    case False
    then have ne: "next_pos (pp_wpos pp) \<noteq> pp_rpos pp" using next_pos_eq [OF Suc.prems(2,1)] by blast
    have u: "unat (next_pos (pp_wpos pp)) = (unat (pp_wpos pp) + 1) mod 1024"
      by (rule unat_next_pos [OF Suc.prems(2)])
    have d': "dist (unat (pp_wpos ?pp)) (unat (pp_rpos ?pp)) = ?d - 1"
      using d(3,4) False by (simp add: u)
    have m: "min (Suc n) ?d = Suc (min n (?d - 1))" "?d \<le> Suc n \<longleftrightarrow> ?d - 1 \<le> n"
      using d(1) by linarith+
    then show ?thesis
      unfolding step using ne Suc.IH [of ?pp] Suc.prems d' ring_pos_next [OF Suc.prems(2)]
      by (simp add: u)
  qed
qed

section \<open>Flow control\<close>

definition full :: "pipe_t \<Rightarrow> bool" where
  "full pp \<longleftrightarrow> pp_flags pp AND PIPE_BUF_FULL \<noteq> 0"

definition ring_wf :: "pipe_t \<Rightarrow> bool" where
  "ring_wf pp \<longleftrightarrow> unat (pp_rpos pp) < 1024 \<and> unat (pp_wpos pp) < 1024 \<and> (full pp \<longrightarrow> pp_rpos pp = pp_wpos pp)"

text \<open>Number of bytes in the ring.\<close>

definition fill :: "pipe_t \<Rightarrow> nat" where
  "fill pp = (if full pp then 1024 else if pp_rpos pp = pp_wpos pp then 0
              else dist (unat (pp_rpos pp)) (unat (pp_wpos pp)))"

lemma fill_le: "ring_wf pp \<Longrightarrow> fill pp \<le> 1024"
  using dist_next(2) by (auto simp: ring_wf_def fill_def)

lemma dist_swap:
  assumes "a < 1024" "b < 1024"
  shows "a \<noteq> b \<Longrightarrow> dist b a = 1024 - dist a b" "dist a a = 1024"
  using assms by (auto simp: dist_def)

lemma room_dist: "ring_wf pp \<Longrightarrow> \<not> full pp \<Longrightarrow> dist (unat (pp_wpos pp)) (unat (pp_rpos pp)) = 1024 - fill pp"
  using dist_swap [of "unat (pp_rpos pp)" "unat (pp_wpos pp)"]
  by (auto simp: ring_wf_def fill_def word_unat_eq_iff)

lemma fill_dist: "ring_wf pp \<Longrightarrow> 0 < fill pp \<Longrightarrow> dist (unat (pp_rpos pp)) (unat (pp_wpos pp)) = fill pp"
  using dist_swap(2) by (auto simp: ring_wf_def fill_def split: if_splits)

lemma flag_absorb:
  fixes x a :: "'a::len word"
  shows "(x OR a) AND a = a" "(x AND NOT a) AND a = 0" "(x OR a) AND NOT a = x AND NOT a"
  by (rule bit_word_eqI; auto simp: bit_and_iff bit_or_iff bit_not_iff)+

lemmas full_flags = flag_absorb [of _ "4 :: u32"]

declare full_flags [simp]

lemma clear_full [simp]: "(x AND - 5) AND 4 = (0 :: u32)" "(x AND - 5) AND - 5 = x AND (- 5 :: u32)"
  using flag_absorb(2) [of x "4 :: u32"] by (simp_all add: and.assoc)

lemma or_full [simp]: "x OR 4 \<noteq> (0 :: u32)"
proof
  assume "x OR 4 = 0"
  then have "(x OR 4) AND 4 = 0 AND 4" by (rule arg_cong)
  then show False by (simp only: full_flags) simp
qed

text \<open>\<open>a\<close> steps along the ring: what is behind the reader and in front of the writer.\<close>

lemma ring_add:
  assumes "x < 1024" "a \<le> (1024 :: nat)"
  shows "(x + a) mod 1024 = (if x + a < 1024 then x + a else x + a - 1024)"
  using assms le_mod_geq [of 1024 "x + a"] by simp

lemma dist_ring_pos:
  assumes "unat p < 1024" "q < 1024" "a < dist (unat p) q"
  shows "dist (unat (ring_pos p a)) q = dist (unat p) q - a"
proof -
  have "a \<le> 1024" using dist_next(2) [OF assms(1,2)] assms(3) by linarith
  then show ?thesis
    unfolding unat_ring_pos ring_add [OF assms(1) \<open>a \<le> 1024\<close>] using assms
    by (auto simp: dist_def split: if_splits)
qed

lemma dist_ring_pos_back:
  assumes "unat p < 1024" "q < 1024" "0 < a" "a < dist (unat p) q"
  shows "dist q (unat (ring_pos p a)) = (if q = unat p then 0 else dist q (unat p)) + a"
proof -
  have "a \<le> 1024" using dist_next(2) [OF assms(1,2)] assms(4) by linarith
  then show ?thesis
    unfolding unat_ring_pos ring_add [OF assms(1) \<open>a \<le> 1024\<close>] using assms
    by (auto simp: dist_def split: if_splits)
qed

definition ring_send :: "addr \<Rightarrow> nat \<Rightarrow> pipe_t \<times> memory \<Rightarrow> nat \<times> (pipe_t \<times> memory)" where
  "ring_send rb n s = (case s of (pp, mem) \<Rightarrow>
     if full pp then (0, s) else pipe_do_write n (pp_buf pp + ucast (pp_wpos pp)) rb pp mem 0)"

definition ring_recv :: "addr \<Rightarrow> nat \<Rightarrow> pipe_t \<times> memory \<Rightarrow> nat \<times> (pipe_t \<times> memory)" where
  "ring_recv wb n s = (case s of (pp, mem) \<Rightarrow>
     if fill pp = 0 then (0, s)
     else (case pipe_read_copy n (pp_buf pp + ucast (pp_rpos pp)) wb pp mem 0 of
       (nread, pp, mem) \<Rightarrow> (nread, (if nread > 0 then pp\<lparr>pp_flags := pp_flags pp AND NOT PIPE_BUF_FULL\<rparr> else pp), mem)))"

text \<open>Writing fewer bytes than there is room for leaves the ring open.\<close>

lemma advance_fill:
  assumes "ring_wf pp" "\<not> full pp" "n < dist (unat (pp_wpos pp)) (unat (pp_rpos pp))"
  shows "unat (ring_pos (pp_wpos pp) n) < 1024"
    "fill (pp\<lparr>pp_wpos := ring_pos (pp_wpos pp) n, pp_flags := pp_flags pp\<rparr>) = fill pp + n"
proof -
  let ?w = "ring_pos (pp_wpos pp) n" and ?r = "unat (pp_rpos pp)"
  have lt: "?r < 1024" "unat (pp_wpos pp) < 1024" using assms(1) by (simp_all add: ring_wf_def)
  show "unat ?w < 1024" using lt by (simp add: unat_ring_pos)
  show "fill (pp\<lparr>pp_wpos := ?w, pp_flags := pp_flags pp\<rparr>) = fill pp + n"
  proof (cases "n = 0")
    case True
    then show ?thesis using lt by (simp add: ring_pos_0 fill_def full_def)
  next
    case False
    have "dist ?r (unat ?w) = (if ?r = unat (pp_wpos pp) then 0 else dist ?r (unat (pp_wpos pp))) + n"
      using dist_ring_pos_back [OF lt(2,1) _ assms(3)] False by simp
    then have w: "dist ?r (unat ?w) = fill pp + n" using assms(2) by (auto simp: fill_def word_unat_eq_iff)
    have "dist (unat ?w) ?r < 1024"
      using dist_ring_pos [OF lt(2,1) assms(3)] dist_next(2) [OF lt(2,1)] False by linarith
    then have "?w \<noteq> pp_rpos pp" using dist_swap(2) [OF lt(1) lt(1)] by (metis less_irrefl)
    then show ?thesis using w assms(2) by (simp add: fill_def full_def)
  qed
qed

lemma ring_send_spec:
  assumes "ring_wf pp" "ring_send rb n (pp, mem) = (a, pp', mem')"
  shows "a = min n (1024 - fill pp) \<and> ring_wf pp' \<and> fill pp' = fill pp + a \<and> pp_buf pp' = pp_buf pp \<and>
    pp_rpos pp' = pp_rpos pp \<and> pp_lock pp' = pp_lock pp \<and>
    pp_flags pp' AND NOT 4 = pp_flags pp AND NOT 4 \<and>
    mem' = copy_bytes mem (pp_buf pp + ucast (pp_wpos pp)) rb a"
proof (cases "full pp")
  case True
  then show ?thesis using assms by (auto simp: ring_send_def fill_def)
next
  case False
  let ?d = "dist (unat (pp_wpos pp)) (unat (pp_rpos pp))"
  have lt: "unat (pp_rpos pp) < 1024" "unat (pp_wpos pp) < 1024" using assms(1) by (simp_all add: ring_wf_def)
  have d: "?d = 1024 - fill pp" by (rule room_dist [OF assms(1) False])
  have f: "fill pp < 1024" using dist_next(1) [OF lt(2,1)] d by linarith
  have res: "a = min n ?d"
    "pp' = pp\<lparr>pp_wpos := ring_pos (pp_wpos pp) a, pp_flags := (if ?d \<le> n then pp_flags pp OR 4 else pp_flags pp)\<rparr>"
    "mem' = copy_bytes mem (pp_buf pp + ucast (pp_wpos pp)) rb a"
    using assms(2) False pipe_do_write_eq [OF lt, of n "pp_buf pp + ucast (pp_wpos pp)" rb mem 0]
    by (auto simp: ring_send_def)
  show ?thesis
  proof (cases "?d \<le> n")
    case True
    then have "a = ?d" using res(1) by simp
    moreover have "ring_pos (pp_wpos pp) ?d = pp_rpos pp"
      using dist_next(5) [OF lt(2,1) refl] unat_ring_pos [of "pp_wpos pp" ?d] by (metis word_unat_eq_iff)
    moreover have "(pp_flags pp OR 4) AND NOT 4 = pp_flags pp AND NOT 4"
      by (rule flag_absorb)
    ultimately show ?thesis
      using res True d f lt by (auto simp: ring_wf_def full_def fill_def)
  next
    case nd: False
    then have a: "a = n" "n < ?d" using res(1) by simp_all
    note adv = advance_fill [OF assms(1) False a(2)]
    show ?thesis using res nd a adv assms(1) d False by (auto simp: ring_wf_def full_def)
  qed
qed

lemma ring_recv_spec:
  assumes "ring_wf pp" "ring_recv wb n (pp, mem) = (a, pp', mem')"
  shows "a = min n (fill pp) \<and> ring_wf pp' \<and> fill pp' = fill pp - a \<and> pp_buf pp' = pp_buf pp \<and>
    pp_wpos pp' = pp_wpos pp \<and> pp_lock pp' = pp_lock pp \<and>
    (a > 0 \<longrightarrow> pp_rpos pp' = ring_pos (pp_rpos pp) a) \<and> (a = 0 \<longrightarrow> pp_rpos pp' = pp_rpos pp) \<and>
    pp_flags pp' AND NOT 4 = pp_flags pp AND NOT 4 \<and>
    mem' = copy_bytes mem wb (pp_buf pp + ucast (pp_rpos pp)) a"
proof (cases "fill pp = 0 \<or> n = 0")
  case True
  then show ?thesis
    using assms by (auto simp: ring_recv_def ring_wf_def full_def ring_pos_0 split: if_splits)
next
  case False
  let ?d = "dist (unat (pp_rpos pp)) (unat (pp_wpos pp))"
  have lt: "unat (pp_rpos pp) < 1024" "unat (pp_wpos pp) < 1024" using assms(1) by (simp_all add: ring_wf_def)
  have d: "?d = fill pp" using fill_dist [OF assms(1)] False by simp
  have res: "a = min n ?d"
    "pp' = pp\<lparr>pp_rpos := ring_pos (pp_rpos pp) a, pp_flags := pp_flags pp AND NOT 4\<rparr>"
    "mem' = copy_bytes mem wb (pp_buf pp + ucast (pp_rpos pp)) a"
    using assms(2) False d pipe_read_copy_eq [OF lt, of n "pp_buf pp + ucast (pp_rpos pp)" wb mem 0]
    by (auto simp: ring_recv_def split: if_splits)
  have fill': "fill pp' = fill pp - a"
  proof (cases "fill pp \<le> n")
    case True
    then have "unat (ring_pos (pp_rpos pp) a) = unat (pp_wpos pp)"
      using dist_next(5) [OF lt refl] res(1) d unat_ring_pos [of "pp_rpos pp" ?d] by simp
    then have "ring_pos (pp_rpos pp) a = pp_wpos pp" by (simp only: word_unat_eq_iff)
    then have "fill pp' = 0" using res(2) by (simp add: fill_def full_def)
    moreover have "a = fill pp" using res(1) d True by simp
    ultimately show ?thesis by simp
  next
    case nd: False
    then have a: "a = n" "n < ?d" using res(1) d by simp_all
    have e: "dist (unat (ring_pos (pp_rpos pp) n)) (unat (pp_wpos pp)) = ?d - n"
      by (rule dist_ring_pos [OF lt a(2)])
    moreover have "?d - n < 1024" using dist_next(2) [OF lt] False by linarith
    ultimately have "ring_pos (pp_rpos pp) n \<noteq> pp_wpos pp"
      using dist_swap(2) [OF lt(2) lt(2)] by (metis less_irrefl)
    then have "fill pp' = ?d - n" using res(2) a(1) e by (simp add: fill_def full_def)
    then show ?thesis using a(1) d by simp
  qed
  moreover have "pp_flags pp AND NOT 4 AND NOT 4 = pp_flags pp AND NOT (4 :: u32)"
    by (simp add: and.assoc)
  ultimately show ?thesis
    using res d False lt by (auto simp: ring_wf_def full_def)
qed

section \<open>The contract of a bounded channel\<close>

text \<open>
  What a pipe promises about amounts, whatever the sequence of transfers: a
  transfer moves as much as fits or is there, and the fill level counts it.
\<close>

datatype transfer = Send addr nat | Recv addr nat

fun transfers :: "(addr \<Rightarrow> nat \<Rightarrow> 's \<Rightarrow> nat \<times> 's) \<Rightarrow> (addr \<Rightarrow> nat \<Rightarrow> 's \<Rightarrow> nat \<times> 's) \<Rightarrow>
    transfer list \<Rightarrow> 's \<Rightarrow> nat \<times> nat \<times> 's" where
  "transfers snd1 rcv1 [] s = (0, 0, s)"
| "transfers snd1 rcv1 (Send b n # ts) s =
     (case snd1 b n s of (a, s) \<Rightarrow> case transfers snd1 rcv1 ts s of (w, r, s) \<Rightarrow> (a + w, r, s))"
| "transfers snd1 rcv1 (Recv b n # ts) s =
     (case rcv1 b n s of (a, s) \<Rightarrow> case transfers snd1 rcv1 ts s of (w, r, s) \<Rightarrow> (w, a + r, s))"

locale bounded_channel =
  fixes snd1 rcv1 :: "addr \<Rightarrow> nat \<Rightarrow> 's \<Rightarrow> nat \<times> 's"
    and level :: "'s \<Rightarrow> nat"
    and cap :: nat
    and inv :: "'s \<Rightarrow> bool"
  assumes send: "inv s \<Longrightarrow> snd1 b n s = (a, s') \<Longrightarrow> inv s' \<and> a = min n (cap - level s) \<and> level s' = level s + a"
    and recv: "inv s \<Longrightarrow> rcv1 b n s = (a, s') \<Longrightarrow> inv s' \<and> a = min n (level s) \<and> level s' = level s - a"
    and bounded: "inv s \<Longrightarrow> level s \<le> cap"
begin

lemma conservation:
  "inv s \<Longrightarrow> transfers snd1 rcv1 ts s = (w, r, s') \<Longrightarrow> inv s' \<and> level s + w = level s' + r"
proof (induction ts arbitrary: s w r rule: list.induct)
  case Nil
  then show ?case by simp
next
  case (Cons t ts)
  show ?case
  proof (cases t)
    case (Send b n)
    then obtain a s1 w1 where "snd1 b n s = (a, s1)" "transfers snd1 rcv1 ts s1 = (w1, r, s')" "w = a + w1"
      using Cons.prems(2) by (auto split: prod.splits)
    then show ?thesis using Cons.IH [of s1 w1 r] send [OF Cons.prems(1)] by fastforce
  next
    case (Recv b n)
    then obtain a s1 r1 where "rcv1 b n s = (a, s1)" "transfers snd1 rcv1 ts s1 = (w, r1, s')" "r = a + r1"
      using Cons.prems(2) by (auto split: prod.splits)
    then show ?thesis using Cons.IH [of s1 w r1] recv [OF Cons.prems(1)] by fastforce
  qed
qed

lemma never_invents: "inv s \<Longrightarrow> transfers snd1 rcv1 ts s = (w, r, s') \<Longrightarrow> r \<le> level s + w \<and> w \<le> cap + r"
  using conservation bounded by (metis add_leD2 le_add1 add.commute add_le_cancel_right order.trans le_add2)

end

interpretation pipe_ring: bounded_channel ring_send ring_recv "\<lambda>s. fill (fst s)" 1024 "\<lambda>s. ring_wf (fst s)"
proof
  fix s :: "pipe_t \<times> memory" and b n a s'
  assume wf: "ring_wf (fst s)"
  then show "fill (fst s) \<le> 1024" by (rule fill_le)
  { assume "ring_send b n s = (a, s')"
    then show "ring_wf (fst s') \<and> a = min n (1024 - fill (fst s)) \<and> fill (fst s') = fill (fst s) + a"
      using ring_send_spec [OF wf, of b n "snd s" a "fst s'" "snd s'"] by simp }
  { assume "ring_recv b n s = (a, s')"
    then show "ring_wf (fst s') \<and> a = min n (fill (fst s)) \<and> fill (fst s') = fill (fst s) - a"
      using ring_recv_spec [OF wf, of b n "snd s" a "fst s'" "snd s'"] by simp }
qed

section \<open>The calls\<close>

lemma pipe_of_upd [simp]:
  "pp < length (pps_all (k_pipes k)) \<Longrightarrow> pipe_of (upd_pipe pp g k) pp = g (pipe_of k pp)"
  "length (pps_all (k_pipes (upd_pipe pp g k))) = length (pps_all (k_pipes k))"
  by (simp_all add: upd_pipe_def)

lemma upd_pipe_frame [simp]:
  "k_mem (upd_pipe pp g k) = k_mem k" "k_proc_table (upd_pipe pp g k) = k_proc_table k"
  "k_cpu_proc (upd_pipe pp g k) = k_cpu_proc k" "k_trap_frame (upd_pipe pp g k) = k_trap_frame k"
  "file_of (upd_pipe pp g k) f = file_of k f" "k_pm (upd_pipe pp g k) = k_pm k"
  by (simp_all add: upd_pipe_def file_of_def split: file_ref.splits)

lemma release_pipe_frame [simp]:
  "k_mem (release_pipe pp k) = k_mem k" "k_proc_table (release_pipe pp k) = k_proc_table k"
  "k_cpu_proc (release_pipe pp k) = k_cpu_proc k" "file_of (release_pipe pp k) f = file_of k f"
  "pp < length (pps_all (k_pipes k)) \<Longrightarrow> pipe_of (release_pipe pp k) pp = (pipe_of k pp)\<lparr>pp_lock := 0\<rparr>"
  "length (pps_all (k_pipes (release_pipe pp k))) = length (pps_all (k_pipes k))"
  by (simp_all add: release_pipe_def)

lemma proc_yield_frame [simp]:
  "k_pipes (proc_yield i ch c k) = k_pipes k" "k_mem (proc_yield i ch c k) = k_mem k"
  "k_cpu_proc (proc_yield i ch c k) = k_cpu_proc k" "file_of (proc_yield i ch c k) f = file_of k f"
  by (simp_all add: proc_yield_def psleep_def upd_proc_def file_of_def split: file_ref.splits)

lemma proc_yield_proc [simp]:
  "i < length (procs k) \<Longrightarrow> proc_of (proc_yield i ch c k) i =
     (proc_of k i)\<lparr>p_chan := ch, p_state := SLEEPING, p_trap := k_trap_frame k, p_kont := c\<rparr>"
  by (simp add: proc_yield_def psleep_def) (simp add: upd_proc_def)

definition can_wake :: "kernel \<Rightarrow> chan \<Rightarrow> bool" where
  "can_wake k ch \<longleftrightarrow> pt_lock (k_proc_table k) = 0 \<and> pt_num_procs (k_proc_table k) \<noteq> 0 \<and>
     length (procs k) = MAX_PROCS \<and> wakeable ch (procs k)"

lemma mark_frame:
  assumes "can_wake k ch" "\<forall>j. ch = ChanProc j \<longrightarrow> j < MAX_PROCS"
  obtains k' where "proc_mark_for_wakeup ch k = Inr k'" "k_pipes k' = k_pipes k" "k_mem k' = k_mem k"
    "k_cpu_proc k' = k_cpu_proc k" "\<And>f. file_of k' f = file_of k f"
    "procs k' = map (wake1 ch (procs k)) (procs k)" "pt_num_procs (k_proc_table k') = pt_num_procs (k_proc_table k)"
    "pt_lock (k_proc_table k') = 0"
proof -
  obtain k' where k': "proc_mark_for_wakeup ch k = Inr k'" "procs k' = map (wake1 ch (procs k)) (procs k)"
    "k' = k\<lparr>k_proc_table := (k_proc_table k)\<lparr>pt_procs := procs k'\<rparr>, k_unsleep_scheduler := k_unsleep_scheduler k'\<rparr>"
    using mark_wakeup [of k ch] assms unfolding can_wake_def by blast
  have "k_pipes k' = k_pipes k" "k_mem k' = k_mem k" "k_cpu_proc k' = k_cpu_proc k" "file_of k' f = file_of k f"
    "pt_num_procs (k_proc_table k') = pt_num_procs (k_proc_table k)" "pt_lock (k_proc_table k') = 0" for f
    using assms(1) by (subst k'(3), simp add: can_wake_def file_of_def split: file_ref.splits)+
  then show ?thesis using k'(1,2) that by blast
qed

lemma word_of_nat_unat_eq: "of_nat (unat (x :: u32)) = x"
  by simp

lemma available_pos:
  assumes "ring_wf pp"
  shows "0 < sint (PIPE_BUF_SIZE - pp_wpos pp + pp_rpos pp)"
proof -
  let ?w = "unat (pp_wpos pp)" and ?r = "unat (pp_rpos pp)"
  have lt: "?w < 1024" "?r < 1024" using assms by (simp_all add: ring_wf_def)
  have "unat (1024 - pp_wpos pp) = 1024 - ?w" using lt by (simp add: unat_sub_if')
  then have "unat (1024 - pp_wpos pp + pp_rpos pp) = 1024 - ?w + ?r"
    using lt by (simp add: unat_plus_if')
  then have "1024 - pp_wpos pp + pp_rpos pp = of_nat (1024 - ?w + ?r)"
    using word_of_nat_unat_eq [of "1024 - pp_wpos pp + pp_rpos pp"] by simp
  moreover have "1024 - ?w + ?r < 2 ^ 31" using lt by simp
  ultimately have "sint (1024 - pp_wpos pp + pp_rpos pp) = int (1024 - ?w + ?r)"
    by (simp only: sint_of_nat32)
  moreover have "0 < int (1024 - ?w + ?r)" using lt by linarith
  ultimately show ?thesis by (simp only: PIPE_BUF_SIZE_def)
qed

text \<open>File \<open>f\<close> is an end of pipe \<open>pp\<close>, whose lock is free.\<close>

definition pipe_at :: "kernel \<Rightarrow> file_ref \<Rightarrow> nat \<Rightarrow> bool" where
  "pipe_at k f pp \<longleftrightarrow> pp < length (pps_all (k_pipes k)) \<and> pp_lock (pipe_of k pp) = 0 \<and>
     f_fs_file (file_of k f) = PipeObj pp \<and> ring_wf (pipe_of k pp)"

lemma ring_lock [simp]:
  "fill (p\<lparr>pp_lock := l\<rparr>) = fill p" "ring_wf (p\<lparr>pp_lock := l\<rparr>) = ring_wf p" "full (p\<lparr>pp_lock := l\<rparr>) = full p"
  by (simp_all add: fill_def ring_wf_def full_def)

lemma upd_pipe_const [simp]:
  "upd_pipe pp (\<lambda>_. q) (k\<lparr>k_mem := m\<rparr>) = (upd_pipe pp (\<lambda>_. q) k)\<lparr>k_mem := m\<rparr>"
  by (simp add: upd_pipe_def)

lemma can_wake_frame:
  "can_wake (upd_pipe pp g k) ch = can_wake k ch" "can_wake (k\<lparr>k_mem := m\<rparr>) ch = can_wake k ch"
  by (simp_all add: can_wake_def)

lemma file_of_mem [simp]: "file_of (k\<lparr>k_mem := m\<rparr>) f = file_of k f"
  by (simp add: file_of_def split: file_ref.splits)

text \<open>What one round of the writer's loop does, with the lock held.\<close>

lemma mark_if_frame:
  assumes "can_wake k (ChanPipe pp)"
  shows "\<exists>k'. (if b then proc_mark_for_wakeup (ChanPipe pp) k else Inr k) = Inr k' \<and> k_pipes k' = k_pipes k \<and> k_mem k' = k_mem k \<and>
    k_cpu_proc k' = k_cpu_proc k \<and> (\<forall>g. file_of k' g = file_of k g) \<and> length (procs k') = MAX_PROCS"
proof (cases b)
  case True
  from mark_frame [OF assms] obtain k' where "proc_mark_for_wakeup (ChanPipe pp) k = Inr k'" "k_pipes k' = k_pipes k" "k_mem k' = k_mem k"
    "k_cpu_proc k' = k_cpu_proc k" "\<And>g. file_of k' g = file_of k g" "procs k' = map (wake1 (ChanPipe pp) (procs k)) (procs k)"
    by auto
  moreover have "length (procs k) = MAX_PROCS" using assms by (simp add: can_wake_def)
  ultimately show ?thesis using True by simp
qed (use assms in \<open>simp add: can_wake_def\<close>)

lemma pipe_write_loop_step:
  fixes n w :: u32
  assumes "pp < length (pps_all (k_pipes k))" "ring_wf (pipe_of k pp)" "can_wake k (ChanPipe pp)" "i < MAX_PROCS"
  defines "P \<equiv> pipe_of k pp"
  defines "a \<equiv> min (unat (n - w)) (1024 - fill (pipe_of k pp))"
  shows "\<exists>k' r. pipe_write_loop i f pp buf n w k = Inr (r, k') \<and>
    pp_lock (pipe_of k' pp) = 0 \<and> ring_wf (pipe_of k' pp) \<and> fill (pipe_of k' pp) = fill P + a \<and>
    pp_buf (pipe_of k' pp) = pp_buf P \<and> pp_rpos (pipe_of k' pp) = pp_rpos P \<and>
    length (pps_all (k_pipes k')) = length (pps_all (k_pipes k)) \<and> (\<forall>g. file_of k' g = file_of k g) \<and>
    k_cpu_proc k' = k_cpu_proc k \<and>
    k_mem k' = copy_bytes (k_mem k) (pp_buf P + ucast (pp_wpos P)) (buf + scast w) a \<and>
    (if w + of_nat a = n then r = Some (sint n)
     else r = None \<and> p_state (proc_of k' i) = SLEEPING \<and> p_chan (proc_of k' i) = ChanPipe pp \<and>
          p_kont (proc_of k' i) = KPipeWrite f pp buf n (w + of_nat a))"
proof -
  obtain a' P' m' where snd: "ring_send (buf + scast w) (unat (n - w)) (P, k_mem k) = (a', P', m')"
    using prod_cases3 by blast
  note spec = ring_send_spec [OF assms(2) [folded P_def] snd]
  have a': "a' = a" using spec by (simp add: a_def P_def)
  let ?k1 = "upd_pipe pp (\<lambda>_. P') (k\<lparr>k_mem := m'\<rparr>)"
  have pos: "0 < sint (PIPE_BUF_SIZE - pp_wpos P + pp_rpos P)"
    using available_pos [OF assms(2)] by (simp add: P_def)
  have same: "full P \<Longrightarrow> P' = P \<and> m' = k_mem k \<and> a = 0"
    using snd a' by (simp add: ring_send_def)
  have "upd_pipe pp (\<lambda>_. P) k = k"
    using assms(1) by (simp add: upd_pipe_def P_def)
  then have k1: "full P \<Longrightarrow> ?k1 = k"
    using same by simp
  have do: "\<not> full P \<Longrightarrow> pipe_do_write (unat (n - w)) (pp_buf P + ucast (pp_wpos P)) (buf + scast w) P (k_mem k) 0 = (a, P', m')"
    using snd a' by (simp add: ring_send_def)
  have loop: "pipe_write_loop i f pp buf n w k =
      bnd (if a > 0 then proc_mark_for_wakeup (ChanPipe pp) ?k1 else Inr ?k1) (\<lambda>k.
        if w + of_nat a = n then Inr (Some (sint (w + of_nat a)), release_pipe pp k)
        else Inr (None, proc_yield i (ChanPipe pp) (KPipeWrite f pp buf n (w + of_nat a)) (release_pipe pp k)))"
    using pos k1 do same unfolding pipe_write_loop_def Let_def P_def [symmetric] full_def [symmetric]
    by (cases "full P") (simp_all add: full_def [symmetric] not_less)
  have cw: "can_wake ?k1 (ChanPipe pp)" using assms(3) by (simp only: can_wake_frame)
  obtain k2 where k2: "(if a > 0 then proc_mark_for_wakeup (ChanPipe pp) ?k1 else Inr ?k1) = Inr k2"
    "k_pipes k2 = k_pipes ?k1" "k_mem k2 = k_mem ?k1" "k_cpu_proc k2 = k_cpu_proc ?k1"
    "\<And>g. file_of k2 g = file_of ?k1 g" "length (procs k2) = MAX_PROCS"
    using mark_if_frame [OF cw] by metis
  have P2: "pipe_of k2 pp = P'" "length (pps_all (k_pipes k2)) = length (pps_all (k_pipes k))"
    using k2(2) assms(1) by simp_all
  have m2: "k_mem k2 = m'" using k2(3) by simp
  show ?thesis
    using loop k2 P2 m2 spec a' assms(1,4) by (auto simp: P_def)
qed

lemma acquire_pipe_free:
  "pp < length (pps_all (k_pipes k)) \<Longrightarrow> pp_lock (pipe_of k pp) = 0 \<Longrightarrow>
   acquire_pipe pp k = Inr (upd_pipe pp (\<lambda>p. p\<lparr>pp_lock := 1\<rparr>) k)"
  by (simp add: acquire_pipe_def)

text \<open>The reader's loop with the lock held, on a ring that is not empty.\<close>

lemma pipe_read_loop_step:
  fixes n :: u32
  assumes "pp < length (pps_all (k_pipes k))" "ring_wf (pipe_of k pp)" "0 < fill (pipe_of k pp)"
  defines "P \<equiv> pipe_of k pp" and "a \<equiv> min (unat n) (fill (pipe_of k pp))"
  shows "\<exists>k'. pipe_read_loop i f pp buf n k = Inr (Some (int a), k') \<and>
    pp_lock (pipe_of k' pp) = 0 \<and> ring_wf (pipe_of k' pp) \<and> fill (pipe_of k' pp) = fill P - a \<and>
    pp_buf (pipe_of k' pp) = pp_buf P \<and> pp_wpos (pipe_of k' pp) = pp_wpos P \<and>
    (0 < a \<longrightarrow> pp_rpos (pipe_of k' pp) = ring_pos (pp_rpos P) a) \<and>
    k_proc_table k' = k_proc_table k \<and> k_cpu_proc k' = k_cpu_proc k \<and> (\<forall>g. file_of k' g = file_of k g) \<and>
    length (pps_all (k_pipes k')) = length (pps_all (k_pipes k)) \<and>
    k_mem k' = copy_bytes (k_mem k) buf (pp_buf P + ucast (pp_rpos P)) a"
proof -
  obtain a' P' m' where rcv: "ring_recv buf (unat n) (P, k_mem k) = (a', P', m')"
    using prod_cases3 by blast
  note spec = ring_recv_spec [OF assms(2) [folded P_def] rcv]
  have a': "a' = a" using spec by (simp add: a_def P_def)
  have "a \<le> 1024" using fill_le [OF assms(2)] by (simp add: a_def)
  then have sn: "sint (of_nat a :: u32) = int a" by (intro sint_of_nat32) simp
  have ne: "\<not> (pp_rpos P = pp_wpos P \<and> pp_flags P AND PIPE_BUF_FULL = 0)"
    using assms(3) by (auto simp: P_def [symmetric] fill_def full_def split: if_splits)
  obtain P0 where P0: "pipe_read_copy (unat n) (pp_buf P + ucast (pp_rpos P)) buf P (k_mem k) 0 = (a, P0, m')"
    "P' = (if a > 0 then P0\<lparr>pp_flags := pp_flags P0 AND NOT PIPE_BUF_FULL\<rparr> else P0)"
    using rcv assms(3) a' by (auto simp: ring_recv_def P_def split: prod.splits if_splits)
  let ?k1 = "upd_pipe pp (\<lambda>_. P0) (k\<lparr>k_mem := m'\<rparr>)"
  let ?k2 = "if a > 0 then upd_pipe pp (\<lambda>p. p\<lparr>pp_flags := pp_flags p AND NOT PIPE_BUF_FULL\<rparr>) ?k1 else ?k1"
  have "pipe_read_loop i f pp buf n k = Inr (Some (int a), release_pipe pp ?k2)"
    unfolding pipe_read_loop_def Let_def P_def [symmetric] if_not_P [OF ne] P0(1) by (simp add: sn)
  moreover have "pipe_of ?k2 pp = P'" "k_mem ?k2 = m'" "k_proc_table ?k2 = k_proc_table k"
    "pp < length (pps_all (k_pipes ?k2))" "k_cpu_proc ?k2 = k_cpu_proc k" "\<And>g. file_of ?k2 g = file_of k g"
    "length (pps_all (k_pipes ?k2)) = length (pps_all (k_pipes k))"
    using assms(1) P0(2) by simp_all
  ultimately show ?thesis using spec a' by auto
qed

lemma copy_bytes_apply:
  assumes "n \<le> unat (d - s)" "n < 2 ^ 64"
  shows "copy_bytes m d s n x = (if unat (x - d) < n then m (s + (x - d)) else m x)"
  using assms
proof (induction n arbitrary: m d s)
  case 0
  then show ?case by simp
next
  case (Suc n)
  have ih: "copy_bytes (m(d := m s)) (d + 1) (s + 1) n x =
      (if unat (x - (d + 1)) < n then (m(d := m s)) (s + 1 + (x - (d + 1))) else (m(d := m s)) x)"
    using Suc.prems by (intro Suc.IH) simp_all
  show ?case
  proof (cases "x = d")
    case True
    have "unat (- 1 :: addr) = 2 ^ 64 - 1" by (simp add: unsigned_minus_1_eq_mask mask_eq_exp_minus_1)
    then have "\<not> unat (x - (d + 1)) < n" using True Suc.prems(2) by simp
    then show ?thesis using ih True by simp
  next
    case False
    have u: "unat (x - d) = Suc (unat (x - (d + 1)))" by (rule unat_diff_succ [OF False])
    have e: "s + 1 + (x - (d + 1)) = s + (x - d)" by simp
    have "s + (x - d) \<noteq> d" if "unat (x - d) < Suc n"
    proof
      assume "s + (x - d) = d"
      then have "x - d = d - s" by (simp add: algebra_simps)
      with that Suc.prems(1) show False by simp
    qed
    then show ?thesis using ih False u e by auto
  qed
qed

lemma load_copy_bytes:
  assumes "n \<le> unat (d - s)" "n < 2 ^ 64"
  shows "load_bytes (copy_bytes m d s n) d n = load_bytes m s n"
  using assms by (intro load_bytes_cong) (simp add: copy_bytes_apply)

text \<open>A read call on a pipe that holds bytes.\<close>

lemma pipe_read_some:
  fixes n :: u32
  assumes "pipe_at k f pp" "k_cpu_proc k = Some i" "0 < fill (pipe_of k pp)" "0 < unat n"
  defines "P \<equiv> pipe_of k pp" and "a \<equiv> min (unat n) (fill (pipe_of k pp))"
  obtains k' where "pipe_read f buf n k = Inr (Some (int a), k')" "\<And>g. f_fs_file (file_of k g) = PipeObj pp \<Longrightarrow> pipe_at k' g pp"
    "k_cpu_proc k' = Some i" "fill (pipe_of k' pp) = fill P - a" "pp_buf (pipe_of k' pp) = pp_buf P"
    "pp_rpos (pipe_of k' pp) = ring_pos (pp_rpos P) a"
    "k_mem k' = copy_bytes (k_mem k) buf (pp_buf P + ucast (pp_rpos P)) a"
proof -
  let ?k1 = "upd_pipe pp (\<lambda>p. p\<lparr>pp_lock := 1\<rparr>) k"
  note at = assms(1) [unfolded pipe_at_def]
  have "pipe_read f buf n k = pipe_read_loop i f pp buf n ?k1"
    using at assms(2) acquire_pipe_free by (simp add: pipe_read_def myproc_def)
  moreover have "0 < a" using assms(3,4) by (simp add: a_def)
  ultimately show ?thesis
    using pipe_read_loop_step [of pp ?k1 i f buf n] at assms(2,3) that
    by (auto simp: P_def a_def pipe_at_def)
qed

text \<open>
  A write of \<open>n\<close> bytes that starts \<open>h < n\<close> bytes before the end of the ring at \<open>b\<close>
  goes past it, and a read of \<open>h\<close> bytes followed by one of the rest takes the rest
  from the start of the ring, which the write has not touched.
\<close>

lemma offset_before:
  fixes a :: addr
  assumes "j < p" "p \<le> 1024" "c \<le> 1024"
  shows "\<not> unat (a + of_nat j - (a + of_nat p)) < c"
proof -
  have "2 ^ 63 \<le> unat (of_nat j - of_nat p :: addr)" using assms by (simp add: unat_sub_if')
  then have "\<not> unat (of_nat j - of_nat p :: addr) < c" using assms(3) by simp
  then show ?thesis by simp
qed

lemma crossing_copies:
  fixes b src dst :: addr and m :: memory
  assumes "n \<le> 1024" "p < 1024" "h = 1024 - p" "h < n"
    and "n \<le> unat (b + of_nat p - src)" "2048 \<le> unat (dst - b)" "n \<le> unat (b - dst)"
  defines "m1 \<equiv> copy_bytes m (b + of_nat p) src n"
  defines "m2 \<equiv> copy_bytes m1 dst (b + of_nat p) h"
  defines "m3 \<equiv> copy_bytes m2 (dst + of_nat h) b (n - h)"
  shows "load_bytes m3 dst h = load_bytes m src h"
    and "load_bytes m3 (dst + of_nat h) (n - h) = load_bytes m b (n - h)"
proof -
  define \<delta> where "\<delta> = dst - b"
  have db: "unat (b - dst) = 2 ^ 64 - unat \<delta>"
    using assms(6) unat_sub_if' [of 0 \<delta>] by (simp add: \<delta>_def)
  have \<delta>: "2048 \<le> unat \<delta>" "unat \<delta> + n \<le> 2 ^ 64"
    using assms(6,7) db unsigned_less [of \<delta>, where 'a = nat] by (simp_all add: \<delta>_def)
  have uh: "unat (of_nat h :: addr) = h" "unat (of_nat p :: addr) = p" using assms(1,2,4) by simp_all
  have "dst - (b + of_nat p) = \<delta> - of_nat p" by (simp add: \<delta>_def)
  moreover have "unat (\<delta> - of_nat p) = unat \<delta> - p" using \<delta>(1) uh(2) assms(2) by (subst unat_sub_if') simp
  ultimately have "unat (dst - (b + of_nat p)) = unat \<delta> - p" by (simp only:)
  then have h: "h \<le> unat (dst - (b + of_nat p))" using \<delta>(1) assms(1,2,4) by linarith
  have "dst + of_nat h - b = \<delta> + of_nat h" by (simp add: \<delta>_def)
  moreover have "unat (\<delta> + of_nat h) = unat \<delta> + h" using \<delta>(2) uh(1) assms(4) by (subst unat_plus_if') simp
  ultimately have "unat (dst + of_nat h - b) = unat \<delta> + h" by (simp only:)
  then have rest: "n - h \<le> unat (dst + of_nat h - b)" using \<delta>(1) assms(1) by linarith
  have c1: "m1 x = (if unat (x - (b + of_nat p)) < n then m (src + (x - (b + of_nat p))) else m x)" for x
    unfolding m1_def using assms(1,5) by (intro copy_bytes_apply) simp_all
  have c2: "m2 x = (if unat (x - dst) < h then m1 (b + of_nat p + (x - dst)) else m1 x)" for x
    unfolding m2_def using assms(1,4) by (intro copy_bytes_apply h) simp
  have c3: "m3 x = (if unat (x - (dst + of_nat h)) < n - h then m2 (b + (x - (dst + of_nat h))) else m2 x)" for x
    unfolding m3_def using assms(1) by (intro copy_bytes_apply rest) simp
  show "load_bytes m3 dst h = load_bytes m src h"
  proof (rule load_bytes_cong)
    fix j assume j: "j < h"
    have "\<not> unat (dst + of_nat j - (dst + of_nat h)) < n - h" using assms(1,4) by (intro offset_before j) simp_all
    then show "m3 (dst + of_nat j) = m (src + of_nat j)"
      using j assms(1,4) by (simp add: c1 c2 c3)
  qed
  show "load_bytes m3 (dst + of_nat h) (n - h) = load_bytes m b (n - h)"
  proof (rule load_bytes_cong)
    fix j assume j: "j < n - h"
    have "j < p" using j assms(1,3) by linarith
    then have "\<not> unat (b + of_nat j - (b + of_nat p)) < n" using assms(1,2) by (intro offset_before) simp_all
    moreover have "\<not> unat (b + of_nat j - dst) < h"
    proof -
      have "b + of_nat j - dst = of_nat j - \<delta>" "unat (of_nat j :: addr) = j" using j assms(1) by (simp_all add: \<delta>_def)
      moreover from this have "unat (of_nat j - \<delta>) = j + 2 ^ 64 - unat \<delta>"
        using \<delta>(1) j assms(1) by (subst unat_sub_if') simp
      ultimately have "unat (b + of_nat j - dst) = j + 2 ^ 64 - unat \<delta>" by (simp only:)
      then show ?thesis using \<delta>(2) assms(4) by linarith
    qed
    ultimately show "m3 (dst + of_nat h + of_nat j) = m (b + of_nat j)"
      using j assms(1) by (simp add: c1 c2 c3)
  qed
qed

section \<open>Properties\<close>

text \<open>
  C3: whatever the sequence of transfers through a pipe, the bytes accepted
  from writers and the bytes delivered to readers balance with the fill level:
  nothing is delivered that was not accepted, and at most 1024 bytes wait.
\<close>

theorem pipe_conservation:
  assumes "ring_wf pp" "transfers ring_send ring_recv ts (pp, mem) = (w, r, pp', mem')"
  shows "ring_wf pp' \<and> fill pp + w = fill pp' + r \<and> fill pp' \<le> 1024"
  using pipe_ring.conservation [of "(pp, mem)" ts w r "(pp', mem')"] assms fill_le by auto

theorem pipe_conservation_witness:
  "\<exists>pp' mem'. transfers ring_send ring_recv [Send 0 700, Send 0 700, Recv 0 100] (zero_pipe\<lparr>pp_buf := 4096\<rparr>, \<lambda>_. 0) =
     (1024, 100, pp', mem') \<and> fill pp' = 924"
proof -
  let ?s = "(zero_pipe\<lparr>pp_buf := 4096\<rparr>, (\<lambda>_. 0) :: memory)"
  have wf: "ring_wf (zero_pipe\<lparr>pp_buf := 4096\<rparr>)" "fill (zero_pipe\<lparr>pp_buf := 4096\<rparr>) = 0"
    by (simp_all add: ring_wf_def zero_pipe_def full_def fill_def)
  obtain a1 s1 where s1: "ring_send 0 700 ?s = (a1, s1)" by (meson surj_pair)
  obtain a2 s2 where s2: "ring_send 0 700 s1 = (a2, s2)" by (meson surj_pair)
  obtain a3 s3 where s3: "ring_recv 0 100 s2 = (a3, s3)" by (meson surj_pair)
  have r1: "a1 = 700" "fill (fst s1) = 700" "ring_wf (fst s1)"
    using pipe_ring.send [OF _ s1] wf by simp_all
  have r2: "a2 = 324" "fill (fst s2) = 1024" "ring_wf (fst s2)"
    using pipe_ring.send [OF _ s2] r1 by simp_all
  have "a3 = 100" using pipe_ring.recv [OF _ s3] r2 by simp
  then have t: "transfers ring_send ring_recv [Send 0 700, Send 0 700, Recv 0 100] ?s = (1024, 100, fst s3, snd s3)"
    using s1 s2 s3 r1 r2 by simp
  then show ?thesis
    using pipe_conservation [OF wf(1) t] wf(2) by (intro exI [of _ "fst s3"] exI [of _ "snd s3"]) simp
qed

text \<open>
  C11: \<open>pipe_write\<close> stores as many bytes as there is room for. When that is all
  of them it returns their number; otherwise the process sleeps on the pipe and
  will go on with the rest. In both cases the lock is free again.
\<close>

theorem pipe_write_correct:
  fixes n :: u32
  assumes "pipe_at k f pp" "k_cpu_proc k = Some i" "i < MAX_PROCS" "can_wake k (ChanPipe pp)"
  defines "P \<equiv> pipe_of k pp"
  defines "a \<equiv> min (unat n) (1024 - fill P)"
  shows "\<exists>k' r. pipe_write f buf n k = Inr (r, k') \<and> pp_lock (pipe_of k' pp) = 0 \<and>
    ring_wf (pipe_of k' pp) \<and> fill (pipe_of k' pp) = fill P + a \<and>
    k_mem k' = copy_bytes (k_mem k) (pp_buf P + ucast (pp_wpos P)) buf a \<and>
    (if a = unat n then r = Some (sint n)
     else r = None \<and> p_state (proc_of k' i) = SLEEPING \<and> p_chan (proc_of k' i) = ChanPipe pp \<and>
          p_kont (proc_of k' i) = KPipeWrite f pp buf n (of_nat a))"
proof -
  let ?k1 = "upd_pipe pp (\<lambda>p. p\<lparr>pp_lock := 1\<rparr>) k"
  note at = assms(1) [unfolded pipe_at_def]
  have "pipe_write f buf n k = pipe_write_loop i f pp buf n 0 ?k1"
    using at assms(2) acquire_pipe_free by (simp add: pipe_write_def myproc_def)
  moreover have "(0 + of_nat a = n) = (a = unat n)"
    using unat_lt32 [of n] by (auto simp: a_def min_def)
  moreover have "ring_wf (pipe_of ?k1 pp)" "can_wake ?k1 (ChanPipe pp)" "pp < length (pps_all (k_pipes ?k1))"
    using at assms(4) by (simp_all add: can_wake_frame)
  ultimately show ?thesis
    using pipe_write_loop_step [of pp ?k1 i f buf n 0] at assms(3) by (simp add: P_def a_def) (auto split: if_splits)
qed

text \<open>
  C12: \<open>pipe_read\<close> on a pipe that holds bytes delivers as many as asked for and
  there, and returns their number. On an empty pipe it returns 0 when the
  writing end is closed and otherwise sleeps on the pipe.
\<close>

theorem pipe_read_correct:
  fixes n :: u32
  assumes "pipe_at k f pp" "k_cpu_proc k = Some i" "i < MAX_PROCS" "can_wake k (ChanPipe pp)"
  defines "P \<equiv> pipe_of k pp"
  defines "a \<equiv> min (unat n) (fill P)"
  shows "\<exists>k' r. pipe_read f buf n k = Inr (r, k') \<and> pp_lock (pipe_of k' pp) = 0 \<and>
    ring_wf (pipe_of k' pp) \<and> fill (pipe_of k' pp) = fill P - a \<and>
    k_mem k' = copy_bytes (k_mem k) buf (pp_buf P + ucast (pp_rpos P)) a \<and>
    (if 0 < fill P then r = Some (int a)
     else if pp_flags P AND PIPE_FLAG_WRITE_CLOSED \<noteq> 0 then r = Some 0
     else r = None \<and> p_state (proc_of k' i) = SLEEPING \<and> p_chan (proc_of k' i) = ChanPipe pp \<and>
          p_kont (proc_of k' i) = KPipeRead f pp buf n)"
proof -
  let ?k1 = "upd_pipe pp (\<lambda>p. p\<lparr>pp_lock := 1\<rparr>) k"
  note at = assms(1) [unfolded pipe_at_def]
  have start: "pipe_read f buf n k = pipe_read_loop i f pp buf n ?k1"
    using at assms(2) acquire_pipe_free by (simp add: pipe_read_def myproc_def)
  show ?thesis
  proof (cases "0 < fill P")
    case True
    then show ?thesis
      using start pipe_read_loop_step [of pp ?k1 i f buf n] at by (auto simp: P_def a_def)
  next
    case False
    then have e: "pp_rpos P = pp_wpos P" "pp_flags P AND PIPE_BUF_FULL = 0"
      using dist_next(1) [of "unat (pp_rpos P)" "unat (pp_wpos P)"] at
      by (auto simp: fill_def full_def ring_wf_def P_def split: if_splits)
    have "can_wake ?k1 (ChanPipe pp)" using assms(4) by (simp only: can_wake_frame)
    then obtain k2 where k2: "proc_mark_for_wakeup (ChanPipe pp) ?k1 = Inr k2" "k_pipes k2 = k_pipes ?k1"
      "k_mem k2 = k_mem k" "procs k2 = map (wake1 (ChanPipe pp) (procs k)) (procs k)"
      by (rule mark_frame) auto
    have len: "length (procs k) = MAX_PROCS" using assms(4) by (simp add: can_wake_def)
    have "pipe_of ?k1 pp = P\<lparr>pp_lock := 1\<rparr>" using at by (simp add: P_def)
    then have "pipe_read_loop i f pp buf n ?k1 =
       (if pp_flags P AND PIPE_FLAG_WRITE_CLOSED \<noteq> 0 then Inr (Some 0, release_pipe pp ?k1)
        else Inr (None, proc_yield i (ChanPipe pp) (KPipeRead f pp buf n) (release_pipe pp k2)))"
      using e k2(1) unfolding pipe_read_loop_def Let_def by simp
    then show ?thesis
      using start at k2 False assms(3) len by (simp add: a_def P_def)
  qed
qed

text \<open>A machine with an open pipe whose ends are files 0 and 1 of process 0.\<close>

definition piped :: "u32 \<Rightarrow> u32 \<Rightarrow> kernel" where
  "piped r w = (bss_kernel (\<lambda>x. ucast x))\<lparr>k_cpu_proc := Some 0,
     k_proc_table := \<lparr>pt_lock = 0, pt_procs = replicate MAX_PROCS zero_proc, pt_num_procs = 1, pt_pid_counter = 1\<rparr>,
     k_ftable := \<lparr>ft_lock = 0, ft_files =
       zero_file\<lparr>f_refcount := 1, f_flags := 1026, f_fs_file := PipeObj 0, f_read := PipeOp\<rparr> #
       zero_file\<lparr>f_refcount := 1, f_flags := 1028, f_fs_file := PipeObj 0, f_write := PipeOp\<rparr> # replicate 30 zero_file\<rparr>,
     k_pipes := \<lparr>pps_lock = 0, pps_all = \<lparr>pp_lock = 0, pp_flags = 1, pp_buf = 0x80005000, pp_rf = FTable 0,
       pp_wf = FTable 1, pp_wpos = w, pp_rpos = r\<rparr> # replicate 3 zero_pipe\<rparr>\<rparr>"

lemma piped_facts:
  "k_cpu_proc (piped r w) = Some 0" "can_wake (piped r w) (ChanPipe 0)"
  "unat r < 1024 \<Longrightarrow> unat w < 1024 \<Longrightarrow> pipe_at (piped r w) (FTable 0) 0 \<and> pipe_at (piped r w) (FTable 1) 0"
  "fill (pipe_of (piped r w) 0) = (if r = w then 0 else dist (unat r) (unat w))"
  by (auto simp: piped_def can_wake_def wakeable_def waits_on_def zero_proc_def pipe_at_def file_of_def
    ring_wf_def full_def fill_def)

theorem pipe_write_correct_witness:
  "\<exists>k' r. pipe_write (FTable 1) 0x80001000 2000 (piped 5 9) = Inr (r, k') \<and> r = None \<and>
     fill (pipe_of k' 0) = 1024 \<and> p_state (proc_of k' 0) = SLEEPING"
  using pipe_write_correct [of "piped 5 9" "FTable 1" 0 0 "0x80001000" 2000] piped_facts [of 5 9]
  by (simp add: dist_def) blast

theorem pipe_read_correct_witness:
  "\<exists>k' r. pipe_read (FTable 0) 0x80001000 3 (piped 5 9) = Inr (r, k') \<and> r = Some 3 \<and> fill (pipe_of k' 0) = 1"
  using pipe_read_correct [of "piped 5 9" "FTable 0" 0 0 "0x80001000" 3] piped_facts [of 5 9]
  by (simp add: dist_def) blast

text \<open>
  C24: bytes written to an empty pipe and read back arrive unchanged, as long as
  neither transfer crosses the end of the ring.
\<close>

theorem pipe_roundtrip:
  fixes n :: u32
  assumes "pipe_at k fw pp" "f_fs_file (file_of k fr) = PipeObj pp" "fill (pipe_of k pp) = 0"
    and "k_cpu_proc k = Some i" "i < MAX_PROCS" "can_wake k (ChanPipe pp)"
    and "0 < unat n" "unat (pp_wpos (pipe_of k pp)) + unat n \<le> 1024"
    and "unat n \<le> unat (pp_buf (pipe_of k pp) + ucast (pp_wpos (pipe_of k pp)) - src)"
    and "unat n \<le> unat (dst - (pp_buf (pipe_of k pp) + ucast (pp_wpos (pipe_of k pp))))"
  shows "\<exists>k1 k2. pipe_write fw src n k = Inr (Some (sint n), k1) \<and>
    pipe_read fr dst n k1 = Inr (Some (int (unat n)), k2) \<and> fill (pipe_of k2 pp) = 0 \<and>
    load_bytes (k_mem k2) dst (unat n) = load_bytes (k_mem k) src (unat n)"
proof -
  let ?P = "pipe_of k pp"
  let ?k0 = "upd_pipe pp (\<lambda>p. p\<lparr>pp_lock := 1\<rparr>) k"
  note at = assms(1) [unfolded pipe_at_def]
  have w: "pipe_write fw src n k = pipe_write_loop i fw pp src n 0 ?k0"
    using at assms(4) acquire_pipe_free by (simp add: pipe_write_def myproc_def)
  have le: "min (unat n) (1024 - fill ?P) = unat n" using assms(3,8) by simp
  obtain k1 where k1: "pipe_write_loop i fw pp src n 0 ?k0 = Inr (Some (sint n), k1)"
    "pp_lock (pipe_of k1 pp) = 0" "ring_wf (pipe_of k1 pp)" "fill (pipe_of k1 pp) = unat n"
    "pp_buf (pipe_of k1 pp) = pp_buf ?P" "pp_rpos (pipe_of k1 pp) = pp_rpos ?P"
    "length (pps_all (k_pipes k1)) = length (pps_all (k_pipes k))" "\<And>g. file_of k1 g = file_of k g"
    "k_cpu_proc k1 = Some i" "k_mem k1 = copy_bytes (k_mem k) (pp_buf ?P + ucast (pp_wpos ?P)) src (unat n)"
    using pipe_write_loop_step [of pp ?k0 i fw src n 0] at assms(3-6) le
    by (auto simp: can_wake_frame)
  let ?k1 = "upd_pipe pp (\<lambda>p. p\<lparr>pp_lock := 1\<rparr>) k1"
  have "pipe_read fr dst n k1 = pipe_read_loop i fr pp dst n ?k1"
    using at k1 assms(2) acquire_pipe_free [of pp k1] by (simp add: pipe_read_def myproc_def)
  moreover obtain k2 where "pipe_read_loop i fr pp dst n ?k1 = Inr (Some (int (unat n)), k2)"
    "fill (pipe_of k2 pp) = 0" "k_mem k2 = copy_bytes (k_mem k1) dst (pp_buf ?P + ucast (pp_rpos ?P)) (unat n)"
    using pipe_read_loop_step [of pp ?k1 i fr dst n] at k1 assms(7) by auto
  moreover have "pp_rpos ?P = pp_wpos ?P"
    using assms(3) dist_next(1) at by (fastforce simp: fill_def ring_wf_def split: if_splits)
  moreover have "unat n < 2 ^ 64" using unat_lt32 [of n] by simp
  ultimately show ?thesis
    using w k1(1,10) load_copy_bytes assms(9,10) by auto
qed

theorem pipe_roundtrip_witness:
  "\<exists>k1 k2. pipe_write (FTable 1) 0x80001000 24 (piped 1000 1000) = Inr (Some 24, k1) \<and>
     pipe_read (FTable 0) 0x80007000 24 k1 = Inr (Some 24, k2)"
  using pipe_roundtrip [where k = "piped 1000 1000" and fw = "FTable 1" and pp = 0 and fr = "FTable 0" and i = 0
      and n = 24 and src = "0x80001000" and dst = "0x80007000"]
    piped_facts [of 1000 1000]
  by (simp add: pipe_at_def) (auto simp: piped_def)

text \<open>
  C25: a transfer that crosses the end of the ring is not wrapped around in
  memory. When at most 1024 bytes are written to an empty pipe and run
  over the end of the ring, and are read back in two calls, the first up to the
  end of the ring and the second for the rest, all three calls report the full
  amounts, but the rest read is what memory held at the start of the ring before
  the write: it differs from the bytes written whenever those differ from it. The
  source buffer must not be overrun by the copy into the ring, and the
  destination must lie outside the ring's two kilobytes.
\<close>

theorem pipe_wrap_corrupts:
  fixes n :: u32
  assumes "pipe_at k fw pp" "f_fs_file (file_of k fr) = PipeObj pp" "fill (pipe_of k pp) = 0"
    and "k_cpu_proc k = Some i" "i < MAX_PROCS" "can_wake k (ChanPipe pp)"
    and "unat n \<le> 1024" "1024 < unat (pp_wpos (pipe_of k pp)) + unat n"
    and "unat n \<le> unat (pp_buf (pipe_of k pp) + ucast (pp_wpos (pipe_of k pp)) - src)"
    and "2048 \<le> unat (dst - pp_buf (pipe_of k pp))" "unat n \<le> unat (pp_buf (pipe_of k pp) - dst)"
  defines "h \<equiv> 1024 - unat (pp_wpos (pipe_of k pp))"
  shows "\<exists>k1 k2 k3. pipe_write fw src n k = Inr (Some (sint n), k1) \<and>
    pipe_read fr dst (of_nat h) k1 = Inr (Some (int h), k2) \<and>
    pipe_read fr (dst + of_nat h) (n - of_nat h) k2 = Inr (Some (int (unat n - h)), k3) \<and>
    load_bytes (k_mem k3) dst h = load_bytes (k_mem k) src h \<and>
    load_bytes (k_mem k3) (dst + of_nat h) (unat n - h) = load_bytes (k_mem k) (pp_buf (pipe_of k pp)) (unat n - h) \<and>
    (load_bytes (k_mem k) (pp_buf (pipe_of k pp)) (unat n - h) \<noteq> load_bytes (k_mem k) (src + of_nat h) (unat n - h) \<longrightarrow>
     load_bytes (k_mem k3) (dst + of_nat h) (unat n - h) \<noteq> load_bytes (k_mem k) (src + of_nat h) (unat n - h))"
proof -
  let ?P = "pipe_of k pp" and ?p = "unat (pp_wpos (pipe_of k pp))"
  let ?k0 = "upd_pipe pp (\<lambda>p. p\<lparr>pp_lock := 1\<rparr>) k"
  note at = assms(1) [unfolded pipe_at_def]
  have p: "?p < 1024" using at by (simp add: ring_wf_def)
  have h: "0 < h" "h < unat n" "h \<le> 1024" using p assms(8) by (simp_all add: h_def)
  have uh: "unat (of_nat h :: u32) = h" using h(3) by simp
  have ur: "unat (n - of_nat h) = unat n - h" using h uh by (simp add: unat_sub_if')
  have w: "pipe_write fw src n k = pipe_write_loop i fw pp src n 0 ?k0"
    using at assms(4) acquire_pipe_free by (simp add: pipe_write_def myproc_def)
  have le: "min (unat n) (1024 - fill ?P) = unat n" using assms(3,7) by simp
  obtain k1 where k1: "pipe_write_loop i fw pp src n 0 ?k0 = Inr (Some (sint n), k1)"
    "pipe_at k1 fr pp" "fill (pipe_of k1 pp) = unat n" "pp_buf (pipe_of k1 pp) = pp_buf ?P" "pp_rpos (pipe_of k1 pp) = pp_rpos ?P"
    "k_cpu_proc k1 = Some i" "k_mem k1 = copy_bytes (k_mem k) (pp_buf ?P + ucast (pp_wpos ?P)) src (unat n)"
    using pipe_write_loop_step [of pp ?k0 i fw src n 0] at assms(2-6) le
    by (auto simp: can_wake_frame pipe_at_def)
  have pos: "pp_rpos ?P = pp_wpos ?P"
    using assms(3) dist_next(1) at by (fastforce simp: fill_def ring_wf_def split: if_splits)
  have fr: "f_fs_file (file_of k1 fr) = PipeObj pp" using k1(2) by (simp add: pipe_at_def)
  obtain k2 where k2: "pipe_read fr dst (of_nat h) k1 = Inr (Some (int h), k2)" "pipe_at k2 fr pp" "k_cpu_proc k2 = Some i"
    "fill (pipe_of k2 pp) = unat n - h" "pp_buf (pipe_of k2 pp) = pp_buf ?P" "pp_rpos (pipe_of k2 pp) = ring_pos (pp_rpos ?P) h"
    "k_mem k2 = copy_bytes (k_mem k1) dst (pp_buf ?P + ucast (pp_rpos ?P)) h"
    using pipe_read_some [OF k1(2,6), of "of_nat h" dst] k1(3-5) h uh fr by auto
  have "ring_pos (pp_rpos ?P) h = 0" using p unfolding pos h_def ring_pos_def by simp
  then obtain k3 where k3: "pipe_read fr (dst + of_nat h) (n - of_nat h) k2 = Inr (Some (int (unat n - h)), k3)"
    "k_mem k3 = copy_bytes (k_mem k2) (dst + of_nat h) (pp_buf ?P) (unat n - h)"
    using pipe_read_some [OF k2(2,3), of "n - of_nat h" "dst + of_nat h"] k2(4-6) h ur by auto
  have "(ucast (pp_wpos ?P) :: addr) = of_nat ?p" by simp
  then show ?thesis
    using w k1(1,7) k2(1,7) k3 pos crossing_copies [where m = "k_mem k", OF assms(7) p _ h(2), of "pp_buf ?P" src dst] assms(9-11)
    by (auto simp: h_def)
qed

theorem pipe_wrap_corrupts_witness:
  "\<exists>k1 k2 k3. pipe_write (FTable 1) 0x80001041 2 (piped 1023 1023) = Inr (Some 2, k1) \<and>
     pipe_read (FTable 0) 0x80007000 1 k1 = Inr (Some 1, k2) \<and> pipe_read (FTable 0) 0x80007001 1 k2 = Inr (Some 1, k3) \<and>
     k_mem k3 0x80007001 \<noteq> k_mem (piped 1023 1023) 0x80001042"
proof -
  have mem: "k_mem (piped 1023 1023) a = ucast a" for a by (simp add: piped_def bss_kernel_def)
  show ?thesis
    using pipe_wrap_corrupts [where k = "piped 1023 1023" and fw = "FTable 1" and pp = 0 and fr = "FTable 0" and i = 0
        and n = 2 and src = "0x80001041" and dst = "0x80007000"] piped_facts [of 1023 1023] mem
    by (simp add: pipe_at_def) (auto simp: piped_def)
qed

end
