(* ===== verification/Kprintf.thy ===== *)
theory Kprintf
  imports Kstring
begin

text \<open>
  Formatted output: the two macros of \<^verbatim>\<open>include/printf-macro.h\<close> and the
  functions of \<^verbatim>\<open>src/kprintf.c\<close> and \<^verbatim>\<open>user/src/user-printf.c\<close> that
  instantiate them. Numbers are printed into the end of a buffer of 21
  characters; a format string is a list of characters, its arguments are seven
  register values, and a string argument is read through a parameter.
\<close>

definition DIGIT_BUF_SZ :: nat where [simp, kconsts]: "DIGIT_BUF_SZ = 21"

section \<open>Numbers\<close>

definition digit_char_of :: "int \<Rightarrow> char" where
  "digit_char_of digit = (if digit > 9 then char_of (97 + nat (digit - 10)) else char_of (48 + nat digit))"

function radix_loop :: "char list \<Rightarrow> int \<Rightarrow> int \<Rightarrow> int \<Rightarrow> (char list \<times> int) res" where
  "radix_loop buf dsti num radix =
     (if num > 0 \<and> dsti \<ge> 0 then
        bnd (put buf (nat dsti) (digit_char_of (num mod radix))) (\<lambda>buf.
        radix_loop buf (dsti - 1) (num div radix) radix)
      else Inr (buf, dsti))"
  by pat_completeness auto
termination
  by (relation "measure (\<lambda>(buf, dsti, num, radix). nat (dsti + 1))") auto

declare radix_loop.simps [simp del]

text \<open>
  \<open>PRINT_RADIX_IMPL\<close>: the buffer and the index of the first character.
  \<open>wrap\<close> is the negation of the number type.
\<close>

definition PRINT_RADIX_IMPL :: "(int \<Rightarrow> int) \<Rightarrow> int \<Rightarrow> int \<Rightarrow> char list \<Rightarrow> int \<Rightarrow> (char list \<times> int) res" where
  "PRINT_RADIX_IMPL wrap num radix buf sz =
     bnd (put buf (nat (sz - 1)) NUL) (\<lambda>buf.
     let dsti = sz - 2 in
     if num = 0 then bnd (put buf (nat dsti) (CHR ''0'')) (\<lambda>buf. Inr (buf, dsti))
     else
       let negative = num < 0; num = (if num < 0 then wrap (- num) else num) in
       bnd (radix_loop buf dsti num radix) (\<lambda>(buf, dsti).
       let dsti = dsti + 1 in
       if negative then bnd (put buf (nat (dsti - 1)) (CHR ''-'')) (\<lambda>buf. Inr (buf, dsti - 1))
       else Inr (buf, dsti)))"

definition wrap_long :: "int \<Rightarrow> int" where
  "wrap_long x = sint (of_int x :: regsize)"

definition kprint_radix :: "regsize \<Rightarrow> int \<Rightarrow> char list \<Rightarrow> int \<Rightarrow> (char list \<times> int) res" where
  "kprint_radix num radix buf sz = PRINT_RADIX_IMPL wrap_long (sint num) radix buf sz"

definition kprint_radixu :: "regsize \<Rightarrow> int \<Rightarrow> char list \<Rightarrow> int \<Rightarrow> (char list \<times> int) res" where
  "kprint_radixu num radix buf sz = PRINT_RADIX_IMPL id (uint num) radix buf sz"

definition print_radix :: "regsize \<Rightarrow> int \<Rightarrow> char list \<Rightarrow> int \<Rightarrow> (char list \<times> int) res" where
  "print_radix num radix buf sz = PRINT_RADIX_IMPL wrap_long (sint num) radix buf sz"

definition print_radixu :: "regsize \<Rightarrow> int \<Rightarrow> char list \<Rightarrow> int \<Rightarrow> (char list \<times> int) res" where
  "print_radixu num radix buf sz = PRINT_RADIX_IMPL id (uint num) radix buf sz"

text \<open>
  The string that the returned pointer refers to and the new contents of the
  digit buffer. \<open>kprintfvec\<close> has a local digit buffer, whose old contents are
  never read; the other two use the last 21 characters of the output buffer
  (they are written before the characters that follow are, so a numeral is read
  before anything else lands on it).
\<close>

definition number_str :: "(regsize \<Rightarrow> int \<Rightarrow> char list \<Rightarrow> int \<Rightarrow> (char list \<times> int) res) \<Rightarrow> regsize \<Rightarrow> int \<Rightarrow> char list \<Rightarrow>
    (string \<times> char list) res" where
  "number_str pr num radix buf =
     bnd (pr num radix buf (int DIGIT_BUF_SZ)) (\<lambda>(buf, i). Inr (cstr (drop (nat i) buf), buf))"

definition local_digits :: "(regsize \<Rightarrow> int \<Rightarrow> char list \<Rightarrow> int \<Rightarrow> (char list \<times> int) res) \<Rightarrow> regsize \<Rightarrow> int \<Rightarrow> 's \<Rightarrow>
    (string \<times> 's) res" where
  "local_digits pr num radix s =
     bnd (number_str pr num radix (replicate DIGIT_BUF_SZ NUL)) (\<lambda>(str, _). Inr (str, s))"

definition buf_digits :: "nat \<Rightarrow> (regsize \<Rightarrow> int \<Rightarrow> char list \<Rightarrow> int \<Rightarrow> (char list \<times> int) res) \<Rightarrow> regsize \<Rightarrow> int \<Rightarrow> char list \<Rightarrow>
    (string \<times> char list) res" where
  "buf_digits bufsize pr num radix buf =
     bnd (number_str pr num radix (take DIGIT_BUF_SZ (drop bufsize buf))) (\<lambda>(str, digits).
     Inr (str, take bufsize buf @ digits @ drop (bufsize + DIGIT_BUF_SZ) buf))"

section \<open>Format strings\<close>

text \<open>
  \<open>PRINTF_IMPL\<close> over its macro parameters: \<open>wr dsti c\<close> is \<open>_PRINTF_WRITE_CHAR\<close>,
  \<open>dg\<close> and \<open>dgu\<close> print a number with \<open>_PRINT_RADIX\<close> and \<open>_PRINT_RADIXU\<close>, \<open>rd\<close>
  reads a string argument. A verb that is none of those of the \<open>switch\<close> leaves
  \<open>tmp\<close> uninitialised.
\<close>

fun emit_str :: "(int \<Rightarrow> char \<Rightarrow> 's \<Rightarrow> 's res) \<Rightarrow> int \<Rightarrow> string \<Rightarrow> int \<Rightarrow> 's \<Rightarrow> (bool \<times> int \<times> 's) res" where
  "emit_str wr bufsize [] dsti s = Inr (False, dsti, s)"
| "emit_str wr bufsize (c # cs) dsti s =
     bnd (wr dsti c s) (\<lambda>s.
     if dsti + 1 \<ge> bufsize then Inr (True, dsti + 1, s)
     else emit_str wr bufsize cs (dsti + 1) s)"

definition verb_str :: "(regsize \<Rightarrow> int \<Rightarrow> 's \<Rightarrow> (string \<times> 's) res) \<Rightarrow> (regsize \<Rightarrow> int \<Rightarrow> 's \<Rightarrow> (string \<times> 's) res) \<Rightarrow>
    (regsize \<Rightarrow> string res) \<Rightarrow> char \<Rightarrow> regsize \<Rightarrow> 's \<Rightarrow> (string \<times> 's) res" where
  "verb_str dg dgu rd c arg s =
     (if c = CHR ''c'' then Inr (cstr [char_of (unat arg mod 256)], s)
      else if c = CHR ''d'' then dg arg 10 s
      else if c = CHR ''p'' then dgu arg 16 s
      else if c = CHR ''x'' then dg arg 16 s
      else if c = CHR ''s'' then bnd (rd arg) (\<lambda>str. Inr (str, s))
      else Inl BadCast)"

fun printf_loop :: "(int \<Rightarrow> char \<Rightarrow> 's \<Rightarrow> 's res) \<Rightarrow> (regsize \<Rightarrow> int \<Rightarrow> 's \<Rightarrow> (string \<times> 's) res) \<Rightarrow>
    (regsize \<Rightarrow> int \<Rightarrow> 's \<Rightarrow> (string \<times> 's) res) \<Rightarrow> (regsize \<Rightarrow> string res) \<Rightarrow> int \<Rightarrow> regsize list \<Rightarrow> nat \<Rightarrow>
    string \<Rightarrow> nat \<Rightarrow> int \<Rightarrow> 's \<Rightarrow> (int \<times> 's) res" where
  "printf_loop wr dg dgu rd bufsize args nargs [] argnum dsti s = Inr (dsti, s)"
| "printf_loop wr dg dgu rd bufsize args nargs (c # fmt) argnum dsti s =
     (if c = CHR ''%'' \<and> argnum < nargs then
        (case fmt of
           [] \<Rightarrow> Inl BadCast
         | v # fmt \<Rightarrow>
             if v = CHR ''%'' then
               bnd (wr dsti (CHR ''%'') s) (\<lambda>s.
               if dsti + 1 \<ge> bufsize then Inr (dsti + 1, s)
               else printf_loop wr dg dgu rd bufsize args nargs fmt argnum (dsti + 1) s)
             else
               bnd (if v = CHR ''p'' then
                      bnd (wr dsti (CHR ''0'') s) (\<lambda>s. bnd (wr (dsti + 1) (CHR ''x'') s) (\<lambda>s. Inr (dsti + 2, s)))
                    else Inr (dsti, s)) (\<lambda>(dsti, s).
               bnd (verb_str dg dgu rd v (args ! argnum) s) (\<lambda>(tmp, s).
               bnd (emit_str wr bufsize tmp dsti s) (\<lambda>(full, dsti, s).
               if full then Inr (dsti, s)
               else if dsti \<ge> bufsize then Inr (dsti, s)
               else printf_loop wr dg dgu rd bufsize args nargs fmt (argnum + 1) dsti s))))
      else
        bnd (wr dsti c s) (\<lambda>s.
        if dsti + 1 \<ge> bufsize then Inr (dsti + 1, s)
        else printf_loop wr dg dgu rd bufsize args nargs fmt argnum (dsti + 1) s))"

definition PRINTF_IMPL :: "(int \<Rightarrow> char \<Rightarrow> 's \<Rightarrow> 's res) \<Rightarrow> (regsize \<Rightarrow> int \<Rightarrow> 's \<Rightarrow> (string \<times> 's) res) \<Rightarrow>
    (regsize \<Rightarrow> int \<Rightarrow> 's \<Rightarrow> (string \<times> 's) res) \<Rightarrow> (regsize \<Rightarrow> string res) \<Rightarrow> int \<Rightarrow> nat \<Rightarrow> string \<Rightarrow>
    regsize list \<Rightarrow> 's \<Rightarrow> (int \<times> 's) res" where
  "PRINTF_IMPL wr dg dgu rd bufsize nargs fmt args s = printf_loop wr dg dgu rd bufsize args nargs fmt 0 0 s"

text \<open>\<open>kprintfvec\<close> writes to the console: the characters written, latest first.\<close>

definition console_write :: "int \<Rightarrow> char \<Rightarrow> string \<Rightarrow> string res" where
  "console_write dsti c console = Inr (c # console)"

definition kprintfvec :: "(regsize \<Rightarrow> string res) \<Rightarrow> string \<Rightarrow> regsize list \<Rightarrow> string \<Rightarrow> (int \<times> string) res" where
  "kprintfvec rd fmt args console =
     PRINTF_IMPL console_write (local_digits kprint_radix) (local_digits kprint_radixu) rd 4096 7 fmt args console"

definition buf_write :: "int \<Rightarrow> char \<Rightarrow> char list \<Rightarrow> char list res" where
  "buf_write dsti c buf = put buf (nat dsti) c"

definition ksprintfvec :: "(regsize \<Rightarrow> string res) \<Rightarrow> char list \<Rightarrow> regsize \<Rightarrow> string \<Rightarrow> regsize list \<Rightarrow> (int \<times> char list) res" where
  "ksprintfvec rd buf bufsz fmt args =
     (let bufsize = bufsz - of_nat DIGIT_BUF_SZ in
      PRINTF_IMPL buf_write (buf_digits (unat bufsize) kprint_radix) (buf_digits (unat bufsize) kprint_radixu)
        rd (uint bufsize) 7 fmt args buf)"

definition printfvecbuf :: "(regsize \<Rightarrow> string res) \<Rightarrow> string \<Rightarrow> regsize list \<Rightarrow> nat \<Rightarrow> char list \<Rightarrow> int \<Rightarrow> (int \<times> char list) res" where
  "printfvecbuf rd fmt args nargs buf bufsize =
     (let bufsize = bufsize - int DIGIT_BUF_SZ in
      PRINTF_IMPL buf_write (buf_digits (nat bufsize) print_radix) (buf_digits (nat bufsize) print_radixu)
        rd bufsize nargs fmt args buf)"

section \<open>Numerals\<close>

function radix_str :: "nat \<Rightarrow> nat \<Rightarrow> string" where
  "radix_str r n = (if r < 2 \<or> n < r then [digit_char_of (int n)]
                    else radix_str r (n div r) @ [digit_char_of (int (n mod r))])"
  by pat_completeness auto
termination
  by (relation "measure snd") (auto simp: div_less_dividend)

declare radix_str.simps [simp del]

lemma radix_str_small: "n < r \<Longrightarrow> radix_str r n = [digit_char_of (int n)]"
  by (simp add: radix_str.simps)

lemma radix_str_big: "2 \<le> r \<Longrightarrow> r \<le> n \<Longrightarrow> radix_str r n = radix_str r (n div r) @ [digit_char_of (int (n mod r))]"
  by (subst radix_str.simps) simp

lemma radix_loop_0: "radix_loop buf dsti 0 radix = Inr (buf, dsti)"
  by (subst radix_loop.simps) simp

lemma update_split:
  "d < length buf \<Longrightarrow> l \<le> d \<Longrightarrow> take (d - l) (buf[d := c]) @ xs @ drop d (buf[d := c]) =
     take (d - l) buf @ (xs @ [c]) @ drop (Suc d) buf"
  by (simp add: take_update_cancel drop_update_swap flip: Cons_nth_drop_Suc)

lemma radix_loop_eq:
  assumes "0 < n" "2 \<le> r" "length (radix_str r n) \<le> Suc d" "d < length buf"
  shows "radix_loop buf (int d) (int n) (int r) =
    Inr (take (Suc d - length (radix_str r n)) buf @ radix_str r n @ drop (Suc d) buf,
         int d - int (length (radix_str r n)))"
  using assms
proof (induction n arbitrary: d buf rule: less_induct)
  case (less n)
  let ?c = "digit_char_of (int (n mod r))"
  have step: "radix_loop buf (int d) (int n) (int r) =
      radix_loop (buf[d := ?c]) (int d - 1) (int (n div r)) (int r)"
    using less.prems by (subst radix_loop.simps) (simp add: put_def zmod_int zdiv_int)
  show ?case
  proof (cases "n < r")
    case True
    then have "n div r = 0" "radix_str r n = [?c]" by (simp_all add: radix_str_small)
    then show ?thesis
      using step less.prems(4) radix_loop_0 by (simp add: upd_conv_take_nth_drop)
  next
    case False
    then have s: "radix_str r n = radix_str r (n div r) @ [?c]" "0 < n div r" "n div r < n"
      using less.prems(1,2) by (simp_all add: radix_str_big div_greater_zero_iff)
    then obtain d' where d: "d = Suc d'" using less.prems(3) by (cases d) (auto, subst (asm) radix_str.simps, auto split: if_splits)
    have "radix_loop (buf[d := ?c]) (int d') (int (n div r)) (int r) =
        Inr (take (Suc d' - length (radix_str r (n div r))) (buf[d := ?c]) @ radix_str r (n div r) @ drop (Suc d') (buf[d := ?c]),
             int d' - int (length (radix_str r (n div r))))"
      using less.prems s d by (intro less.IH) simp_all
    moreover have "int d - 1 = int d'" using d by simp
    ultimately show ?thesis
      using step s(1) d less.prems update_split [of d buf "length (radix_str r (n div r))" ?c "radix_str r (n div r)"]
      by simp
  qed
qed

lemma radix_str_length: "2 \<le> r \<Longrightarrow> 0 < k \<Longrightarrow> n < r ^ k \<Longrightarrow> length (radix_str r n) \<le> k"
proof (induction k arbitrary: n)
  case 0
  then show ?case by simp
next
  case (Suc k)
  show ?case
  proof (cases "n < r")
    case True
    then show ?thesis by (simp add: radix_str_small)
  next
    case False
    then have "0 < k" using Suc.prems by (cases k) auto
    moreover have "n div r < r ^ k"
      using Suc.prems by (simp add: less_mult_imp_div_less mult.commute)
    ultimately show ?thesis using Suc.IH [of "n div r"] Suc.prems(1) False by (simp add: radix_str_big)
  qed
qed

lemma digit_not_nul: "0 \<le> d \<Longrightarrow> d < 16 \<Longrightarrow> digit_char_of d \<noteq> NUL"
proof -
  assume d: "0 \<le> d" "d < 16"
  have "of_char (digit_char_of d) = (if d > 9 then 97 + nat (d - 10) else 48 + nat d)"
    using d by (simp add: digit_char_of_def bit_0)
  moreover have "of_char NUL = (0 :: nat)" by (simp add: NUL_def)
  ultimately show ?thesis by (metis add_is_0 zero_neq_numeral)
qed

lemma radix_str_no_nul: "r \<le> 16 \<Longrightarrow> 2 \<le> r \<Longrightarrow> list_all (\<lambda>c. c \<noteq> NUL) (radix_str r n)"
proof (induction r n rule: radix_str.induct)
  case (1 r n)
  show ?case
  proof (cases "n < r")
    case True
    then show ?thesis using 1 by (simp add: radix_str_small digit_not_nul)
  next
    case False
    moreover have "n mod r < 16" using 1(2,3) by (meson less_le_trans mod_less_divisor zero_less_numeral)
    ultimately show ?thesis using 1 by (simp add: radix_str_big digit_not_nul)
  qed
qed

text \<open>A number whose numeral fits the digit buffer with a sign in front.\<close>

lemma drop_update_same: "j < length xs \<Longrightarrow> drop j (xs[j := c]) = c # drop (Suc j) xs"
  by (simp add: Cons_nth_drop_Suc [symmetric])

lemma print_radix_eq:
  assumes "num \<noteq> 0" "2 \<le> r" "r \<le> 16" "n = nat (if num < 0 then wrap (- num) else num)" "0 < n"
    "length (radix_str r n) \<le> 19" "length b = 21"
  shows "\<exists>b' i. PRINT_RADIX_IMPL wrap num (int r) b 21 = Inr (b', i) \<and> length b' = 21 \<and>
    cstr (drop (nat i) b') = (if num < 0 then ''-'' else []) @ radix_str r n"
proof -
  let ?s = "radix_str r n" and ?b = "b[20 := NUL]"
  let ?t = "take (20 - length ?s) b"
  have n: "(if num < 0 then wrap (- num) else num) = int n" using assms(4,5) by simp
  have b: "drop 20 ?b = [NUL]" using assms(7) by (simp add: list_eq_iff_nth_eq)
  have loop: "radix_loop ?b 19 (int n) (int r) = Inr (?t @ ?s @ [NUL], 19 - int (length ?s))"
    using radix_loop_eq [OF assms(5,2), of 19 ?b] assms(6,7) b by simp
  have z: "cstr (?s @ [NUL]) = ?s" "cstr (CHR ''-'' # ?s @ [NUL]) = CHR ''-'' # ?s"
    using cstr_append [of ?s "[]"] cstr_append [of "CHR ''-'' # ?s" "[]"]
      radix_str_no_nul [OF assms(3,2), of n] by (simp_all add: NUL_def)
  have len: "length (?t @ ?s @ [NUL]) = 21" "length ?t = 20 - length ?s" using assms(6,7) by simp_all
  have neg: "drop (19 - length ?s) ((?t @ ?s @ [NUL])[19 - length ?s := CHR ''-'']) = CHR ''-'' # ?s @ [NUL]"
    using drop_update_same [of "19 - length ?s" "?t @ ?s @ [NUL]"] len assms(6)
    by (simp only: len(1) Suc_diff_le [of "length ?s" 19, symmetric]) (simp add: assms(7))
  have i: "nat (20 - int (length ?s)) = 20 - length ?s" "nat (19 - int (length ?s)) = 19 - length ?s"
    "19 - length ?s < 21" by auto
  show ?thesis
    using assms(1,6,7) loop z neg len i
    by (simp add: PRINT_RADIX_IMPL_def n Let_def put_def)
qed

definition signed_str :: "nat \<Rightarrow> int \<Rightarrow> string" where
  "signed_str r i = (if i < 0 then ''-'' else []) @ radix_str r (nat \<bar>i\<bar>)"

lemma print_zero:
  "length b = 21 \<Longrightarrow> \<exists>b' i. PRINT_RADIX_IMPL wrap 0 r b 21 = Inr (b', i) \<and> length b' = 21 \<and>
     cstr (drop (nat i) b') = ''0''"
  by (simp add: PRINT_RADIX_IMPL_def put_def Let_def drop_update_same drop_update_swap numeral_2_eq_2 [symmetric])
    (simp add: cstr_def NUL_def Cons_nth_drop_Suc [symmetric])

lemma number_signed:
  assumes "r = 10 \<or> r = 16" "sint num \<noteq> - (2 ^ 63)" "length b = DIGIT_BUF_SZ" "pr = kprint_radix \<or> pr = print_radix"
  shows "\<exists>b'. number_str pr num (int r) b = Inr (signed_str r (sint num), b') \<and> length b' = DIGIT_BUF_SZ"
proof (cases "sint num = 0")
  case True
  then show ?thesis
    using print_zero [of b wrap_long "int r"] assms(3,4)
    by (auto simp: number_str_def kprint_radix_def print_radix_def signed_str_def radix_str.simps digit_char_of_def char_of_def bit_0)
next
  case False
  have rng: "- (2 ^ 63) \<le> sint num" "sint num < 2 ^ 63"
    using sint_greater_eq [of num] sint_less [of num] by simp_all
  then have w: "wrap_long (- sint num) = - sint num"
    using assms(2) unfolding wrap_long_def by (subst signed_of_int) (simp add: signed_take_bit_int_eq_self)
  then have n: "nat \<bar>sint num\<bar> = nat (if sint num < 0 then wrap_long (- sint num) else sint num)" by simp
  have "nat \<bar>sint num\<bar> < 2 ^ 63" using rng assms(2) by (simp add: nat_less_iff)
  then have "nat \<bar>sint num\<bar> < r ^ 19" using assms(1) by auto
  then have len: "length (radix_str r (nat \<bar>sint num\<bar>)) \<le> 19"
    using assms(1) by (intro radix_str_length) auto
  show ?thesis
    using print_radix_eq [where wrap = wrap_long, OF False _ _ n _ len, of b] False assms(1,3,4)
    by (auto simp: number_str_def kprint_radix_def print_radix_def signed_str_def)
qed

lemma number_unsigned:
  assumes "length b = DIGIT_BUF_SZ" "pr = kprint_radixu \<or> pr = print_radixu"
  shows "\<exists>b'. number_str pr num 16 b = Inr (radix_str 16 (unat num), b') \<and> length b' = DIGIT_BUF_SZ"
proof (cases "num = 0")
  case True
  then show ?thesis
    using print_zero [of b id 16] assms
    by (auto simp: number_str_def kprint_radixu_def print_radixu_def radix_str.simps digit_char_of_def char_of_def bit_0)
next
  case False
  then have u: "uint num \<noteq> 0" "\<not> uint num < 0" "0 < unat num"
    by (simp_all add: unat_gt_0 uint_0_iff)
  have "unat num < 16 ^ 16" using unat_lt64 [of num] by simp
  then have "unat num < 16 ^ 19" by simp
  then have len: "length (radix_str 16 (unat num)) \<le> 19"
    by (intro radix_str_length) auto
  have n: "unat num = nat (if uint num < 0 then id (- uint num) else uint num)" by simp
  have "\<exists>b' i. PRINT_RADIX_IMPL id (uint num) 16 b 21 = Inr (b', i) \<and> length b' = 21 \<and>
      cstr (drop (nat i) b') = radix_str 16 (unat num)"
    using print_radix_eq [where wrap = id, OF u(1) _ _ n u(3) len, of b] assms(1) u(2) by simp
  then show ?thesis
    using assms(2) by (auto simp: number_str_def kprint_radixu_def print_radixu_def)
qed

text \<open>
  The decimal and hexadecimal numerals that \<open>kprint_radix\<close> and its userland
  copy print, sign included, are those of the number, except for the most
  negative \<open>long\<close>, of which only the sign appears; \<open>kprint_radixu\<close> prints every
  unsigned number in hexadecimal. The digit buffer of 21 characters is enough.
\<close>

theorem print_radix_correct:
  assumes "r = 10 \<or> r = 16" "length b = DIGIT_BUF_SZ" "pr = kprint_radix \<or> pr = print_radix"
    "pru = kprint_radixu \<or> pru = print_radixu"
  shows "(\<exists>b'. number_str pr num (int r) b =
      Inr (if sint num = - (2 ^ 63) then ''-'' else signed_str r (sint num), b') \<and> length b' = DIGIT_BUF_SZ) \<and>
    (\<exists>b'. number_str pru num 16 b = Inr (radix_str 16 (unat num), b') \<and> length b' = DIGIT_BUF_SZ)"
proof
  show "\<exists>b'. number_str pru num 16 b = Inr (radix_str 16 (unat num), b') \<and> length b' = DIGIT_BUF_SZ"
    using assms(2,4) by (rule number_unsigned)
  show "\<exists>b'. number_str pr num (int r) b =
      Inr (if sint num = - (2 ^ 63) then ''-'' else signed_str r (sint num), b') \<and> length b' = DIGIT_BUF_SZ"
  proof (cases "sint num = - (2 ^ 63)")
    case True
    have "wrap_long (- (- (2 ^ 63))) = - (2 ^ 63)" by (simp add: wrap_long_def)
    then have "\<exists>b' i. PRINT_RADIX_IMPL wrap_long (- (2 ^ 63)) (int r) b 21 = Inr (b', i) \<and> length b' = 21 \<and>
        cstr (drop (nat i) b') = ''-''"
      using assms(2) by (simp add: PRINT_RADIX_IMPL_def put_def Let_def radix_loop.simps drop_update_same drop_update_swap)
        (simp add: cstr_def NUL_def Cons_nth_drop_Suc [symmetric])
    then show ?thesis
      using True assms(3) by (auto simp: number_str_def kprint_radix_def print_radix_def)
  next
    case False
    then show ?thesis using number_signed [OF assms(1) False assms(2,3)] by simp
  qed
qed

theorem print_radix_correct_witness:
  "\<exists>b'. number_str kprint_radix (- 255) 16 (replicate DIGIT_BUF_SZ NUL) = Inr (''-ff'', b')"
  using print_radix_correct [of 16 "replicate DIGIT_BUF_SZ NUL" kprint_radix kprint_radixu "- 255"]
  by (auto simp: signed_str_def radix_str.simps digit_char_of_def char_of_def bit_0 simp del: replicate.simps)

section \<open>Format strings against a reference\<close>

text \<open>
  What a format string with its arguments stands for. \<open>None\<close>: an unknown verb,
  a percent sign at the end, a string argument that cannot be read, or the most
  negative number in a signed verb.
\<close>

definition verb_ref :: "(regsize \<Rightarrow> string res) \<Rightarrow> char \<Rightarrow> regsize \<Rightarrow> string option" where
  "verb_ref rd v a =
     (if v = CHR ''c'' then Some (if unat a mod 256 = 0 then [] else [char_of (unat a mod 256)])
      else if v = CHR ''d'' \<and> sint a \<noteq> - (2 ^ 63) then Some (signed_str 10 (sint a))
      else if v = CHR ''p'' then Some (''0x'' @ radix_str 16 (unat a))
      else if v = CHR ''x'' \<and> sint a \<noteq> - (2 ^ 63) then Some (signed_str 16 (sint a))
      else if v = CHR ''s'' then (case rd a of Inr s \<Rightarrow> Some s | Inl _ \<Rightarrow> None)
      else None)"

fun format_ref :: "(regsize \<Rightarrow> string res) \<Rightarrow> string \<Rightarrow> regsize list \<Rightarrow> string option" where
  "format_ref rd [] args = Some []"
| "format_ref rd (c # fmt) args =
     (if c = CHR ''%'' \<and> args \<noteq> [] then
        (case fmt of
           [] \<Rightarrow> None
         | v # fmt \<Rightarrow>
             if v = CHR ''%'' then map_option ((#) v) (format_ref rd fmt args)
             else (case verb_ref rd v (hd args) of
                     None \<Rightarrow> None
                   | Some s \<Rightarrow> map_option ((@) s) (format_ref rd fmt (tl args))))
      else map_option ((#) c) (format_ref rd fmt args))"

text \<open>
  Where formatted output goes: \<open>holds w s\<close> says that the sink contains the
  characters \<open>w\<close>. Writing the next character appends it while there is room, and
  printing a number returns its numeral and keeps what has been written.
\<close>

lemma cstr_char: "cstr [char_of (n mod 256)] = (if n mod 256 = 0 then [] else [char_of (n mod 256 :: nat)])"
proof -
  have "of_char (char_of n :: char) = n mod 256" by simp
  moreover have "of_char NUL = (0 :: nat)" by (simp add: NUL_def)
  ultimately have "char_of n = NUL \<longleftrightarrow> n mod 256 = 0"
    by (metis char_of_mod_256 char_of_char)
  then show ?thesis by (simp add: cstr_def)
qed

locale char_sink =
  fixes wr :: "int \<Rightarrow> char \<Rightarrow> 's \<Rightarrow> 's res"
    and dg dgu :: "regsize \<Rightarrow> int \<Rightarrow> 's \<Rightarrow> (string \<times> 's) res"
    and holds :: "string \<Rightarrow> 's \<Rightarrow> bool"
    and room :: nat
  assumes wr_holds: "holds w s \<Longrightarrow> length w < room \<Longrightarrow> \<exists>s'. wr (int (length w)) c s = Inr s' \<and> holds (w @ [c]) s'"
    and dg_holds: "holds w s \<Longrightarrow> length w \<le> room \<Longrightarrow> r = 10 \<or> r = 16 \<Longrightarrow> sint a \<noteq> - (2 ^ 63) \<Longrightarrow>
      \<exists>s'. dg a (int r) s = Inr (signed_str r (sint a), s') \<and> holds w s'"
    and dgu_holds: "holds w s \<Longrightarrow> length w \<le> room \<Longrightarrow>
      \<exists>s'. dgu a 16 s = Inr (radix_str 16 (unat a), s') \<and> holds w s'"
begin

lemma emit_str_holds:
  "holds w s \<Longrightarrow> length w + length str < room \<Longrightarrow>
   \<exists>s'. emit_str wr (int room) str (int (length w)) s = Inr (False, int (length w + length str), s') \<and> holds (w @ str) s'"
proof (induction str arbitrary: w s)
  case Nil
  then show ?case by simp
next
  case (Cons c cs)
  then obtain s1 where "wr (int (length w)) c s = Inr s1" "holds (w @ [c]) s1"
    using wr_holds [of w s c] by auto
  then show ?case using Cons.IH [of "w @ [c]" s1] Cons.prems by (simp add: ac_simps)
qed

lemma verb_holds:
  assumes "holds w s" "verb_ref rd v a = Some str" "length w + length str < room"
  shows "\<exists>d s1 t s2 s3. (if v = CHR ''p'' then
        bnd (wr (int (length w)) (CHR ''0'') s) (\<lambda>s. bnd (wr (int (length w) + 1) (CHR ''x'') s) (\<lambda>s. Inr (int (length w) + 2, s)))
      else Inr (int (length w), s)) = Inr (d, s1) \<and> verb_str dg dgu rd v a s1 = Inr (t, s2) \<and>
    emit_str wr (int room) t d s2 = Inr (False, int (length w + length str), s3) \<and> holds (w @ str) s3"
proof (cases "v = CHR ''p''")
  case True
  then have str: "str = ''0x'' @ radix_str 16 (unat a)" using assms(2) by (simp add: verb_ref_def)
  obtain s1 where s1: "wr (int (length w)) (CHR ''0'') s = Inr s1" "holds (w @ ''0'') s1"
    using wr_holds [OF assms(1)] assms(3) str by auto
  then obtain s2 where s2: "wr (int (length w) + 1) (CHR ''x'') s1 = Inr s2" "holds (w @ ''0x'') s2"
    using wr_holds [of "w @ ''0''" s1 "CHR ''x''"] assms(3) str by (auto simp: ac_simps)
  then obtain s3 where s3: "dgu a 16 s2 = Inr (radix_str 16 (unat a), s3)" "holds (w @ ''0x'') s3"
    using dgu_holds [of "w @ ''0x''" s2 a] assms(3) str by auto
  then show ?thesis
    using s1 s2 True str assms(3) emit_str_holds [of "w @ ''0x''" s3 "radix_str 16 (unat a)"]
    by (simp add: verb_str_def ac_simps)
next
  case False
  have "\<exists>s2. verb_str dg dgu rd v a s = Inr (str, s2) \<and> holds w s2"
    using assms dg_holds [of w s 10 a] dg_holds [of w s 16 a] False
    by (auto simp: verb_str_def verb_ref_def cstr_char simp del: char_of_mod_256 split: if_splits sum.splits)
  then show ?thesis
    using emit_str_holds [OF _ assms(3)] False by fastforce
qed

text \<open>A literal character, given the rest of the format.\<close>

lemma literal_holds:
  assumes "holds w s" "map_option ((#) x) (format_ref rd ys as) = Some out" "length w + length out < room"
    and rest: "\<And>w s out. holds w s \<Longrightarrow> format_ref rd ys as = Some out \<Longrightarrow> length w + length out < room \<Longrightarrow>
      \<exists>s'. loop (int (length w)) s = Inr (int (length w + length out), s') \<and> holds (w @ out) s'"
  shows "\<exists>s'. bnd (wr (int (length w)) x s) (\<lambda>s.
      if int (length w) + 1 \<ge> int room then Inr (int (length w) + 1, s) else loop (int (length w) + 1) s) =
      Inr (int (length w + length out), s') \<and> holds (w @ out) s'"
proof -
  obtain o' where o: "out = x # o'" "format_ref rd ys as = Some o'" using assms(2) by auto
  obtain s1 where s1: "wr (int (length w)) x s = Inr s1" "holds (w @ [x]) s1"
    using wr_holds [OF assms(1)] assms(3) o by auto
  then show ?thesis using rest [OF s1(2) o(2)] assms(3) o by (auto simp: ac_simps)
qed

lemma printf_holds:
  "holds w s \<Longrightarrow> format_ref rd fmt (drop n args) = Some out \<Longrightarrow> n \<le> length args \<Longrightarrow> length w + length out < room \<Longrightarrow>
   \<exists>s'. printf_loop wr dg dgu rd (int room) args (length args) fmt n (int (length w)) s =
     Inr (int (length w + length out), s') \<and> holds (w @ out) s'"
proof (induction fmt arbitrary: w s n out rule: length_induct)
  case (1 fmt)
  have lit: "\<exists>s'. bnd (wr (int (length w)) x s) (\<lambda>s. if int (length w) + 1 \<ge> int room then Inr (int (length w) + 1, s)
      else printf_loop wr dg dgu rd (int room) args (length args) ys n (int (length w) + 1) s) =
      Inr (int (length w + length out), s') \<and> holds (w @ out) s'"
    if "length ys < length fmt" "map_option ((#) x) (format_ref rd ys (drop n args)) = Some out" for x ys
    using "1.IH" [rule_format, OF that(1)] "1.prems"(3) by (intro literal_holds [OF "1.prems"(1) that(2) "1.prems"(4)]) blast
  consider "fmt = []" | c cs where "fmt = c # cs" "\<not> (c = CHR ''%'' \<and> n < length args)"
    | v vs where "fmt = CHR ''%'' # v # vs" "n < length args"
    using "1.prems"(2) by (cases fmt; cases "tl fmt") (auto split: if_splits)
  then show ?case
  proof cases
    case 1
    then show ?thesis using "1.prems" by auto
  next
    case (2 c cs)
    then have "map_option ((#) c) (format_ref rd cs (drop n args)) = Some out" using "1.prems"(2) by auto
    with lit [of cs c] 2 show ?thesis by auto
  next
    case (3 v vs)
    show ?thesis
    proof (cases "v = CHR ''%''")
      case True
      with "1.prems"(2) 3 have "map_option ((#) v) (format_ref rd vs (drop n args)) = Some out" by auto
      with lit [of vs v] 3 True show ?thesis by auto
    next
      case v: False
      then obtain str o' where o: "verb_ref rd v (args ! n) = Some str" "format_ref rd vs (drop (Suc n) args) = Some o'"
        "out = str @ o'"
        using "1.prems"(2) 3 by (auto simp: hd_drop_conv_nth tl_drop drop_Suc split: option.splits)
      then obtain d s1 t s2 s3 where s: "(if v = CHR ''p'' then
          bnd (wr (int (length w)) (CHR ''0'') s) (\<lambda>s. bnd (wr (int (length w) + 1) (CHR ''x'') s) (\<lambda>s. Inr (int (length w) + 2, s)))
        else Inr (int (length w), s)) = Inr (d, s1)" "verb_str dg dgu rd v (args ! n) s1 = Inr (t, s2)"
        "emit_str wr (int room) t d s2 = Inr (False, int (length w + length str), s3)" "holds (w @ str) s3"
        using verb_holds [OF "1.prems"(1), of rd v "args ! n" str] "1.prems"(4) by auto
      have "\<exists>s'. printf_loop wr dg dgu rd (int room) args (length args) vs (Suc n) (int (length (w @ str))) s3 =
          Inr (int (length (w @ str) + length o'), s') \<and> holds ((w @ str) @ o') s'"
        using "1.IH" [rule_format, OF _ s(4) o(2)] 3 "1.prems"(4) o(3) by simp
      then show ?thesis using v 3 s(2,3) "1.prems"(4) o(3) by (simp add: s(1) ac_simps)
    qed
  qed
qed

end

interpretation console_sink: char_sink console_write "local_digits kprint_radix" "local_digits kprint_radixu"
  "\<lambda>w s. s = rev w @ console" 4096 for console
proof unfold_locales
  show "\<exists>s'. local_digits kprint_radix a (int r) s = Inr (signed_str r (sint a), s') \<and> s' = rev w @ console"
    if "s = rev w @ console" "r = 10 \<or> r = 16" "sint a \<noteq> - (2 ^ 63)" for w s r a
    using number_signed [OF that(2,3), of "replicate DIGIT_BUF_SZ NUL" kprint_radix] that(1)
    by (auto simp: local_digits_def simp del: replicate.simps)
  show "\<exists>s'. local_digits kprint_radixu a 16 s = Inr (radix_str 16 (unat a), s') \<and> s' = rev w @ console"
    if "s = rev w @ console" for w s a
    using number_unsigned [of "replicate DIGIT_BUF_SZ NUL" kprint_radixu a] that
    by (auto simp: local_digits_def simp del: replicate.simps)
qed (auto simp: console_write_def)

text \<open>A buffer of \<open>n\<close> characters behind which the digit buffer lies.\<close>

definition buf_holds :: "nat \<Rightarrow> string \<Rightarrow> char list \<Rightarrow> bool" where
  "buf_holds n w buf \<longleftrightarrow> n + DIGIT_BUF_SZ \<le> length buf \<and> take (length w) buf = w"

lemma buf_digits_holds:
  assumes "buf_holds n w s" "length w \<le> n"
    "\<And>b. length b = DIGIT_BUF_SZ \<Longrightarrow> \<exists>b'. number_str pr a r b = Inr (str, b') \<and> length b' = DIGIT_BUF_SZ"
  shows "\<exists>s'. buf_digits n pr a r s = Inr (str, s') \<and> buf_holds n w s'"
proof -
  have "length (take DIGIT_BUF_SZ (drop n s)) = DIGIT_BUF_SZ" using assms(1) by (auto simp: buf_holds_def min_def)
  from assms(3) [OF this] obtain b' where b': "number_str pr a r (take DIGIT_BUF_SZ (drop n s)) = Inr (str, b')"
    "length b' = DIGIT_BUF_SZ" by blast
  then show ?thesis
    using assms(1,2) by (simp add: buf_digits_def buf_holds_def)
qed

lemma buf_write_holds:
  assumes "buf_holds n w s" "length w < n"
  shows "\<exists>s'. buf_write (int (length w)) c s = Inr s' \<and> buf_holds n (w @ [c]) s'"
  using assms by (auto simp: buf_write_def put_def buf_holds_def take_Suc_conv_app_nth)

interpretation buf_sink: char_sink buf_write "buf_digits n kprint_radix" "buf_digits n kprint_radixu" "buf_holds n" n for n
  by unfold_locales (use buf_write_holds buf_digits_holds number_signed number_unsigned in blast)+

interpretation user_buf_sink: char_sink buf_write "buf_digits n print_radix" "buf_digits n print_radixu" "buf_holds n" n for n
  by unfold_locales (use buf_write_holds buf_digits_holds number_signed number_unsigned in blast)+

text \<open>
  C18: \<open>kprintfvec\<close> prints to the console, and \<open>ksprintfvec\<close> and \<open>printfvecbuf\<close> write
  to the front of their buffer, exactly the text that the format string stands
  for, and return its length, as long as it is shorter than the limit.
\<close>

theorem printf_correct:
  assumes "format_ref rd fmt args = Some out" "length args = 7"
  shows "(length out < 4096 \<longrightarrow> kprintfvec rd fmt args console = Inr (int (length out), rev out @ console)) \<and>
    (length out < n \<and> n + DIGIT_BUF_SZ \<le> length buf \<and> length buf < 2 ^ 31 \<longrightarrow>
      (\<exists>buf'. ksprintfvec rd buf (of_nat (n + DIGIT_BUF_SZ)) fmt args = Inr (int (length out), buf') \<and>
        take (length out) buf' = out) \<and>
      (\<exists>buf'. printfvecbuf rd fmt args 7 buf (int (n + DIGIT_BUF_SZ)) = Inr (int (length out), buf') \<and>
        take (length out) buf' = out))"
proof (intro conjI impI; (elim conjE)?)
  assume "length out < 4096"
  then show "kprintfvec rd fmt args console = Inr (int (length out), rev out @ console)"
    using console_sink.printf_holds [where console = console and w = "[]" and s = console, of rd fmt 0 args out] assms
    by (simp add: kprintfvec_def PRINTF_IMPL_def)
next
  assume n: "length out < n" "n + DIGIT_BUF_SZ \<le> length buf" "length buf < 2 ^ 31"
  then have u: "unat (of_nat n :: regsize) = n" by (simp add: unat_of_nat)
  then have "uint (of_nat n :: regsize) = int n" by (simp add: uint_nat)
  then show "\<exists>buf'. ksprintfvec rd buf (of_nat (n + DIGIT_BUF_SZ)) fmt args = Inr (int (length out), buf') \<and>
        take (length out) buf' = out"
    using buf_sink.printf_holds [of n "[]" buf rd fmt 0 args out] assms n u
    by (auto simp: ksprintfvec_def PRINTF_IMPL_def buf_holds_def)
  show "\<exists>buf'. printfvecbuf rd fmt args 7 buf (int (n + DIGIT_BUF_SZ)) = Inr (int (length out), buf') \<and>
        take (length out) buf' = out"
    using user_buf_sink.printf_holds [of n "[]" buf rd fmt 0 args out] assms n
    by (auto simp: printfvecbuf_def PRINTF_IMPL_def buf_holds_def)
qed

theorem printf_correct_witness:
  "kprintfvec (\<lambda>_. Inr ''sh'') ''pid %d: %s%%'' [- 12, 0, 0, 0, 0, 0, 0] '''' = Inr (12, rev ''pid -12: sh%'')"
proof -
  have "format_ref (\<lambda>_. Inr ''sh'') ''pid %d: %s%%'' [- 12, 0, 0, 0, 0, 0, 0] = Some ''pid -12: sh%''"
    by (simp add: verb_ref_def signed_str_def radix_str.simps digit_char_of_def char_of_def bit_0)
  from printf_correct [OF this, where console = "[]"] show ?thesis by simp
qed

end
