(* ===== verification/Bifs.thy ===== *)
theory Bifs
  imports Procbase
begin

text \<open>
  The baked-in file system (\<^verbatim>\<open>src/bakedinfs.c\<close>) and the table of user programs
  (\<^verbatim>\<open>src/proc_test.c\<close>) that its directory \<^verbatim>\<open>/bin\<close> lists. Directories and files
  are entries of two tables; a pointer to one is its index. A path is a string;
  its character at the length of the string is the terminating zero, and what
  lies behind that must not be read.
\<close>

section \<open>User programs\<close>

definition MAX_USERLAND_PROGS :: nat where [simp, kconsts]: "MAX_USERLAND_PROGS = 32"

text \<open>The names in the table; its other entries are zero. The entry points come from the linker.\<close>

definition userland_programs :: "string list" where
  "userland_programs = [''sh'', ''hello'', ''sysinfo'', ''fmt'', ''hang'', ''ps'', ''cat'', ''coma'', ''wc'', ''gpio'',
     ''iter'', ''testprintf'', ''fibd'', ''fib'', ''wait'', ''ls'', ''clock'', ''echo'']"

definition find_user_program :: "string \<Rightarrow> string option" where
  "find_user_program name = map_option ((!) userland_programs)
     (find_index (\<lambda>p. strncmp name p 16 = 0) userland_programs)"

section \<open>Paths\<close>

definition path_at :: "string \<Rightarrow> nat \<Rightarrow> char res" where
  "path_at path pos = (if pos < length path then Inr (path ! pos)
                       else if pos = length path then Inr NUL else Inl OutOfBounds)"

function next_slash :: "string \<Rightarrow> nat \<Rightarrow> nat res" where
  "next_slash path pos =
     bnd (path_at path pos) (\<lambda>ch.
     if ch \<noteq> NUL \<and> ch \<noteq> CHR ''/'' then next_slash path (pos + 1) else Inr pos)"
  by pat_completeness auto
termination
  by (relation "measure (\<lambda>(path, pos). length path - pos)") (auto simp: path_at_def split: if_splits)

declare next_slash.simps [simp del]

section \<open>Tables\<close>

definition upd_dir :: "nat \<Rightarrow> (bifs_directory_t \<Rightarrow> bifs_directory_t) \<Rightarrow> kernel \<Rightarrow> kernel" where
  "upd_dir i f k = k\<lparr>k_dirs := (k_dirs k)[i := f (k_dirs k ! i)]\<rparr>"

definition upd_bfile :: "nat \<Rightarrow> (bifs_file_t \<Rightarrow> bifs_file_t) \<Rightarrow> kernel \<Rightarrow> kernel" where
  "upd_bfile i f k = k\<lparr>k_files := (k_files k)[i := f (k_files k ! i)]\<rparr>"

definition bifs_allocate_dir :: "kernel \<Rightarrow> nat option \<times> kernel" where
  "bifs_allocate_dir k =
     (case find_index (\<lambda>d. bd_flags d = 0) (k_dirs k) of
        Some i \<Rightarrow> (Some i, upd_dir i (\<lambda>d. d\<lparr>bd_flags := BIFS_READABLE, bd_lsdir := BifsLs\<rparr>) k)
      | None \<Rightarrow> (None, k))"

definition bifs_allocate_file :: "kernel \<Rightarrow> nat option \<times> kernel" where
  "bifs_allocate_file k =
     (case find_index (\<lambda>f. bf_flags f = 0) (k_files k) of
        Some i \<Rightarrow> (Some i, upd_bfile i (\<lambda>f. f\<lparr>bf_flags := BIFS_READABLE\<rparr>) k)
      | None \<Rightarrow> (None, k))"

text \<open>The string that the name of a directory points to.\<close>

definition dir_name :: "kernel \<Rightarrow> bifs_directory_t \<Rightarrow> string res" where
  "dir_name k d = (case bd_name d of
       NoName \<Rightarrow> Inl NullDeref
     | LitName s \<Rightarrow> Inr s
     | PidDir i \<Rightarrow> Inr (cstr (p_piddir (proc_of k i))))"

section \<open>Lookup\<close>

fun opendir_loop :: "nat list \<Rightarrow> nat \<Rightarrow> string \<Rightarrow> u32 \<Rightarrow> kernel \<Rightarrow> nat option res" where
  "opendir_loop [] parent name n k = Inr None"
| "opendir_loop (i # is) parent name n k =
     (if bd_parent (k_dirs k ! i) \<noteq> Some parent then opendir_loop is parent name n k
      else bnd (dir_name k (k_dirs k ! i)) (\<lambda>dname.
           if strncmp dname name n = 0 then Inr (Some i) else opendir_loop is parent name n k))"

definition bifs_opendir :: "nat option \<Rightarrow> string \<Rightarrow> nat \<Rightarrow> nat \<Rightarrow> kernel \<Rightarrow> nat option res" where
  "bifs_opendir parent name start fin k =
     opendir_loop [1..<BIFS_MAX_DIRS] (case parent of None \<Rightarrow> 0 | Some p \<Rightarrow> p) (drop start name)
       (of_int (int fin - int start)) k"

definition bifs_openfile :: "nat option \<Rightarrow> string \<Rightarrow> nat \<Rightarrow> nat \<Rightarrow> kernel \<Rightarrow> int \<times> nat option" where
  "bifs_openfile parent name start fin k =
     (let p = (case parent of None \<Rightarrow> 0 | Some p \<Rightarrow> p) in
      case find_index (\<lambda>f. bf_parent f = Some p \<and>
             strncmp (bf_name f) (drop start name) (of_int (int fin - int start)) = 0) (k_files k) of
        Some i \<Rightarrow> (sint (bf_flags (k_files k ! i)), Some i)
      | None \<Rightarrow> (- ENOENT, None))"

text \<open>
  The loop of \<open>bifs_opendirpath\<close>. \<open>next_slash\<close> never returns a position behind the
  terminating zero, so \<open>path[slash_pos]\<close> is nonzero exactly below the length.
  \<open>Inl\<close> carries the error status.
\<close>

lemma next_slash_ge: "next_slash path pos = Inr p \<Longrightarrow> pos \<le> p \<and> p \<le> length path"
  by (induction path pos rule: next_slash.induct)
    (subst (asm) next_slash.simps, auto simp: path_at_def split: if_splits)

function opendirpath_loop :: "string \<Rightarrow> int \<Rightarrow> nat option \<Rightarrow> nat \<Rightarrow> nat \<Rightarrow> kernel \<Rightarrow> (nat option \<times> nat \<times> nat) option res" where
  "opendirpath_loop path fin dir prev slash k =
     (if slash < length path \<and> int slash < fin then
        bnd (bifs_opendir dir path (prev + 1) slash k) (\<lambda>dir.
        if dir = None then Inr None
        else bnd (next_slash path (slash + 1)) (\<lambda>slash'.
             opendirpath_loop path fin dir slash slash' k))
      else Inr (Some (dir, prev, slash)))"
  by pat_completeness auto
termination
  by (relation "measure (\<lambda>(path, _, _, _, slash, _). length path - slash)") (auto dest: next_slash_ge)

declare opendirpath_loop.simps [simp del]

definition bifs_opendirpath :: "string \<Rightarrow> int \<Rightarrow> kernel \<Rightarrow> (int \<times> nat option) res" where
  "bifs_opendirpath path fin k =
     bnd (next_slash path 1) (\<lambda>slash.
     bnd (opendirpath_loop path fin (k_bifs_root k) 0 slash k) (\<lambda>r.
     case r of None \<Rightarrow> Inr (- ENOENT, None)
     | Some (dir, prev, slash) \<Rightarrow>
         bnd (path_at path (slash - 1)) (\<lambda>c.
         if c \<noteq> CHR ''/'' \<and> int slash \<le> fin then
           bnd (bifs_opendir dir path (prev + 1) slash k) (\<lambda>dir.
           if dir = None then Inr (- ENOENT, None) else Inr (0, dir))
         else Inr (0, dir))))"

text \<open>\<open>last_slash_pos\<close> and \<open>zero_pos\<close> after the loop of \<open>bifs_open\<close>.\<close>

function last_slash_loop :: "string \<Rightarrow> nat \<Rightarrow> nat \<Rightarrow> (nat \<times> nat) res" where
  "last_slash_loop path lst zero =
     (if zero < length path then
        bnd (next_slash path (zero + 1)) (\<lambda>zero'. last_slash_loop path zero zero')
      else Inr (lst, zero))"
  by pat_completeness auto
termination
  by (relation "measure (\<lambda>(path, _, zero). length path - zero)") (auto dest: next_slash_ge)

declare last_slash_loop.simps [simp del]

definition bifs_open :: "string \<Rightarrow> u32 \<Rightarrow> kernel \<Rightarrow> (int \<times> nat option) res" where
  "bifs_open filepath flags k =
     bnd (path_at filepath 0) (\<lambda>c.
     if c \<noteq> CHR ''/'' then Inr (- ENOSYS, None) else
     bnd (last_slash_loop filepath 0 0) (\<lambda>(last_slash_pos, zero_pos).
     bnd (bifs_opendirpath filepath (int last_slash_pos) k) (\<lambda>(status, dir).
     if status \<noteq> 0 then Inr (status, None)
     else Inr (bifs_openfile dir filepath (last_slash_pos + 1) zero_pos k))))"

section \<open>Reading and writing\<close>

definition data_at :: "kernel \<Rightarrow> data_ref \<Rightarrow> u32 \<Rightarrow> byte res" where
  "data_at k d pos = (case d of
       NoData \<Rightarrow> Inl NullDeref
     | LitData s \<Rightarrow> (if unat pos < length s then Inr (of_char (s ! unat pos))
                     else if unat pos = length s then Inr 0 else Inl OutOfBounds)
     | MemData a \<Rightarrow> Inr (k_mem k (a + ucast pos)))"

fun bifs_read_loop :: "nat \<Rightarrow> data_ref \<Rightarrow> u32 \<Rightarrow> addr \<Rightarrow> nat \<Rightarrow> kernel \<Rightarrow> (nat \<times> kernel) res" where
  "bifs_read_loop 0 d pos cbuf i k = Inr (i, k)"
| "bifs_read_loop (Suc n) d pos cbuf i k =
     bnd (data_at k d pos) (\<lambda>ch.
     if ch = 0 then Inr (i, k)
     else bifs_read_loop n d (pos + 1) cbuf (i + 1) (k\<lparr>k_mem := (k_mem k)(cbuf + of_nat i := ch)\<rparr>))"

definition bifs_read :: "file_ref \<Rightarrow> u32 \<Rightarrow> addr \<Rightarrow> u32 \<Rightarrow> kernel \<Rightarrow> (int \<times> kernel) res" where
  "bifs_read f pos buf sz k =
     (case f_fs_file (file_of k f) of
        BifsObj ff \<Rightarrow>
          bnd (bifs_read_loop (unat sz) (bf_data (k_files k ! ff)) pos buf 0 k) (\<lambda>(i, k).
          Inr (sint (of_nat i :: u32), k))
      | NoObj \<Rightarrow> Inl NullDeref
      | PipeObj _ \<Rightarrow> Inl BadCast)"

definition bifs_write :: "file_ref \<Rightarrow> u32 \<Rightarrow> addr \<Rightarrow> u32 \<Rightarrow> kernel \<Rightarrow> int \<times> kernel" where
  "bifs_write f pos buf nbytes k = (- ENOSYS, k)"

section \<open>Listing\<close>

definition DIRENT_EXECUTABLE :: u32 where [simp, kconsts]: "DIRENT_EXECUTABLE = 4"
definition DIRENT_DIRECTORY :: u32 where [simp, kconsts]: "DIRENT_DIRECTORY = 65536"

fun strncpy_mem :: "memory \<Rightarrow> addr \<Rightarrow> string \<Rightarrow> u32 \<Rightarrow> u32 \<Rightarrow> memory" where
  "strncpy_mem mem dest [] i num = mem(dest := 0)"
| "strncpy_mem mem dest (c # src) i num =
     (if i < num - 1 then strncpy_mem (mem(dest := of_char c)) (dest + 1) src (i + 1) num
      else mem(dest := 0))"

text \<open>A \<open>dirent_t\<close> takes 20 bytes: its flags, then its name.\<close>

definition put_dirent :: "addr \<Rightarrow> nat \<Rightarrow> u32 \<Rightarrow> string \<Rightarrow> kernel \<Rightarrow> kernel res" where
  "put_dirent dirents i flags name k =
     (if dirents = 0 then Inl NullDeref
      else let de = dirents + of_nat (20 * i) in
           Inr (k\<lparr>k_mem := strncpy_mem (store32 (k_mem k) de flags) (de + 4) name 0 (of_nat MAX_FILENAME_LEN)\<rparr>))"

text \<open>One round per entry: \<open>None\<close> skips it. \<open>Inl\<close> of the result is the early return.\<close>

fun lsdir_loop :: "(nat \<Rightarrow> kernel \<Rightarrow> (u32 \<times> string) option res) \<Rightarrow> nat list \<Rightarrow> addr \<Rightarrow> regsize \<Rightarrow> nat \<Rightarrow> kernel \<Rightarrow>
    (int option \<times> nat \<times> kernel) res" where
  "lsdir_loop ent [] dirents sz de_index k = Inr (None, de_index, k)"
| "lsdir_loop ent (i # is) dirents sz de_index k =
     (if de_index \<ge> unat sz then Inr (Some (- ENOBUFS), de_index, k)
      else bnd (ent i k) (\<lambda>e.
        case e of None \<Rightarrow> lsdir_loop ent is dirents sz de_index k
        | Some (flags, name) \<Rightarrow>
            bnd (put_dirent dirents de_index flags name k) (\<lambda>k.
            lsdir_loop ent is dirents sz (de_index + 1) k)))"

definition dir_entry :: "nat \<Rightarrow> nat \<Rightarrow> kernel \<Rightarrow> (u32 \<times> string) option res" where
  "dir_entry dir i k =
     (if bd_parent (k_dirs k ! i) \<noteq> Some dir then Inr None
      else bnd (dir_name k (k_dirs k ! i)) (\<lambda>s. Inr (Some (DIRENT_DIRECTORY, s))))"

definition file_entry :: "nat \<Rightarrow> nat \<Rightarrow> kernel \<Rightarrow> (u32 \<times> string) option res" where
  "file_entry dir i k =
     (if bf_parent (k_files k ! i) \<noteq> Some dir then Inr None else Inr (Some (0, bf_name (k_files k ! i))))"

definition bifs_lsdir :: "nat \<Rightarrow> addr \<Rightarrow> regsize \<Rightarrow> kernel \<Rightarrow> (int \<times> kernel) res" where
  "bifs_lsdir dir dirents sz k =
     bnd (lsdir_loop (dir_entry dir) [0..<BIFS_MAX_DIRS] dirents sz 0 k) (\<lambda>(err, n, k).
     case err of Some e \<Rightarrow> Inr (e, k) | None \<Rightarrow>
     bnd (lsdir_loop (file_entry dir) [0..<BIFS_MAX_FILES] dirents sz n k) (\<lambda>(err, n, k).
     case err of Some e \<Rightarrow> Inr (e, k) | None \<Rightarrow> Inr (int n, k)))"

definition prog_entry :: "nat \<Rightarrow> kernel \<Rightarrow> (u32 \<times> string) option res" where
  "prog_entry i k =
     (if i < length userland_programs then Inr (Some (DIRENT_EXECUTABLE, userland_programs ! i)) else Inr None)"

definition bin_lsdir :: "addr \<Rightarrow> regsize \<Rightarrow> kernel \<Rightarrow> (int \<times> kernel) res" where
  "bin_lsdir dirents sz k =
     bnd (lsdir_loop prog_entry [0..<MAX_USERLAND_PROGS] dirents sz 0 k) (\<lambda>(err, n, k).
     case err of Some e \<Rightarrow> Inr (e, k) | None \<Rightarrow> Inr (int n, k))"

section \<open>Creation\<close>

definition bifs_mkdir :: "string \<Rightarrow> name_ref \<Rightarrow> kernel \<Rightarrow> (nat option \<times> kernel) res" where
  "bifs_mkdir parent_path name k =
     bnd (bifs_opendirpath parent_path (kstrlen parent_path) k) (\<lambda>(status, parent).
     if status \<noteq> 0 then Inr (None, k)
     else (case bifs_allocate_dir k of
             (None, k) \<Rightarrow> Inr (None, k)
           | (Some d, k) \<Rightarrow> Inr (Some d, upd_dir d (\<lambda>x. x\<lparr>bd_name := name, bd_parent := parent\<rparr>) k)))"

text \<open>A file that \<open>bifs_init\<close> fills in.\<close>

definition raw_file :: "u32 \<Rightarrow> nat option \<Rightarrow> string \<Rightarrow> data_ref \<Rightarrow> query_op \<Rightarrow> bifs_file_t" where
  "raw_file flags parent name data query =
     \<lparr>bf_flags = flags, bf_name = name, bf_parent = parent, bf_data = data, bf_dataquery = query\<rparr>"

definition NL :: char where "NL = CHR 0x0a"

definition lines_text :: "string list \<Rightarrow> string" where
  "lines_text ls = concat (map (\<lambda>l. l @ [NL]) ls)"

definition init_dir :: "string \<Rightarrow> nat option \<Rightarrow> kernel \<Rightarrow> (nat \<times> kernel) res" where
  "init_dir name parent k =
     (case bifs_allocate_dir k of
        (None, k) \<Rightarrow> Inl NullDeref
      | (Some d, k) \<Rightarrow> Inr (d, upd_dir d (\<lambda>x. x\<lparr>bd_name := LitName name, bd_parent := parent\<rparr>) k))"

definition bifs_init :: "kernel \<Rightarrow> kernel res" where
  "bifs_init k =
     (let k = k\<lparr>k_dirs := replicate BIFS_MAX_DIRS zero_dir, k_files := replicate BIFS_MAX_FILES zero_bfile\<rparr> in
      bnd (init_dir ''/'' None k) (\<lambda>(root, k).
      let k = k\<lparr>k_bifs_root := Some root\<rparr> in
      bnd (init_dir ''proc'' (Some root) k) (\<lambda>(procfs, k).
      bnd (init_dir ''home'' (Some root) k) (\<lambda>(home, k).
      bnd (init_dir ''bin'' (Some root) k) (\<lambda>(bin, k).
      let k = upd_dir bin (\<lambda>d. d\<lparr>bd_lsdir := BinLs\<rparr>) k;
          rr = BIFS_READABLE OR BIFS_RAW
      in Inr (k\<lparr>k_files := (k_files k)
        [0 := raw_file rr (Some root) ''readme.txt'' (LitData (lines_text [''Hello, I am File Zero.''])) NoQuery,
         1 := raw_file rr (Some root) ''file'' (LitData (lines_text [''A very short text.''])) NoQuery,
         2 := raw_file rr (Some home) ''read.me'' (LitData (lines_text [''This Is File One. File Zero is at root.''])) NoQuery,
         3 := raw_file rr (Some home) ''smoke-test.sh'' (LitData (lines_text [''fmt'', ''sysinfo'', ''ps'',
           ''cat /readme.txt | wc'', ''iter 300 | wc'', ''testprintf''] @ ''echo QUIT_QEMU'')) NoQuery,
         4 := raw_file rr (Some home) ''daemon-test.sh'' (LitData (lines_text [''fibd'', ''ps'', ''wait 1 3'', ''fib 1'',
           ''wait 1 1'', ''fib 1'', ''cat /proc/1/stats'', ''sysinfo''] @ ''echo QUIT_QEMU'')) NoQuery,
         5 := raw_file rr (Some home) ''ls-test.sh'' (LitData (lines_text [''ls'', ''ls /home'', ''ls /home/'', ''ls /bin'',
           ''ls /proc'', ''cat -n /proc/0/name''] @ ''echo QUIT_QEMU'')) NoQuery,
         6 := raw_file rr (Some home) ''leaky-test.sh'' (LitData (lines_text [''sysinfo'', ''hang'', ''sysinfo'', ''ps'']
           @ ''echo QUIT_QEMU'')) NoQuery,
         7 := raw_file (rr OR BIFS_TMPFILE) (Some procfs) ''sysmem'' NoData SysmemQuery]\<rparr>))))))"

section \<open>The file \<^verbatim>\<open>/proc/sysmem\<close>\<close>

definition PROCFS_ITOA_BUF_LEN :: int where [simp, kconsts]: "PROCFS_ITOA_BUF_LEN = 8"

definition PROCFS_STRNCPY :: "string \<Rightarrow> addr \<times> memory \<Rightarrow> addr \<times> memory" where
  "PROCFS_STRNCPY str s = (case s of (buf, mem) \<Rightarrow>
     (buf + of_nat (length str + 1), strncpy_mem mem buf str 0 (of_nat (length str + 1))))"

text \<open>The flag is false when the number does not fit the buffer for its digits, which ends the function.\<close>

definition PROCFS_ITOA :: "u32 \<Rightarrow> addr \<times> memory \<Rightarrow> (bool \<times> addr \<times> memory) res" where
  "PROCFS_ITOA num s = (case s of (buf, mem) \<Rightarrow>
     bnd (itoa (replicate (nat PROCFS_ITOA_BUF_LEN) NUL) PROCFS_ITOA_BUF_LEN num) (\<lambda>(len, itoa_buf).
     if len < 0 then Inr (False, s)
     else let mem = strncpy_mem mem (buf - 1) (cstr itoa_buf) 0 (of_int len);
              buf = buf + of_int (len - 2)
          in Inr (True, buf + 1, mem(buf := of_char NL))))"

fun sysmem_lines :: "(string \<times> u32) list \<Rightarrow> addr \<times> memory \<Rightarrow> (bool \<times> addr \<times> memory) res" where
  "sysmem_lines [] s = Inr (True, s)"
| "sysmem_lines ((label, num) # ls) s =
     bnd (PROCFS_ITOA num (PROCFS_STRNCPY label s)) (\<lambda>(ok, s).
     if ok then sysmem_lines ls s else Inr (False, s))"

definition procfs_sysmem_data_func :: "addr \<Rightarrow> kernel \<Rightarrow> (int \<times> kernel) res" where
  "procfs_sysmem_data_func buf k =
     (let sz = k_sizeof k;
          objs = [''bifs_all_directories'', ''bifs_all_files'', ''proc_table'', ''ftable'', ''paged_memory'', ''pipes'', ''trap_frame''];
          total = sz ''bifs_all_directories'' + sz ''bifs_all_files'' + sz ''proc_table'' + sz ''bootargs'' + sz ''ftable''
            + sz ''paged_memory'' + sz ''pipes'' + sz ''trap_frame''
      in bnd (sysmem_lines (map (\<lambda>x. (''sizeof('' @ x @ '')='', sz x)) objs @
                [(''total bss='', total), (''actual bss size='', sz ''bss'')]) (buf, k_mem k)) (\<lambda>(ok, buf', mem).
         let k = k\<lparr>k_mem := mem\<rparr> in
         if ok then Inr (sint (ucast (buf' - buf) :: u32), k) else Inr (- ENOBUFS, k)))"

end
