(* ===== verification/Uart.thy ===== *)
theory Uart
  imports Procbase
begin

text \<open>
  The console: \<^verbatim>\<open>src/drivers/uart/uart.c\<close> over the register accesses of
  \<^verbatim>\<open>src/drivers/uart/uart-ns16550a.c\<close> (the device of the \<^verbatim>\<open>virt\<close> machine). A
  write to the transmit register appends to the console output, bit 0 of the
  line status register says whether the receive FIFO has a character, a read of
  the receive register takes it.
\<close>

section \<open>Device\<close>

definition uart_writechar :: "char \<Rightarrow> kernel \<Rightarrow> kernel" where
  "uart_writechar ch k = k\<lparr>k_console := ch # k_console k\<rparr>"

definition uart_rx_num_avail :: "kernel \<Rightarrow> int" where
  "uart_rx_num_avail k = (if k_rx k = [] then 0 else 1)"

definition uart_readchar :: "kernel \<Rightarrow> char \<times> kernel" where
  "uart_readchar k = (case k_rx k of [] \<Rightarrow> (NUL, k) | c # rest \<Rightarrow> (c, k\<lparr>k_rx := rest\<rparr>))"

section \<open>Receiving\<close>

definition upd_uart :: "(uart_state_t \<Rightarrow> uart_state_t) \<Rightarrow> kernel \<Rightarrow> kernel" where
  "upd_uart f k = k\<lparr>k_uart0 := f (k_uart0 k)\<rparr>"

definition uart_init :: "kernel \<Rightarrow> kernel" where
  "uart_init k = upd_uart (\<lambda>u. u\<lparr>rx_rpos := 0, rx_wpos := 0, rx_num_newlines := 0, rx_buff_full := 0\<rparr>) k"

definition ASCII_DEL :: char where "ASCII_DEL = CHR 0x7f"
definition LF :: char where "LF = CHR 0x0a"
definition CR :: char where "CR = CHR 0x0d"
definition BS :: char where "BS = CHR 0x08"

definition decrement_wpos :: "nat \<Rightarrow> uart_state_t \<Rightarrow> nat" where
  "decrement_wpos wpos u =
     (if wpos = rx_rpos u then wpos
      else let wpos' = (if wpos = 0 then UART_BUF_SZ - 1 else wpos - 1) in
           if rxbuf u ! wpos' = LF then wpos else wpos')"

text \<open>
  One round of \<open>uart_enqueue_chars\<close> for a character that has been read. The write
  position is a local variable of the function.
\<close>

definition enqueue_char :: "char \<Rightarrow> nat \<Rightarrow> nat \<Rightarrow> kernel \<Rightarrow> (nat \<times> nat \<times> kernel) res" where
  "enqueue_char ch wpos num_enqueued k =
     (if ch = ASCII_DEL then
        let new_wpos = decrement_wpos wpos (k_uart0 k) in
        if new_wpos \<noteq> wpos then
          let k = uart_writechar BS (uart_writechar (CHR '' '') (uart_writechar BS k));
              k = (if rx_buff_full (k_uart0 k) \<noteq> 0 then upd_uart (\<lambda>u. u\<lparr>rx_buff_full := 0\<rparr>) k else k)
          in Inr (new_wpos, num_enqueued, k)
        else Inr (wpos, num_enqueued, k)
      else if rx_buff_full (k_uart0 k) \<noteq> 0 then
        bnd (proc_mark_for_wakeup ChanUart k) (\<lambda>k. Inr (wpos, num_enqueued, k))
      else
        bnd (if ch = CR then
               bnd (proc_mark_for_wakeup ChanUart (upd_uart (\<lambda>u. u\<lparr>rx_num_newlines := rx_num_newlines u + 1\<rparr>) k))
                 (\<lambda>k. Inr (LF, k))
             else Inr (ch, k)) (\<lambda>(ch, k).
        let k = uart_writechar ch k;
            k = upd_uart (\<lambda>u. u\<lparr>rxbuf := (rxbuf u)[wpos := ch]\<rparr>) k;
            wpos = (if wpos + 1 \<ge> UART_BUF_SZ then 0 else wpos + 1);
            k = (if wpos = rx_rpos (k_uart0 k) then upd_uart (\<lambda>u. u\<lparr>rx_buff_full := 1\<rparr>) k else k)
        in Inr (wpos, num_enqueued + 1, k)))"

text \<open>The loop runs until the FIFO, given as first argument, is drained.\<close>

fun enqueue_loop :: "string \<Rightarrow> nat \<Rightarrow> nat \<Rightarrow> kernel \<Rightarrow> (nat \<times> nat \<times> kernel) res" where
  "enqueue_loop [] wpos num_enqueued k = Inr (wpos, num_enqueued, k)"
| "enqueue_loop (ch # rest) wpos num_enqueued k =
     bnd (enqueue_char ch wpos num_enqueued (k\<lparr>k_rx := rest\<rparr>)) (\<lambda>(wpos, num_enqueued, k).
     enqueue_loop rest wpos num_enqueued k)"

definition uart_enqueue_chars :: "kernel \<Rightarrow> (int \<times> kernel) res" where
  "uart_enqueue_chars k =
     bnd (enqueue_loop (k_rx k) (rx_wpos (k_uart0 k)) 0 k) (\<lambda>(wpos, num_enqueued, k).
     Inr (int num_enqueued, upd_uart (\<lambda>u. u\<lparr>rx_wpos := wpos\<rparr>) k))"

definition uart_handle_interrupt :: "kernel \<Rightarrow> kernel res" where
  "uart_handle_interrupt k = bnd (uart_enqueue_chars k) (\<lambda>(nenq, k). Inr k)"

section \<open>Reading\<close>

definition can_read_from :: "uart_state_t \<Rightarrow> bool" where
  "can_read_from u \<longleftrightarrow> rx_num_newlines u > 0 \<or> rx_buff_full u = 1"

text \<open>The copying loop; the first argument is \<open>bufsize - nread\<close>.\<close>

fun readline_loop :: "nat \<Rightarrow> addr \<Rightarrow> nat \<Rightarrow> nat \<Rightarrow> nat \<Rightarrow> kernel \<Rightarrow> nat \<times> nat \<times> kernel" where
  "readline_loop 0 buf rpos wpos nread k = (rpos, nread, k)"
| "readline_loop (Suc n) buf rpos wpos nread k =
     (if rpos = wpos \<and> nread > 0 then (rpos, nread, k)
      else
        let ch = rxbuf (k_uart0 k) ! rpos;
            rpos = (if rpos + 1 = UART_BUF_SZ then 0 else rpos + 1)
        in if ch = LF then (rpos, nread, upd_uart (\<lambda>u. u\<lparr>rx_num_newlines := rx_num_newlines u - 1\<rparr>) k)
           else readline_loop n buf rpos wpos (nread + 1) (k\<lparr>k_mem := (k_mem k)(buf + of_nat nread := of_char ch)\<rparr>))"

definition uart_readline_copy :: "addr \<Rightarrow> u32 \<Rightarrow> kernel \<Rightarrow> int \<times> kernel" where
  "uart_readline_copy buf bufsize k =
     (case readline_loop (unat bufsize) buf (rx_rpos (k_uart0 k)) (rx_wpos (k_uart0 k)) 0 k of
        (rpos, nread, k) \<Rightarrow>
          let k = (if rx_rpos (k_uart0 k) \<noteq> rpos \<or> nread > 0 then upd_uart (\<lambda>u. u\<lparr>rx_buff_full := 0\<rparr>) k else k)
          in (sint (of_nat nread :: u32), upd_uart (\<lambda>u. u\<lparr>rx_rpos := rpos\<rparr>) k))"

definition uart_readline_loop :: "nat \<Rightarrow> file_ref \<Rightarrow> addr \<Rightarrow> u32 \<Rightarrow> kernel \<Rightarrow> int option \<times> kernel" where
  "uart_readline_loop i f buf bufsize k =
     (if \<not> can_read_from (k_uart0 k) then (None, proc_yield i ChanUart (KUartRead f buf bufsize) k)
      else (case uart_readline_copy buf bufsize k of (n, k) \<Rightarrow> (Some n, k)))"

text \<open>\<open>uart_read\<close> is \<open>uart_readline\<close>; the current process matters only when it has to wait.\<close>

definition uart_read :: "file_ref \<Rightarrow> addr \<Rightarrow> u32 \<Rightarrow> kernel \<Rightarrow> (int option \<times> kernel) res" where
  "uart_read f buf bufsize k =
     (if can_read_from (k_uart0 k) then (case uart_readline_copy buf bufsize k of (n, k) \<Rightarrow> Inr (Some n, k))
      else bnd (myproc k) (\<lambda>i. Inr (uart_readline_loop i f buf bufsize k)))"

definition uart_read_resume :: "nat \<Rightarrow> file_ref \<Rightarrow> addr \<Rightarrow> u32 \<Rightarrow> kernel \<Rightarrow> (int option \<times> kernel) res" where
  "uart_read_resume i f buf bufsize k =
     bnd (proc_yield_resume i k) (\<lambda>k. Inr (uart_readline_loop i f buf bufsize k))"

section \<open>Writing\<close>

definition uart_prints :: "string \<Rightarrow> kernel \<Rightarrow> int \<times> kernel" where
  "uart_prints data k = (k_noret k, fold uart_writechar data k)"

fun uart_print_loop :: "nat \<Rightarrow> addr \<Rightarrow> kernel \<Rightarrow> kernel" where
  "uart_print_loop 0 data k = k"
| "uart_print_loop (Suc n) data k = uart_print_loop n (data + 1) (uart_writechar (char_of (unat (k_mem k data))) k)"

definition uart_print :: "addr \<Rightarrow> u32 \<Rightarrow> kernel \<Rightarrow> (int \<times> kernel) res" where
  "uart_print data sz k =
     (if sz = -1 then bnd (read_cstr str_bound (k_mem k) data) (\<lambda>s. Inr (uart_prints s k))
      else Inr (sint sz, uart_print_loop (unat sz) data k))"

definition uart_write :: "file_ref \<Rightarrow> addr \<Rightarrow> u32 \<Rightarrow> kernel \<Rightarrow> (int \<times> kernel) res" where
  "uart_write f buf bufsize k = uart_print buf bufsize k"

end
