(* ===== verification/Fs.thy ===== *)
theory Fs
  imports Bifs Uart Pipe Kprintf
begin

text \<open>
  The file layer (\<^verbatim>\<open>src/fs.c\<close>): open, read, write and close of a \<open>file_t\<close>, which
  dispatch to the console, the pipes or the baked-in file system, and the query
  function behind \<^verbatim>\<open>/proc/<pid>/stats\<close> (\<^verbatim>\<open>src/proc.c\<close>).
\<close>

definition fs_init :: "kernel \<Rightarrow> kernel res" where
  "fs_init k =
     (let k = k\<lparr>k_ftable := \<lparr>ft_lock = 0, ft_files = map (\<lambda>f. f\<lparr>f_refcount := 0\<rparr>) (ft_files (k_ftable k))\<rparr>\<rparr>;
          inp = (\<lambda>f. f\<lparr>f_flags := FFLAGS_READABLE OR FFLAGS_UART_STREAM, f_mode := FDMODE_READ, f_fs_file := NoObj,
                  f_read := UartOp, f_write := NoOp\<rparr>);
          outp = (\<lambda>f. f\<lparr>f_flags := FFLAGS_WRITABLE OR FFLAGS_UART_STREAM, f_mode := FDMODE_WRITE, f_fs_file := NoObj,
                  f_read := NoOp, f_write := UartOp\<rparr>)
      in bifs_init (k\<lparr>k_stdin := inp (k_stdin k), k_stdout := outp (k_stdout k), k_stderr := outp (k_stderr k)\<rparr>))"

definition fs_free_file :: "file_ref \<Rightarrow> kernel \<Rightarrow> kernel res" where
  "fs_free_file f k =
     (let k = upd_file f (\<lambda>x. x\<lparr>f_refcount := f_refcount x - 1\<rparr>) k in
      bnd (if f_flags (file_of k f) AND FFLAGS_PIPE \<noteq> 0 then pipe_close_file f k else Inr k) (\<lambda>k.
      if f_tmpfile_mem (file_of k f) \<noteq> 0 then
        bnd (release_page_k (f_tmpfile_mem (file_of k f)) k) (\<lambda>k.
        let k = upd_file f (\<lambda>x. x\<lparr>f_tmpfile_mem := 0\<rparr>) k in
        case f_fs_file (file_of k f) of
          BifsObj bf \<Rightarrow> Inr (upd_bfile bf (\<lambda>b. b\<lparr>bf_data := NoData\<rparr>) k)
        | NoObj \<Rightarrow> Inl NullDeref
        | PipeObj _ \<Rightarrow> Inl BadCast)
      else Inr k))"

text \<open>
  \<open>ksprintf\<close> into a range of memory. The three arguments travel in registers, the
  other four of the vector are whatever the registers held.
\<close>

definition ksprintf_mem :: "addr \<Rightarrow> regsize \<Rightarrow> string \<Rightarrow> regsize list \<Rightarrow> kernel \<Rightarrow> (int \<times> kernel) res" where
  "ksprintf_mem buf bufsz fmt args k =
     bnd (ksprintfvec (read_cstr str_bound (k_mem k)) (map (\<lambda>b. char_of (unat b)) (load_bytes (k_mem k) buf (unat bufsz)))
            bufsz fmt args) (\<lambda>(n, out).
     Inr (n, k\<lparr>k_mem := write_str (k_mem k) buf out\<rparr>))"

definition stats_fmt :: string where
  "stats_fmt = ''ppid: %d'' @ [NL] @ ''nscheds: %d'' @ [NL] @ ''npages: %d'' @ [NL]"

definition procfs_stats_data_func :: "nat \<Rightarrow> addr \<Rightarrow> regsize \<Rightarrow> kernel \<Rightarrow> (int \<times> kernel) res" where
  "procfs_stats_data_func i buf bufsz k =
     (let proc = proc_of k i;
          npages = count_alloced_pages (p_pid proc) (k_pm k);
          parent_pid = (case p_parent proc of None \<Rightarrow> -1 | Some p \<Rightarrow> p_pid (proc_of k p))
      in ksprintf_mem buf bufsz stats_fmt [scast parent_pid, p_nscheds proc, scast npages, 0, 0, 0, 0] k)"

definition run_query :: "query_op \<Rightarrow> addr \<Rightarrow> kernel \<Rightarrow> (int \<times> kernel) res" where
  "run_query q buf k = (case q of
       NoQuery \<Rightarrow> Inl NullDeref
     | SysmemQuery \<Rightarrow> procfs_sysmem_data_func buf k
     | StatsQuery i \<Rightarrow> procfs_stats_data_func i buf (PAGE_SIZE - 1) k)"

definition fs_open :: "file_ref \<Rightarrow> string \<Rightarrow> u32 \<Rightarrow> kernel \<Rightarrow> (int \<times> kernel) res" where
  "fs_open f filepath flags k =
     bnd (bifs_open filepath flags k) (\<lambda>(status, pf).
     let k = (case pf of Some b \<Rightarrow> upd_file f (\<lambda>x. x\<lparr>f_fs_file := BifsObj b\<rparr>) k | None \<Rightarrow> k);
         ops = upd_file f (\<lambda>x. x\<lparr>f_read := BifsOp, f_write := BifsOp\<rparr>)
     in if status < 0 then Inr (status, k)
        else if of_int status AND BIFS_TMPFILE \<noteq> 0 then
          bnd (myproc k) (\<lambda>i.
          bnd (kalloc_k ''fs_open'' (p_pid (proc_of k i)) k) (\<lambda>(page, k).
          let k = upd_file f (\<lambda>x. x\<lparr>f_tmpfile_mem := page\<rparr>) k in
          if page = 0 then Inr (- ENOMEM, k)
          else (case f_fs_file (file_of k f) of
              BifsObj bf \<Rightarrow>
                bnd (if bf_dataquery (k_files k ! bf) \<noteq> NoQuery then
                       bnd (run_query (bf_dataquery (k_files k ! bf)) page k) (\<lambda>(nwritten, k).
                       Inr (k\<lparr>k_mem := (k_mem k)(page + of_int nwritten := 0)\<rparr>))
                     else Inr k) (\<lambda>k.
                Inr (0, ops (upd_bfile bf (\<lambda>b. b\<lparr>bf_data := MemData page\<rparr>) k)))
            | NoObj \<Rightarrow> Inl NullDeref
            | PipeObj _ \<Rightarrow> Inl BadCast)))
        else Inr (0, ops k))"

text \<open>The functions behind the pointers \<open>read\<close> and \<open>write\<close> of a file.\<close>

definition fs_read :: "file_ref \<Rightarrow> u32 \<Rightarrow> addr \<Rightarrow> u32 \<Rightarrow> kernel \<Rightarrow> (int option \<times> kernel) res" where
  "fs_read f pos buf sz k = (case f_read (file_of k f) of
       NoOp \<Rightarrow> Inr (Some (- EBADFD), k)
     | UartOp \<Rightarrow> uart_read f buf sz k
     | BifsOp \<Rightarrow> bnd (bifs_read f pos buf sz k) (\<lambda>(n, k). Inr (Some n, k))
     | PipeOp \<Rightarrow> pipe_read f buf sz k)"

definition fs_write :: "file_ref \<Rightarrow> u32 \<Rightarrow> addr \<Rightarrow> u32 \<Rightarrow> kernel \<Rightarrow> (int option \<times> kernel) res" where
  "fs_write f pos buf nbytes k = (case f_write (file_of k f) of
       NoOp \<Rightarrow> Inr (Some (- EBADFD), k)
     | UartOp \<Rightarrow> bnd (uart_write f buf nbytes k) (\<lambda>(n, k). Inr (Some n, k))
     | BifsOp \<Rightarrow> (case bifs_write f pos buf nbytes k of (n, k) \<Rightarrow> Inr (Some n, k))
     | PipeOp \<Rightarrow> pipe_write f buf nbytes k)"

end
