(* ===== verification/Devices.thy ===== *)
theory Devices
  imports Kstate
begin

text \<open>
  Control and status registers (\<^verbatim>\<open>src/riscv.c\<close>), interrupt switching
  (\<^verbatim>\<open>src/kernel.c\<close>), physical memory protection (\<^verbatim>\<open>src/pmp.c\<close>), the timer of the
  \<^verbatim>\<open>virt\<close> machine (\<^verbatim>\<open>src/machine/qemu/timer.c\<close>), the interrupt controller
  (\<^verbatim>\<open>src/plic.c\<close>) and the pins (\<^verbatim>\<open>src/gpio.c\<close>), for a machine that boots in
  machine mode and has a supervisor mode. Register accesses in inline assembly
  are updates of the register file.
\<close>

section \<open>Status registers\<close>

definition MSTATUS_SIE_BIT :: nat where [simp, kconsts]: "MSTATUS_SIE_BIT = 1"
definition MSTATUS_MIE_BIT :: nat where [simp, kconsts]: "MSTATUS_MIE_BIT = 3"
definition MSTATUS_SPIE_BIT :: nat where [simp, kconsts]: "MSTATUS_SPIE_BIT = 5"
definition MSTATUS_MPIE_BIT :: nat where [simp, kconsts]: "MSTATUS_MPIE_BIT = 7"
definition MIE_SSIE_BIT :: nat where [simp, kconsts]: "MIE_SSIE_BIT = 1"
definition MIE_MSIE_BIT :: nat where [simp, kconsts]: "MIE_MSIE_BIT = 3"
definition MIE_STIE_BIT :: nat where [simp, kconsts]: "MIE_STIE_BIT = 5"
definition MIE_MTIE_BIT :: nat where [simp, kconsts]: "MIE_MTIE_BIT = 7"
definition MIE_SEIE_BIT :: nat where [simp, kconsts]: "MIE_SEIE_BIT = 9"
definition MIE_MEIE_BIT :: nat where [simp, kconsts]: "MIE_MEIE_BIT = 11"
definition SIP_SSIP :: regsize where [simp, kconsts]: "SIP_SSIP = 2"

definition MPP_MODE_S :: u32 where "MPP_MODE_S = push_bit 11 1"
definition MPP_MASK :: u32 where "MPP_MASK = NOT (push_bit 11 3)"
definition SPP_MASK :: u32 where "SPP_MASK = NOT (push_bit 8 1)"
definition SPP_MODE_U :: u32 where "SPP_MODE_U = push_bit 8 0"

text \<open>
  The bits of the low half of \<open>mstatus\<close> that \<open>sstatus\<close> shows: SIE, SPIE, UBE, SPP,
  VS, FS, XS, SUM and MXR.
\<close>

definition SSTATUS_MASK :: u32 where "SSTATUS_MASK = 0xde762"

definition get_status_csr :: "csrs \<Rightarrow> u32" where
  "get_status_csr c = c_mstatus c AND SSTATUS_MASK"

definition set_status_csr :: "u32 \<Rightarrow> csrs \<Rightarrow> csrs" where
  "set_status_csr v c = c\<lparr>c_mstatus := (c_mstatus c AND NOT SSTATUS_MASK) OR (v AND SSTATUS_MASK)\<rparr>"

definition get_mstatus_csr :: "csrs \<Rightarrow> u32" where "get_mstatus_csr c = c_mstatus c"
definition set_mstatus_csr :: "u32 \<Rightarrow> csrs \<Rightarrow> csrs" where "set_mstatus_csr v c = c\<lparr>c_mstatus := v\<rparr>"
definition set_mie_csr :: "regsize \<Rightarrow> csrs \<Rightarrow> csrs" where "set_mie_csr v c = c\<lparr>c_mie := v\<rparr>"
definition set_mideleg_csr :: "regsize \<Rightarrow> csrs \<Rightarrow> csrs" where "set_mideleg_csr v c = c\<lparr>c_mideleg := v\<rparr>"
definition set_medeleg_csr :: "regsize \<Rightarrow> csrs \<Rightarrow> csrs" where "set_medeleg_csr v c = c\<lparr>c_medeleg := v\<rparr>"
definition set_mscratch_csr :: "addr \<Rightarrow> csrs \<Rightarrow> csrs" where "set_mscratch_csr p c = c\<lparr>c_mscratch := p\<rparr>"
definition set_mtvec_csr :: "addr \<Rightarrow> csrs \<Rightarrow> csrs" where "set_mtvec_csr p c = c\<lparr>c_mtvec := p\<rparr>"
definition set_sscratch_csr :: "addr \<Rightarrow> csrs \<Rightarrow> csrs" where "set_sscratch_csr p c = c\<lparr>c_sscratch := p\<rparr>"
definition set_stvec_csr :: "addr \<Rightarrow> csrs \<Rightarrow> csrs" where "set_stvec_csr p c = c\<lparr>c_stvec := p\<rparr>"

text \<open>
  \<open>set_ie_csr\<close> is the instruction \<^verbatim>\<open>csrs\<close>: it sets the bits of its operand in \<open>sie\<close>,
  that is the delegated ones in \<open>mie\<close>.
\<close>

definition get_ie_csr :: "csrs \<Rightarrow> regsize" where "get_ie_csr c = c_mie c AND c_mideleg c"

definition set_ie_csr :: "u32 \<Rightarrow> csrs \<Rightarrow> csrs" where
  "set_ie_csr v c = c\<lparr>c_mie := c_mie c OR (ucast v AND c_mideleg c)\<rparr>"

definition csr_sip_clear_flags :: "regsize \<Rightarrow> csrs \<Rightarrow> csrs" where
  "csr_sip_clear_flags flags c = c\<lparr>c_mip := c_mip c AND NOT (flags AND c_mideleg c)\<rparr>"

definition csr_sip_set_flags :: "regsize \<Rightarrow> csrs \<Rightarrow> csrs" where
  "csr_sip_set_flags flags c = c\<lparr>c_mip := c_mip c OR (flags AND c_mideleg c)\<rparr>"

definition set_status_interrupt_pending :: "csrs \<Rightarrow> csrs" where
  "set_status_interrupt_pending c = set_status_csr (get_status_csr c OR push_bit MSTATUS_SPIE_BIT 1) c"

definition set_status_interrupt_enable_and_pending :: "csrs \<Rightarrow> csrs" where
  "set_status_interrupt_enable_and_pending c =
     set_status_csr (get_status_csr c OR (push_bit MSTATUS_SIE_BIT 1 OR push_bit MSTATUS_SPIE_BIT 1)) c"

definition clear_status_interrupt_enable :: "csrs \<Rightarrow> csrs" where
  "clear_status_interrupt_enable c = set_status_csr (get_status_csr c AND NOT (push_bit MSTATUS_SIE_BIT 1)) c"

definition set_interrupt_enable_bits :: "csrs \<Rightarrow> csrs" where
  "set_interrupt_enable_bits c =
     set_ie_csr (push_bit MIE_STIE_BIT 1 OR push_bit MIE_SEIE_BIT 1 OR push_bit MIE_SSIE_BIT 1) c"

definition set_user_mode :: "csrs \<Rightarrow> csrs" where
  "set_user_mode c = set_status_csr (get_status_csr c AND SPP_MASK OR SPP_MODE_U) c"

text \<open>\<open>mret\<close>: the mode in MPP becomes current, MIE takes the value of MPIE.\<close>

definition mret :: "csrs \<Rightarrow> csrs" where
  "mret c =
     (let s = c_mstatus c; mpp = drop_bit 11 s AND 3;
          s' = (if bit s MSTATUS_MPIE_BIT then s OR push_bit MSTATUS_MIE_BIT 1
                else s AND NOT (push_bit MSTATUS_MIE_BIT 1)) OR push_bit MSTATUS_MPIE_BIT 1
      in c\<lparr>c_priv := (if mpp = 3 then MMode else if mpp = 1 then SMode else UMode), c_mstatus := s' AND MPP_MASK\<rparr>)"

definition set_supervisor_mode :: "csrs \<Rightarrow> csrs" where
  "set_supervisor_mode c =
     (let c = set_mideleg_csr (push_bit MIE_STIE_BIT 1 OR push_bit MIE_SEIE_BIT 1 OR push_bit MIE_SSIE_BIT 1) c;
          c = set_medeleg_csr (NOT 0) c;
          mstatus = get_mstatus_csr c AND MPP_MASK OR MPP_MODE_S;
          mstatus = mstatus OR (push_bit MSTATUS_SIE_BIT 1 OR push_bit MSTATUS_MPIE_BIT 1);
          c = set_mstatus_csr mstatus c;
          mie = push_bit MIE_STIE_BIT 1 OR push_bit MIE_SEIE_BIT 1 OR push_bit MIE_SSIE_BIT 1
            OR push_bit MIE_MTIE_BIT 1 OR push_bit MIE_MEIE_BIT 1 OR push_bit MIE_MSIE_BIT 1
      in mret (set_mie_csr mie c))"

definition disable_interrupts :: "csrs \<Rightarrow> csrs" where
  "disable_interrupts c = set_ie_csr 0 (clear_status_interrupt_enable c)"

definition enable_interrupts :: "csrs \<Rightarrow> csrs" where
  "enable_interrupts c = csr_sip_clear_flags SIP_SSIP (set_interrupt_enable_bits (set_status_interrupt_pending c))"

definition cause_timer_interrupt_now :: "csrs \<Rightarrow> csrs" where
  "cause_timer_interrupt_now c = csr_sip_set_flags SIP_SSIP c"

definition upd_csr :: "(csrs \<Rightarrow> csrs) \<Rightarrow> kernel \<Rightarrow> kernel" where
  "upd_csr f k = k\<lparr>k_csr := f (k_csr k)\<rparr>"

section \<open>Physical memory protection\<close>

definition PMP_TOR :: regsize where [simp, kconsts]: "PMP_TOR = 8"
definition PMP_X :: regsize where [simp, kconsts]: "PMP_X = 4"
definition PMP_W :: regsize where [simp, kconsts]: "PMP_W = 2"
definition PMP_R :: regsize where [simp, kconsts]: "PMP_R = 1"
definition PMP_0 :: regsize where [simp, kconsts]: "PMP_0 = 1"

definition shift_right_addr :: "addr \<Rightarrow> nat \<Rightarrow> addr" where
  "shift_right_addr a bits = drop_bit bits a"

definition set_pmpaddr0 :: "addr \<Rightarrow> csrs \<Rightarrow> csrs" where
  "set_pmpaddr0 a c = c\<lparr>c_pmpaddr0 := shift_right_addr a 2\<rparr>"

definition set_pmpcfg0 :: "regsize \<Rightarrow> csrs \<Rightarrow> csrs" where
  "set_pmpcfg0 v c = c\<lparr>c_pmpcfg0 := v\<rparr>"

text \<open>\<open>ram_size\<close> is the value of the linker symbol \<open>RAM_SIZE\<close>. The result is the end of RAM.\<close>

definition init_pmp :: "addr \<Rightarrow> regsize \<Rightarrow> csrs \<Rightarrow> addr \<times> csrs" where
  "init_pmp ram_start ram_size c =
     (let paged_mem_end = ram_start + ram_size;
          mode = PMP_TOR * PMP_0;
          access_flags = (PMP_X OR PMP_W OR PMP_R) * PMP_0
      in (paged_mem_end, set_pmpcfg0 (mode OR access_flags) (set_pmpaddr0 paged_mem_end c)))"

section \<open>Timer\<close>

definition time_get_now :: "kernel \<Rightarrow> regsize" where
  "time_get_now k = k_mtime k"

definition write32 :: "addr \<Rightarrow> u32 \<Rightarrow> kernel \<Rightarrow> kernel" where
  "write32 a v k = k\<lparr>k_mmio := (k_mmio k)(a := v)\<rparr>"

definition read32 :: "addr \<Rightarrow> kernel \<Rightarrow> u32" where
  "read32 a k = k_mmio k a"

definition write64 :: "addr \<Rightarrow> regsize \<Rightarrow> kernel \<Rightarrow> kernel" where
  "write64 a v k = write32 (a + 4) (ucast (drop_bit 32 v)) (write32 a (ucast v) k)"

definition KERNEL_SCHEDULER_TICK_TIME :: regsize where [simp, kconsts]: "KERNEL_SCHEDULER_TICK_TIME = ONE_SECOND"

definition set_timer_after :: "regsize \<Rightarrow> kernel \<Rightarrow> kernel" where
  "set_timer_after delta k = (let now = time_get_now k; future = now + delta in write64 MTIMECMP_BASE future k)"

text \<open>\<open>timer_trap\<close> is read by the assembly of the machine mode handler only; its address goes to \<open>mscratch\<close>.\<close>

definition machine_init_timer :: "kernel \<Rightarrow> kernel" where
  "machine_init_timer k =
     (let sym = entry_of (k_layout k);
          k = upd_csr (set_mtvec_csr (sym ''mtimertrap'') \<circ> set_mscratch_csr (sym ''timer_trap'')) k
      in set_timer_after KERNEL_SCHEDULER_TICK_TIME k)"

section \<open>Interrupt controller\<close>

definition PLIC_BASE :: addr where [simp, kconsts]: "PLIC_BASE = 0x0c000000"
definition PLIC_NUM_INTR_SOURCES :: nat where [simp, kconsts]: "PLIC_NUM_INTR_SOURCES = 53"
definition PLIC_MAX_PRIORITY :: u32 where [simp, kconsts]: "PLIC_MAX_PRIORITY = 7"
definition UART0_IRQ_NUM :: u32 where [simp, kconsts]: "UART0_IRQ_NUM = 10"
definition PLIC_PRIORITY :: addr where [simp, kconsts]: "PLIC_PRIORITY = PLIC_BASE"
definition PLIC_ENABLE :: addr where [simp, kconsts]: "PLIC_ENABLE = PLIC_BASE + 0x2000 + 0x80"
definition PLIC_CLAIM_RW :: addr where [simp, kconsts]: "PLIC_CLAIM_RW = PLIC_BASE + 0x200004 + 0x1000"

definition plic_set_intr_priority :: "u32 \<Rightarrow> u32 \<Rightarrow> kernel \<Rightarrow> kernel" where
  "plic_set_intr_priority intr_no priority k = write32 (PLIC_PRIORITY + 4 * scast intr_no) priority k"

definition plic_init :: "kernel \<Rightarrow> kernel" where
  "plic_init k = fold (\<lambda>i. plic_set_intr_priority (of_nat i) 0) [0..<PLIC_NUM_INTR_SOURCES] k"

text \<open>\<open>1 << n\<close> in \<open>int\<close>; the instruction uses the low five bits of \<open>n\<close>.\<close>

definition shl1 :: "u32 \<Rightarrow> u32" where
  "shl1 n = push_bit (unat n mod 32) 1"

definition plic_enable_intr :: "u32 \<Rightarrow> kernel \<Rightarrow> kernel" where
  "plic_enable_intr intr_no k =
     (if sint intr_no \<ge> 32 then write32 (PLIC_ENABLE + 4) (shl1 (intr_no - 32)) k
      else write32 PLIC_ENABLE (shl1 intr_no) k)"

definition plic_set_threshold :: "u32 \<Rightarrow> kernel \<Rightarrow> kernel" where
  "plic_set_threshold threshold k = write32 PLIC_THRESHOLD threshold k"

section \<open>Pins\<close>

definition GPIO_BASE :: addr where [simp, kconsts]: "GPIO_BASE = 0"
definition GPIO_PIN_OUT_EN :: addr where [simp, kconsts]: "GPIO_PIN_OUT_EN = 0x08"
definition GPIO_PIN_OUT_VAL :: addr where [simp, kconsts]: "GPIO_PIN_OUT_VAL = 0x0c"
definition GPIO_PIN_IOF_EN :: addr where [simp, kconsts]: "GPIO_PIN_IOF_EN = 0x38"
definition GPIO_PIN_0 :: u32 where [simp, kconsts]: "GPIO_PIN_0 = 16"
definition GPIO_PIN_1 :: u32 where [simp, kconsts]: "GPIO_PIN_1 = 17"
definition GPIO_PIN_12 :: u32 where [simp, kconsts]: "GPIO_PIN_12 = 4"
definition GPIO_PIN_16 :: u32 where [simp, kconsts]: "GPIO_PIN_16 = 10"
definition GPIO_ERR_0_1 :: int where [simp, kconsts]: "GPIO_ERR_0_1 = -1"
definition GPIO_ERR_12 :: int where [simp, kconsts]: "GPIO_ERR_12 = -2"
definition GPIO_ERR_16 :: int where [simp, kconsts]: "GPIO_ERR_16 = -3"
definition GPIO_ERR_BAD_VALUE :: int where [simp, kconsts]: "GPIO_ERR_BAD_VALUE = -4"
definition GPIO_ERR_BAD_ENABLE :: int where [simp, kconsts]: "GPIO_ERR_BAD_ENABLE = -5"

definition upd_reg :: "addr \<Rightarrow> (u32 \<Rightarrow> u32) \<Rightarrow> kernel \<Rightarrow> kernel" where
  "upd_reg r f k = write32 (GPIO_BASE + r) (f (read32 (GPIO_BASE + r) k)) k"

definition gpio_enable_pin_out :: "u32 \<Rightarrow> kernel \<Rightarrow> kernel" where
  "gpio_enable_pin_out pin k =
     upd_reg GPIO_PIN_IOF_EN (\<lambda>v. v AND NOT (shl1 pin)) (upd_reg GPIO_PIN_OUT_EN (\<lambda>v. v OR shl1 pin) k)"

definition gpio_disable_pin_out :: "u32 \<Rightarrow> kernel \<Rightarrow> kernel" where
  "gpio_disable_pin_out pin k =
     upd_reg GPIO_PIN_IOF_EN (\<lambda>v. v OR shl1 pin) (upd_reg GPIO_PIN_OUT_EN (\<lambda>v. v AND NOT (shl1 pin)) k)"

definition gpio_set_pin :: "u32 \<Rightarrow> u32 \<Rightarrow> kernel \<Rightarrow> kernel" where
  "gpio_set_pin pin value k =
     upd_reg GPIO_PIN_OUT_VAL (\<lambda>v. if value \<noteq> 0 then v OR shl1 pin else v AND NOT (shl1 pin)) k"

definition gpio_toggle_pin :: "u32 \<Rightarrow> kernel \<Rightarrow> kernel" where
  "gpio_toggle_pin pin k = upd_reg GPIO_PIN_OUT_VAL (\<lambda>v. v XOR shl1 pin) k"

definition gpio_do_syscall :: "u32 \<Rightarrow> u32 \<Rightarrow> u32 \<Rightarrow> kernel \<Rightarrow> int \<times> kernel" where
  "gpio_do_syscall pin_num enable_disable value k =
     (if pin_num = GPIO_PIN_0 \<or> pin_num = GPIO_PIN_1 then (GPIO_ERR_0_1, k)
      else if pin_num = GPIO_PIN_12 then (GPIO_ERR_12, k)
      else if pin_num = GPIO_PIN_16 then (GPIO_ERR_16, k)
      else if enable_disable = 0 then (0, gpio_disable_pin_out pin_num k)
      else if enable_disable = 1 then (0, gpio_enable_pin_out pin_num k)
      else if enable_disable = -1 then
        (if value = 0 \<or> value = 1 then (0, gpio_set_pin pin_num value k)
         else if value = 2 then (0, gpio_toggle_pin pin_num k)
         else (GPIO_ERR_BAD_VALUE, k))
      else (GPIO_ERR_BAD_ENABLE, k))"

end
