(* ===== verification/Proc.thy ===== *)
theory Proc
  imports Fs Devices
begin

text \<open>
  Processes (\<^verbatim>\<open>src/proc.c\<close>): creation, \<open>fork\<close>, \<open>execv\<close>, \<open>exit\<close>, waiting, and the
  system calls on descriptors, pages and the process table. The first argument
  of most operations is the index of the calling process, which \<open>myproc\<close> gives.
  An operation that may give up the processor returns no result then; where the
  process goes on is kept in \<open>p_kont\<close>.
\<close>

section \<open>Creation\<close>

definition init_process_table :: "kernel \<Rightarrow> kernel" where
  "init_process_table k =
     upd_pt (\<lambda>t. t\<lparr>pt_pid_counter := 0, pt_procs := map (\<lambda>p. p\<lparr>p_state := AVAILABLE\<rparr>) (pt_procs t)\<rparr>) k"

definition alloc_pid :: "kernel \<Rightarrow> (u32 \<times> kernel) res" where
  "alloc_pid k =
     bnd (acquire_pt k) (\<lambda>k.
     let pid = pt_pid_counter (k_proc_table k) in
     Inr (pid, release_pt (upd_pt (\<lambda>t. t\<lparr>pt_pid_counter := pid + 1\<rparr>) k)))"

fun alloc_process_loop :: "nat list \<Rightarrow> kernel \<Rightarrow> (nat option \<times> kernel) res" where
  "alloc_process_loop [] k = Inr (None, release_pt k)"
| "alloc_process_loop (i # is) k =
     (if k_cpu_proc k = Some i then alloc_process_loop is k
      else bnd (acquire_proc i k) (\<lambda>k.
        if p_state (proc_of k i) = AVAILABLE then Inr (Some i, release_pt k)
        else alloc_process_loop is (release_proc i k)))"

definition alloc_process :: "kernel \<Rightarrow> (nat option \<times> kernel) res" where
  "alloc_process k = bnd (acquire_pt k) (alloc_process_loop [0..<MAX_PROCS])"

definition set_perrno :: "addr \<Rightarrow> kernel \<Rightarrow> addr" where
  "set_perrno sp k = sp + k_user_stack_size k - 8"

text \<open>The two files below the directory of a process.\<close>

definition procfs_files :: "nat \<Rightarrow> nat option \<Rightarrow> string option \<Rightarrow> kernel \<Rightarrow> (int \<times> kernel) res" where
  "procfs_files i dir name k =
     (case bifs_allocate_file k of (nf, k) \<Rightarrow>
      let k = upd_proc i (\<lambda>p. p\<lparr>p_procfs_name_file := nf\<rparr>) k in
      case nf of None \<Rightarrow> Inr (- ENFILE, k) | Some nf \<Rightarrow>
      let data = LitData (case name of None \<Rightarrow> [] | Some s \<Rightarrow> s);
          k = upd_bfile nf (\<lambda>f. f\<lparr>bf_parent := dir, bf_flags := BIFS_READABLE OR BIFS_RAW, bf_name := ''name'',
                bf_data := data\<rparr>) k
      in (case bifs_allocate_file k of
            (None, k) \<Rightarrow> Inr (- ENFILE, k)
          | (Some sf, k) \<Rightarrow>
              Inr (0, upd_bfile sf (\<lambda>f. f\<lparr>bf_parent := dir, bf_flags := BIFS_READABLE OR BIFS_RAW OR BIFS_TMPFILE,
                bf_name := ''stats'', bf_dataquery := StatsQuery i\<rparr>) k)))"

definition init_procfs_files :: "nat \<Rightarrow> string option \<Rightarrow> kernel \<Rightarrow> (int \<times> kernel) res" where
  "init_procfs_files i name k =
     bnd (itoa (p_piddir (proc_of k i)) (int MAX_FILENAME_LEN) (p_pid (proc_of k i))) (\<lambda>(status, piddir).
     let k = upd_proc i (\<lambda>p. p\<lparr>p_piddir := piddir\<rparr>) k in
     if status < 0 then Inr (- ENOBUFS, k) else
     bnd (bifs_mkdir ''/proc'' (PidDir i) k) (\<lambda>(dir, k).
     let k = upd_proc i (\<lambda>p. p\<lparr>p_procfs_dir := dir\<rparr>) k in
     if dir = None then Inr (- ENFILE, k) else procfs_files i dir name k))"

definition GUARD_PAGE :: regsize where "GUARD_PAGE = TOPMOST_VIRT_PAGE - PAGE_SIZE"

text \<open>
  The part of \<open>init_proc\<close> that fills in the structure once the three pages are
  there; \<open>forkret\<close> is the address in the saved return register.
\<close>

definition init_proc_fields :: "nat \<Rightarrow> regsize \<Rightarrow> string option \<Rightarrow> addr \<Rightarrow> addr \<Rightarrow> kernel \<Rightarrow> kernel" where
  "init_proc_fields i pc name sp ksp k =
     (let k = upd_proc i (\<lambda>p. p\<lparr>p_name := name,
            p_trap := set_reg REG_TP (tf_reg k REG_TP) (set_reg REG_SP
              (STK_ROUND (USR_STK_VIRT sp + k_user_stack_size k - 8)) ((p_trap p)\<lparr>tf_pc := pc\<rparr>)),
            p_stack_page := sp, p_perrno := set_perrno sp k, p_kstack_page := ksp, p_state := READY,
            p_files := (replicate MAX_PROC_FDS None)[FD_STDIN := Some Stdin, FD_STDOUT := Some Stdout, FD_STDERR := Some Stderr],
            p_ctx := (replicate 14 0)[REG_RA := entry_of (k_layout k) ''forkret'', REG_SP := ksp + PAGE_SIZE],
            p_kont := KForkret, p_nscheds := 0,
            p_cond := \<lparr>pc_type = PWAKE_COND_CHAN, pc_target_pid = -1, pc_want_nscheds = 0\<rparr>,
            p_magic := ksp\<rparr>) k
      in k\<lparr>k_mem := store32 (k_mem k) ksp PROC_MAGIC_STACK_SENTINEL\<rparr>)"

definition init_proc :: "nat \<Rightarrow> regsize \<Rightarrow> string option \<Rightarrow> kernel \<Rightarrow> (int \<times> kernel) res" where
  "init_proc i pc name k =
     bnd (alloc_pid k) (\<lambda>(pid, k).
     let k = upd_proc i (\<lambda>p. p\<lparr>p_pid := pid\<rparr>) k in
     bnd (kalloc_k ''init_proc: sp'' pid k) (\<lambda>(sp, k).
     if sp = 0 then Inr (- ENOMEM, k) else
     bnd (kalloc_k ''init_proc: ksp'' pid k) (\<lambda>(ksp, k).
     if ksp = 0 then bnd (release_page_k sp k) (\<lambda>k. Inr (- ENOMEM, k)) else
     bnd (kalloc_k ''init_proc: upagetable'' pid k) (\<lambda>(upagetable, k).
     if upagetable = 0 then bnd (release_page_k sp k) (\<lambda>k. bnd (release_page_k ksp k) (\<lambda>k. Inr (- ENOMEM, k))) else
     let k = upd_proc i (\<lambda>p. p\<lparr>p_upagetable := upagetable, p_usatp := MAKE_SATP upagetable\<rparr>) k in
     bnd (with_vm (init_user_page_table (k_layout k) upagetable pid) k) (\<lambda>k.
     bnd (with_vm (map_page_sv39 upagetable sp TOPMOST_VIRT_PAGE PERM_UDATA pid) k) (\<lambda>k.
     bnd (with_vm (map_page_sv39 upagetable 0 GUARD_PAGE PERM_KDATA pid) k) (\<lambda>k.
     bnd (init_procfs_files i name (init_proc_fields i pc name sp ksp k)) (\<lambda>(status, k).
     if status \<noteq> 0 then Inr (status, k) else
     bnd (acquire_pt k) (\<lambda>k.
     Inr (0, release_pt (upd_pt (\<lambda>t. t\<lparr>pt_num_procs := pt_num_procs t + 1\<rparr>) k)))))))))))"

section \<open>Fork\<close>

fun copy_files_loop :: "nat list \<Rightarrow> nat \<Rightarrow> nat \<Rightarrow> kernel \<Rightarrow> kernel" where
  "copy_files_loop [] dst src k = k"
| "copy_files_loop (fd # fds) dst src k =
     (let pf = p_files (proc_of k src) ! fd;
          k = (case pf of Some f \<Rightarrow> upd_file f (\<lambda>x. x\<lparr>f_refcount := f_refcount x + 1\<rparr>) k | None \<Rightarrow> k)
      in copy_files_loop fds dst src (upd_proc dst (\<lambda>p. p\<lparr>p_files := (p_files p)[fd := pf]\<rparr>) k))"

definition copy_files :: "nat \<Rightarrow> nat \<Rightarrow> kernel \<Rightarrow> kernel" where
  "copy_files dst src k = copy_files_loop [0..<MAX_PROC_FDS] dst src k"

text \<open>
  \<open>copy_trap_frame\<close> copies 32 words, the last of which is the program counter
  that follows the 31 registers, so the whole structure.
\<close>

definition copy_trap_frame :: "trap_frame_t \<Rightarrow> trap_frame_t \<Rightarrow> trap_frame_t" where
  "copy_trap_frame dst src = src"

definition fork_child :: "nat \<Rightarrow> nat \<Rightarrow> kernel \<Rightarrow> (int \<times> kernel) res" where
  "fork_child i c k =
     (let k = upd_proc c (\<lambda>p. p\<lparr>p_parent := Some i\<rparr>) k;
          par = proc_of k i; chi = proc_of k c;
          mem = copy_page (k_mem k) (p_stack_page chi) (p_stack_page par);
          mem = copy_page mem (p_kstack_page chi) (p_kstack_page par);
          k = upd_proc c (\<lambda>p. p\<lparr>p_trap := copy_trap_frame (p_trap p) (p_trap par)\<rparr>) (k\<lparr>k_mem := mem\<rparr>);
          k = copy_files c i k
      in bnd (with_vm (copy_page_table (p_upagetable chi) (p_upagetable par) (p_pid chi)) k) (\<lambda>k.
         bnd (with_vm (map_page_sv39 (p_upagetable chi) (p_stack_page chi) TOPMOST_VIRT_PAGE PERM_UDATA (p_pid chi)) k) (\<lambda>k.
         bnd (with_vm (map_page_sv39 (p_upagetable chi) 0 GUARD_PAGE PERM_KDATA (p_pid chi)) k) (\<lambda>k.
         let koffset = p_ctx (proc_of k i) ! REG_SP - p_kstack_page (proc_of k i);
             k = upd_proc c (\<lambda>p. p\<lparr>p_ctx := (p_ctx p)[REG_SP := p_kstack_page p + koffset, REG_FP := p_kstack_page p + koffset],
                   p_trap := set_reg REG_A0 0 (p_trap p)\<rparr>) k;
             k = set_tf_reg REG_A0 (ucast (p_pid chi)) (release_proc c k)
         in Inr (sint (p_pid chi), k)))))"

definition proc_fork :: "kernel \<Rightarrow> (int \<times> kernel) res" where
  "proc_fork k =
     bnd (myproc k) (\<lambda>i.
     let k = upd_proc i (\<lambda>p. p\<lparr>p_trap := copy_trap_frame (p_trap p) (k_trap_frame k)\<rparr>) k in
     bnd (alloc_process k) (\<lambda>(child, k).
     case child of
       None \<Rightarrow> Inl NullDeref
     | Some c \<Rightarrow>
         bnd (init_proc c (tf_pc (p_trap (proc_of k i))) None k) (\<lambda>(status, k).
         if status \<noteq> 0 then Inr (-1, release_proc c (set_errno i (- status) k))
         else fork_child i c k)))"

text \<open>What \<open>forkret\<close> does before it enters user mode.\<close>

definition forkret :: "kernel \<Rightarrow> kernel res" where
  "forkret k =
     bnd (myproc k) (\<lambda>i.
     let k = k\<lparr>k_trap_frame := copy_trap_frame (k_trap_frame k) (p_trap (proc_of k i))\<rparr> in
     Inr (upd_csr enable_interrupts (release_proc i k)))"

section \<open>Execv\<close>

fun len_argv_loop :: "nat \<Rightarrow> memory \<Rightarrow> addr \<Rightarrow> regsize \<Rightarrow> regsize res" where
  "len_argv_loop 0 mem argv argc = Inl Diverges"
| "len_argv_loop (Suc n) mem argv argc =
     (if load64 mem (argv + 8 * argc) \<noteq> 0 then len_argv_loop n mem argv (argc + 1) else Inr argc)"

text \<open>After \<open>2 ^ 61\<close> words the pointer has been all around the address space.\<close>

definition len_argv :: "memory \<Rightarrow> addr \<Rightarrow> regsize res" where
  "len_argv mem argv = (if argv = 0 then Inr 0 else len_argv_loop (2 ^ 61) mem argv 0)"

text \<open>\<open>while (j >= 0) *spc-- = str[j--]\<close>: the first argument is \<open>j + 1\<close>.\<close>

fun push_str :: "nat \<Rightarrow> addr \<Rightarrow> addr \<Rightarrow> memory \<Rightarrow> addr \<times> memory" where
  "push_str 0 str spc mem = (spc, mem)"
| "push_str (Suc j) str spc mem = push_str j str (spc - 1) (mem(spc := mem (str + of_nat j)))"

fun copy_argv_loop :: "nat \<Rightarrow> nat \<Rightarrow> addr \<Rightarrow> addr \<Rightarrow> addr \<Rightarrow> addr \<Rightarrow> memory \<Rightarrow> (addr \<times> memory) res" where
  "copy_argv_loop 0 i pt sp argv spc mem = Inr (spc, mem)"
| "copy_argv_loop (Suc n) i pt sp argv spc mem =
     (let str = va2pa pt (load64 mem (argv + of_nat (8 * i))) mem in
      if str = 0 then Inl NullDeref else
      bnd (read_cstr str_bound mem str) (\<lambda>s.
      let j = length s;
          mem = mem(spc := 0);
          (spc, mem) = push_str (j + 1) str (spc - 1) mem;
          mem = store64 mem (sp + of_nat (8 * i)) (USR_STK_VIRT (spc + 1))
      in copy_argv_loop n (i + 1) pt sp argv spc mem))"

text \<open>The results are \<open>new_sp\<close> and \<open>new_argv\<close>.\<close>

definition copy_argv :: "nat \<Rightarrow> addr \<Rightarrow> regsize \<Rightarrow> addr \<Rightarrow> kernel \<Rightarrow> ((regsize \<times> regsize) \<times> kernel) res" where
  "copy_argv i sp argc argv k =
     (if argc = 0 \<or> argv = 0 then Inr ((sp, 0), k)
      else let mem = store64 (k_mem k) sp 0;
               sp = sp - 8 - 8 * argc
           in bnd (copy_argv_loop (unat argc) 0 (p_upagetable (proc_of k i)) sp argv (sp - 1) mem) (\<lambda>(spc, mem).
              Inr ((STK_ROUND spc, sp), k\<lparr>k_mem := mem\<rparr>)))"

text \<open>The arguments are strings of the kernel.\<close>

fun inject_argv_loop :: "string list \<Rightarrow> addr \<Rightarrow> addr \<Rightarrow> memory \<Rightarrow> addr \<times> addr \<times> memory" where
  "inject_argv_loop [] stack_bottom new_argv mem = (stack_bottom, new_argv, mem)"
| "inject_argv_loop (s # ss) stack_bottom new_argv mem =
     (let len = kstrlen s;
          stack_bottom = stack_bottom - of_int (len + 1);
          mem = strncpy_mem mem stack_bottom s 0 (of_int (len + 1));
          mem = store64 mem new_argv (USR_STK_VIRT stack_bottom)
      in inject_argv_loop ss stack_bottom (new_argv + 8) mem)"

definition inject_argv :: "nat \<Rightarrow> string list \<Rightarrow> kernel \<Rightarrow> kernel" where
  "inject_argv i argv k =
     (let argc = length argv;
          bottom = p_perrno (proc_of k i) - of_nat (8 * argc) - 8
      in case inject_argv_loop argv bottom bottom (k_mem k) of (stack_bottom, new_argv, mem) \<Rightarrow>
         upd_proc i (\<lambda>p. p\<lparr>p_trap := set_reg REG_A1 (USR_STK_VIRT (new_argv - of_nat (8 * argc)))
             (set_reg REG_A0 (of_nat argc) (set_reg REG_SP (STK_ROUND (USR_STK_VIRT stack_bottom)) (p_trap p)))\<rparr>)
           (k\<lparr>k_mem := store64 mem new_argv 0\<rparr>))"

text \<open>The first \<open>n\<close> characters of a string in memory, which is all that a bounded comparison looks at.\<close>

fun read_strn :: "nat \<Rightarrow> memory \<Rightarrow> addr \<Rightarrow> string" where
  "read_strn 0 mem a = []"
| "read_strn (Suc n) mem a = (if mem a = 0 then [] else char_of (unat (mem a)) # read_strn n mem (a + 1))"

text \<open>\<open>proc_execv\<close> from the allocation of the stack page on.\<close>

definition exec_program :: "nat \<Rightarrow> string \<Rightarrow> addr \<Rightarrow> regsize \<Rightarrow> kernel \<Rightarrow> (int \<times> kernel) res" where
  "exec_program i program sp argv k =
     (let pc = USR_VIRT (entry_of (k_layout k) program);
          k = upd_proc i (\<lambda>p. p\<lparr>p_trap := (p_trap p)\<lparr>tf_pc := pc\<rparr>, p_name := Some program, p_perrno := set_perrno sp k\<rparr>) k;
          argv = va2pa_k i argv k
      in bnd (len_argv (k_mem k) argv) (\<lambda>argc.
         bnd (copy_argv i (sp + k_user_stack_size k - 16) argc argv k) (\<lambda>((new_sp, new_argv), k).
         let pt = p_upagetable (proc_of k i); pid = p_pid (proc_of k i) in
         bnd (with_vm (map_page_sv39 pt sp TOPMOST_VIRT_PAGE PERM_UDATA pid) k) (\<lambda>k.
         bnd (with_vm (map_page_sv39 pt 0 GUARD_PAGE PERM_KDATA pid) k) (\<lambda>k.
         bnd (release_page_k (p_stack_page (proc_of k i)) k) (\<lambda>k.
         let k = upd_proc i (\<lambda>p. p\<lparr>p_stack_page := sp,
               p_trap := set_reg REG_A1 (USR_STK_VIRT new_argv) (set_reg REG_A0 argc
                 (set_reg REG_FP (USR_STK_VIRT new_sp) (set_reg REG_SP (USR_STK_VIRT new_sp)
                 (set_reg REG_RA (tf_pc (p_trap p)) (p_trap p)))))\<rparr>) k;
             k = k\<lparr>k_trap_frame := copy_trap_frame (k_trap_frame k) (p_trap (proc_of k i))\<rparr>
         in (case p_procfs_name_file (proc_of k i) of
               None \<Rightarrow> Inl NullDeref
             | Some nf \<Rightarrow> Inr (sint (ucast argc :: u32),
                 release_proc i (upd_bfile nf (\<lambda>f. f\<lparr>bf_data := LitData program\<rparr>) k)))))))))"

definition proc_execv :: "regsize \<Rightarrow> regsize \<Rightarrow> kernel \<Rightarrow> (int \<times> kernel) res" where
  "proc_execv filename argv k =
     bnd (myproc k) (\<lambda>i.
     bnd (acquire_proc i k) (\<lambda>k.
     let filename = va2pa_k i filename k in
     if filename = 0 then Inr (-1, set_errno i EINVAL k) else
     (case find_user_program (read_strn 17 (k_mem k) filename) of
        None \<Rightarrow> Inr (-1, set_errno i ENOENT k)
      | Some program \<Rightarrow>
          bnd (kalloc_k ''proc_execv: sp'' (p_pid (proc_of k i)) k) (\<lambda>(sp, k).
          if sp = 0 then Inr (-1, set_errno i ENOMEM k) else exec_program i program sp argv k))))"

section \<open>Exit, waiting and sleeping\<close>

fun close_files :: "file_ref option list \<Rightarrow> kernel \<Rightarrow> kernel res" where
  "close_files [] k = Inr k"
| "close_files (pf # fs) k =
     bnd (case pf of Some f \<Rightarrow> fs_free_file f k | None \<Rightarrow> Inr k) (close_files fs)"

text \<open>\<open>proc_exit\<close> once the process is a zombie: the parent is made ready, ...\<close>

definition exit_notify :: "nat \<Rightarrow> kernel \<Rightarrow> kernel res" where
  "exit_notify i k =
     (case p_parent (proc_of k i) of None \<Rightarrow> Inl NullDeref | Some par \<Rightarrow>
      bnd (acquire_proc par k) (\<lambda>k.
      let k = upd_proc par (\<lambda>p. p\<lparr>p_state := READY\<rparr>) k in
      Inr (release_proc par (k\<lparr>k_trap_frame := copy_trap_frame (k_trap_frame k) (p_trap (proc_of k par))\<rparr>))))"

text \<open>... and the files below \<^verbatim>\<open>/proc\<close> go.\<close>

definition exit_finish :: "nat \<Rightarrow> kernel \<Rightarrow> (int option \<times> kernel) res" where
  "exit_finish i k =
     (case (p_procfs_dir (proc_of k i), p_procfs_name_file (proc_of k i)) of
        (Some d, Some nf) \<Rightarrow>
          bnd (acquire_pt (upd_bfile nf (\<lambda>f. f\<lparr>bf_flags := 0\<rparr>) (upd_dir d (\<lambda>x. x\<lparr>bd_flags := 0\<rparr>) k))) (\<lambda>k.
          let k = release_pt (upd_pt (\<lambda>t. t\<lparr>pt_num_procs := pt_num_procs t - 1\<rparr>) k) in
          Inr (None, upd_proc i (\<lambda>p. p\<lparr>p_kont := KExit\<rparr>) k))
      | _ \<Rightarrow> Inl NullDeref)"

definition proc_exit :: "kernel \<Rightarrow> (int option \<times> kernel) res" where
  "proc_exit k =
     bnd (myproc k) (\<lambda>i.
     bnd (release_page_k (p_stack_page (proc_of k i)) k) (\<lambda>k.
     bnd (with_vm (free_page_table (p_upagetable (proc_of k i))) k) (\<lambda>k.
     bnd (exit_notify i (upd_proc i (\<lambda>p. p\<lparr>p_state := ZOMBIE\<rparr>) k)) (\<lambda>k.
     bnd (close_files (p_files (proc_of k i)) k) (exit_finish i)))))"

text \<open>\<open>sched\<close> with a current process, up to \<open>swtch\<close>; without one it enters the scheduler.\<close>

definition sched :: "kernel \<Rightarrow> kernel" where
  "sched k = (case k_cpu_proc k of
       None \<Rightarrow> k
     | Some i \<Rightarrow> upd_proc i (\<lambda>p. p\<lparr>p_state := READY, p_kont := KSched\<rparr>) k)"

definition proc_wait_by_cond :: "nat \<Rightarrow> pwake_cond_t \<Rightarrow> kernel \<Rightarrow> int option \<times> kernel" where
  "proc_wait_by_cond i cond k =
     (if pc_type cond \<noteq> PWAKE_COND_NSCHEDS then (Some (-1), set_errno i ENOSYS k)
      else (case find_proc_by_pid (pc_target_pid cond) k of
          None \<Rightarrow> (Some (-1), set_errno i ESRCH k)
        | Some t \<Rightarrow>
            (None, psleep i KSleep (upd_proc i (\<lambda>p. p\<lparr>p_cond := cond\<lparr>pc_want_nscheds := pc_want_nscheds cond + p_nscheds (proc_of k t)\<rparr>,
               p_chan := ChanProc t\<rparr>) k))))"

definition proc_wait :: "regsize \<Rightarrow> kernel \<Rightarrow> (int option \<times> kernel) res" where
  "proc_wait cond k =
     bnd (myproc k) (\<lambda>i.
     let a = va2pa_k i cond k in
     if a \<noteq> 0 then
       Inr (proc_wait_by_cond i \<lparr>pc_type = load32 (k_mem k) a, pc_target_pid = load32 (k_mem k) (a + 4),
              pc_want_nscheds = load64 (k_mem k) (a + 8)\<rparr> k)
     else
       bnd (check_exited_children i k) (\<lambda>(chpid, k).
       if chpid \<ge> 0 then Inr (Some chpid, k) else Inr (None, psleep i KSleep k)))"

definition proc_sleep :: "regsize \<Rightarrow> kernel \<Rightarrow> (int option \<times> kernel) res" where
  "proc_sleep milliseconds k =
     (let now = time_get_now k;
          delta = (ONE_SECOND div 1000) * milliseconds
      in bnd (myproc k) (\<lambda>i. Inr (None, psleep i KSleep (upd_proc i (\<lambda>p. p\<lparr>p_wakeup_time := now + delta\<rparr>) k))))"

definition patch_proc_sp :: "nat \<Rightarrow> regsize \<Rightarrow> kernel \<Rightarrow> kernel" where
  "patch_proc_sp i sp k = upd_proc i (\<lambda>p. p\<lparr>p_ctx := (p_ctx p)[REG_SP := sp]\<rparr>) k"

section \<open>Process table queries\<close>

definition state_num :: "pstate \<Rightarrow> u32" where
  "state_num s = (case s of AVAILABLE \<Rightarrow> 0 | READY \<Rightarrow> 1 | RUNNING \<Rightarrow> 2 | SLEEPING \<Rightarrow> 3 | ZOMBIE \<Rightarrow> 4)"

fun plist_loop :: "process_t list \<Rightarrow> addr \<Rightarrow> nat \<Rightarrow> memory \<Rightarrow> nat \<times> memory" where
  "plist_loop [] pids p mem = (p, mem)"
| "plist_loop (q # qs) pids p mem =
     (if p_state q \<noteq> AVAILABLE then plist_loop qs pids (p + 1) (store32 mem (pids + of_nat (4 * p)) (p_pid q))
      else plist_loop qs pids p mem)"

definition proc_plist :: "regsize \<Rightarrow> u32 \<Rightarrow> kernel \<Rightarrow> (int \<times> kernel) res" where
  "proc_plist pids sz k =
     bnd (myproc k) (\<lambda>i.
     let pids = va2pa_k i pids k in
     if pids = 0 then Inr (-1, set_errno i EINVAL k)
     else if sz < of_nat MAX_PROCS then Inr (-1, set_errno i EINVAL k)
     else bnd (acquire_pt k) (\<lambda>k.
       case plist_loop (procs k) pids 0 (k_mem k) of (p, mem) \<Rightarrow> Inr (int p, release_pt (k\<lparr>k_mem := mem\<rparr>))))"

text \<open>\<open>pinfo_t\<close>: the pid, 16 characters, the state, the counter at offset 24.\<close>

definition put_pinfo :: "addr \<Rightarrow> process_t \<Rightarrow> memory \<Rightarrow> memory res" where
  "put_pinfo a p mem =
     (case p_name p of
        None \<Rightarrow> Inl NullDeref
      | Some name \<Rightarrow>
          Inr (store64 (store32 (strncpy_mem (store32 mem a (p_pid p)) (a + 4) name 0 16) (a + 20) (state_num (p_state p)))
            (a + 24) (p_nscheds p)))"

definition proc_pinfo :: "u32 \<Rightarrow> regsize \<Rightarrow> kernel \<Rightarrow> (int \<times> kernel) res" where
  "proc_pinfo pid pinfo k =
     bnd (myproc k) (\<lambda>i.
     let a = va2pa_k i pinfo k in
     if a = 0 then Inr (-1, k) else
     bnd (acquire_pt k) (\<lambda>k.
     case find_proc_by_pid pid k of
       None \<Rightarrow> Inr (0, release_pt k)
     | Some j \<Rightarrow>
         bnd (if pid \<noteq> p_pid (proc_of k i) then acquire_proc j k else Inr k) (\<lambda>k.
         bnd (put_pinfo a (proc_of k j) (k_mem k)) (\<lambda>mem.
         let k = k\<lparr>k_mem := mem\<rparr>;
             k = (if pid \<noteq> p_pid (proc_of k i) then release_proc j k else k)
         in Inr (0, release_pt k)))))"

definition proc_getpid :: "kernel \<Rightarrow> (int \<times> kernel) res" where
  "proc_getpid k = bnd (myproc k) (\<lambda>i. Inr (sint (p_pid (proc_of k i)), k))"

text \<open>\<open>sysinfo_t\<close>: total and free pages, the number of processes, two addresses at offsets 16 and 24.\<close>

definition proc_sysinfo :: "kernel \<Rightarrow> (int \<times> kernel) res" where
  "proc_sysinfo k =
     bnd (myproc k) (\<lambda>i.
     let a = va2pa_k i (tf_reg k REG_A0) k in
     bnd (acquire_pt k) (\<lambda>k.
     if a = 0 then Inl NullDeref else
     let k = release_pt (k\<lparr>k_mem := store32 (k_mem k) (a + 8) (of_int (pt_num_procs (k_proc_table k)))\<rparr>) in
     bnd (acquire (pm_lock (k_pm k))) (\<lambda>l.
     let pm = k_pm k;
         mem = store32 (k_mem k) a (pm_num_pages pm);
         mem = store32 mem (a + 4) (count_free_pages pm);
         mem = store64 mem (a + 16) (pm_unclaimed_start pm);
         mem = store64 mem (a + 24) (pm_unclaimed_end pm)
     in Inr (0, k\<lparr>k_mem := mem, k_pm := pm\<lparr>pm_lock := release l\<rparr>\<rparr>))))"

section \<open>Descriptors\<close>

definition proc_open :: "regsize \<Rightarrow> u32 \<Rightarrow> kernel \<Rightarrow> (int \<times> kernel) res" where
  "proc_open filepath flags k =
     bnd (myproc k) (\<lambda>i.
     let a = va2pa_k i filepath k in
     if a = 0 then Inr (-1, set_errno i EINVAL k) else
     bnd (fs_alloc_file k) (\<lambda>(f, k).
     case f of None \<Rightarrow> Inr (-1, set_errno i ENFILE k) | Some f \<Rightarrow>
     bnd (acquire_proc i k) (\<lambda>k.
     case fd_alloc i f k of (fd, k) \<Rightarrow>
     if fd < 0 then Inr (-1, release_proc i (set_errno i EMFILE k)) else
     bnd (read_cstr str_bound (k_mem k) a) (\<lambda>path.
     bnd (fs_open f path flags k) (\<lambda>(status, k).
     if status < 0 then Inr (-1, release_proc i (set_errno i (- status) (fd_free i (nat fd) k)))
     else Inr (fd, release_proc i k))))))"

text \<open>What \<open>proc_read\<close> and \<open>proc_write\<close> do with the result of the file operation.\<close>

definition proc_read_done :: "nat \<Rightarrow> file_ref \<Rightarrow> int option \<times> kernel \<Rightarrow> int option \<times> kernel" where
  "proc_read_done i f r = (case r of
       (None, k) \<Rightarrow> (None, k)
     | (Some nread, k) \<Rightarrow>
         if nread < 0 then (Some (-1), set_errno i (- nread) k)
         else (Some nread, upd_file f (\<lambda>x. x\<lparr>f_position := f_position x + of_int nread\<rparr>) k))"

definition proc_write_done :: "nat \<Rightarrow> int option \<times> kernel \<Rightarrow> int option \<times> kernel" where
  "proc_write_done i r = (case r of
       (None, k) \<Rightarrow> (None, k)
     | (Some status, k) \<Rightarrow> if status < 0 then (Some (-1), set_errno i (- status) k) else (Some status, k))"

definition proc_read :: "u32 \<Rightarrow> regsize \<Rightarrow> u32 \<Rightarrow> kernel \<Rightarrow> (int option \<times> kernel) res" where
  "proc_read fd buf sz k =
     bnd (myproc k) (\<lambda>i.
     bnd (get_fd i (unat fd) k) (\<lambda>f.
     case f of None \<Rightarrow> Inr (Some (-1), set_errno i EBADF k) | Some f \<Rightarrow>
     let buf = va2pa_k i buf k in
     if buf = 0 then Inr (Some (-1), set_errno i EINVAL k) else
     bnd (fs_read f (f_position (file_of k f)) buf sz k) (\<lambda>r. Inr (proc_read_done i f r))))"

definition proc_write :: "u32 \<Rightarrow> regsize \<Rightarrow> u32 \<Rightarrow> kernel \<Rightarrow> (int option \<times> kernel) res" where
  "proc_write fd buf nbytes k =
     bnd (myproc k) (\<lambda>i.
     bnd (get_fd i (unat fd) k) (\<lambda>f.
     case f of None \<Rightarrow> Inr (Some (-1), set_errno i EBADF k) | Some f \<Rightarrow>
     let buf = va2pa_k i buf k in
     if buf = 0 then Inr (Some (-1), set_errno i EINVAL k) else
     bnd (if nbytes = -1 then bnd (read_cstr str_bound (k_mem k) buf) (\<lambda>s. Inr (of_int (kstrlen s))) else Inr nbytes) (\<lambda>nbytes.
     bnd (fs_write f (f_position (file_of k f)) buf nbytes k) (\<lambda>r. Inr (proc_write_done i r)))))"

definition proc_close :: "u32 \<Rightarrow> kernel \<Rightarrow> (int \<times> kernel) res" where
  "proc_close fd k =
     bnd (myproc k) (\<lambda>i.
     bnd (get_fd i (unat fd) k) (\<lambda>f.
     case f of None \<Rightarrow> Inr (-1, set_errno i EBADF k) | Some f \<Rightarrow>
     bnd (fs_free_file f k) (\<lambda>k. Inr (k_noret k, fd_free i (unat fd) k))))"

definition proc_dup :: "u32 \<Rightarrow> kernel \<Rightarrow> (int \<times> kernel) res" where
  "proc_dup fd k =
     bnd (myproc k) (\<lambda>i.
     bnd (get_fd i (unat fd) k) (\<lambda>f.
     case f of None \<Rightarrow> Inr (-1, set_errno i EBADF k) | Some f \<Rightarrow>
     (case fd_alloc i f k of (newfd, k) \<Rightarrow>
      if newfd < 0 then Inr (newfd, set_errno i EMFILE k)
      else Inr (newfd, upd_file f (\<lambda>x. x\<lparr>f_refcount := f_refcount x + 1\<rparr>) k))))"

text \<open>\<open>proc->files[fd]\<close> with a signed index.\<close>

definition get_sfd :: "nat \<Rightarrow> u32 \<Rightarrow> kernel \<Rightarrow> file_ref option res" where
  "get_sfd i fd k = (if sint fd < 0 then Inl OutOfBounds else get_fd i (unat fd) k)"

definition proc_isopen :: "u32 \<Rightarrow> kernel \<Rightarrow> (int \<times> kernel) res" where
  "proc_isopen fd k =
     bnd (myproc k) (\<lambda>i. bnd (get_sfd i fd k) (\<lambda>f. Inr (if f \<noteq> None then 1 else 0, k)))"

definition obj_chan :: "fs_obj \<Rightarrow> chan" where
  "obj_chan ob = (case ob of NoObj \<Rightarrow> NoChan | PipeObj pp \<Rightarrow> ChanPipe pp | BifsObj b \<Rightarrow> ChanFile b)"

definition proc_pipeattch :: "u32 \<Rightarrow> u32 \<Rightarrow> kernel \<Rightarrow> (int \<times> kernel) res" where
  "proc_pipeattch pid src_fd k =
     bnd (myproc k) (\<lambda>i.
     bnd (acquire_proc i k) (\<lambda>k.
     bnd (get_sfd i src_fd k) (\<lambda>f.
     case f of None \<Rightarrow> Inr (-1, set_errno i EBADF k) | Some f \<Rightarrow>
     let k = release_proc i (upd_file f (\<lambda>x. x\<lparr>f_refcount := f_refcount x + 1\<rparr>) k);
         undo = upd_file f (\<lambda>x. x\<lparr>f_refcount := f_refcount x - 1\<rparr>)
     in case find_proc_by_pid pid k of
          None \<Rightarrow> Inr (-1, set_errno i ESRCH (undo k))
        | Some t \<Rightarrow>
            bnd (acquire_proc t k) (\<lambda>k.
            if p_files (proc_of k t) ! FD_STDOUT \<noteq> None
            then Inr (-1, set_errno i EBUSY (release_proc t (undo k)))
            else Inr (0, release_proc t (upd_proc t (\<lambda>p. p\<lparr>p_files := (p_files p)[FD_STDOUT := Some f],
                   p_chan := obj_chan (f_fs_file (file_of k f))\<rparr>) k))))))"

definition proc_pipe :: "regsize \<Rightarrow> kernel \<Rightarrow> (int \<times> kernel) res" where
  "proc_pipe fds k = pipe_open fds k"

definition run_lsdir :: "lsdir_op \<Rightarrow> nat \<Rightarrow> addr \<Rightarrow> regsize \<Rightarrow> kernel \<Rightarrow> (int \<times> kernel) res" where
  "run_lsdir op dir dirents sz k = (case op of
       NoLs \<Rightarrow> Inl NullDeref | BifsLs \<Rightarrow> bifs_lsdir dir dirents sz k | BinLs \<Rightarrow> bin_lsdir dirents sz k)"

definition proc_lsdir :: "regsize \<Rightarrow> regsize \<Rightarrow> regsize \<Rightarrow> kernel \<Rightarrow> (int \<times> kernel) res" where
  "proc_lsdir dir dirents sz k =
     bnd (myproc k) (\<lambda>i.
     let dir = va2pa_k i dir k; dirents = va2pa_k i dirents k in
     if dir = 0 then Inl NullDeref else
     bnd (read_cstr str_bound (k_mem k) dir) (\<lambda>path.
     bnd (bifs_opendirpath path (kstrlen path) k) (\<lambda>(status, parent).
     if status \<noteq> 0 then Inr (-1, set_errno i (- status) k) else
     (case parent of
        None \<Rightarrow> Inr (-1, set_errno i ENOENT k)
      | Some d \<Rightarrow>
          bnd (run_lsdir (bd_lsdir (k_dirs k ! d)) d dirents sz k) (\<lambda>(status, k).
          if status < 0 then Inr (-1, set_errno i (- status) k) else Inr (status, k))))))"

section \<open>Pages, daemons, pins\<close>

definition proc_pgalloc :: "kernel \<Rightarrow> (regsize \<times> kernel) res" where
  "proc_pgalloc k =
     bnd (myproc k) (\<lambda>i.
     bnd (allocate_page ''user'' (p_pid (proc_of k i)) PAGE_USERMEM (k_pm k)) (\<lambda>(page, pm).
     let k = k\<lparr>k_pm := pm\<rparr> in
     if page = 0 then Inr (0, k) else
     bnd (with_vm (map_page_sv39 (p_upagetable (proc_of k i)) page (USR_VIRT page) PERM_UDATA (p_pid (proc_of k i))) k) (\<lambda>k.
     Inr (USR_VIRT page, k))))"

definition proc_pgfree :: "regsize \<Rightarrow> kernel \<Rightarrow> (int \<times> kernel) res" where
  "proc_pgfree page k =
     bnd (myproc k) (\<lambda>i. bnd (release_page_k (va2pa_k i page k) k) (\<lambda>k. Inr (0, k)))"

definition proc_detach :: "kernel \<Rightarrow> (int \<times> kernel) res" where
  "proc_detach k =
     bnd (myproc k) (\<lambda>i.
     case p_parent (proc_of k i) of None \<Rightarrow> Inr (0, k) | Some par \<Rightarrow>
     bnd (acquire_proc i k) (\<lambda>k.
     let k = release_proc i (upd_proc i (\<lambda>p. p\<lparr>p_parent := None\<rparr>) k) in
     bnd (acquire_proc par k) (\<lambda>k.
     let k = (if p_state (proc_of k par) = SLEEPING then upd_proc par (\<lambda>p. p\<lparr>p_state := READY\<rparr>) k else k)
     in Inr (0, release_proc par k))))"

definition proc_gpio :: "u32 \<Rightarrow> u32 \<Rightarrow> u32 \<Rightarrow> kernel \<Rightarrow> int \<times> kernel" where
  "proc_gpio pin_num enable value k = gpio_do_syscall pin_num enable value k"

section \<open>The first process\<close>

definition assign_init_program :: "string \<Rightarrow> string option \<Rightarrow> kernel \<Rightarrow> kernel res" where
  "assign_init_program prog test_script k =
     (case find_user_program prog of
        None \<Rightarrow> Inl (Panic ''no init program'')
      | Some program \<Rightarrow>
          bnd (alloc_process k) (\<lambda>(p0, k).
          case p0 of None \<Rightarrow> Inl (Panic ''alloc p0 process'') | Some p0 \<Rightarrow>
          bnd (init_proc p0 (USR_VIRT (entry_of (k_layout k) program)) (Some program) k) (\<lambda>(status, k).
          let k = (case test_script of Some s \<Rightarrow> inject_argv p0 [program, ''-f'', s] k | None \<Rightarrow> k);
              k = release_proc p0 k
          in if status \<noteq> 0 then Inl (Panic ''init p0 process'') else Inr (k\<lparr>k_cpu_proc := Some p0\<rparr>))))"

end
