(* ===== verification/Syscall.thy ===== *)
theory Syscall
  imports Proc
begin

text \<open>
  The system call layer: the table and the argument passing of
  \<^verbatim>\<open>src/syscalls.c\<close> and the dispatcher of \<^verbatim>\<open>src/syscall.c\<close>. A handler returns the
  32-bit result that ends up, sign-extended, in register a0, or none when the
  process has given up the processor.
\<close>

section \<open>Handlers\<close>

definition SYS_NR_exit :: int where [simp, kconsts]: "SYS_NR_exit = 1"
definition SYS_NR_fork :: int where [simp, kconsts]: "SYS_NR_fork = 2"
definition SYS_NR_read :: int where [simp, kconsts]: "SYS_NR_read = 3"
definition SYS_NR_write :: int where [simp, kconsts]: "SYS_NR_write = 4"
definition SYS_NR_open :: int where [simp, kconsts]: "SYS_NR_open = 5"
definition SYS_NR_close :: int where [simp, kconsts]: "SYS_NR_close = 6"
definition SYS_NR_wait :: int where [simp, kconsts]: "SYS_NR_wait = 7"
definition SYS_NR_execv :: int where [simp, kconsts]: "SYS_NR_execv = 11"
definition SYS_NR_getpid :: int where [simp, kconsts]: "SYS_NR_getpid = 20"
definition SYS_NR_dup :: int where [simp, kconsts]: "SYS_NR_dup = 28"
definition SYS_NR_pipe :: int where [simp, kconsts]: "SYS_NR_pipe = 29"
definition SYS_NR_sysinfo :: int where [simp, kconsts]: "SYS_NR_sysinfo = 30"
definition SYS_NR_sleep :: int where [simp, kconsts]: "SYS_NR_sleep = 31"
definition SYS_NR_plist :: int where [simp, kconsts]: "SYS_NR_plist = 32"
definition SYS_NR_pinfo :: int where [simp, kconsts]: "SYS_NR_pinfo = 33"
definition SYS_NR_pgalloc :: int where [simp, kconsts]: "SYS_NR_pgalloc = 34"
definition SYS_NR_pgfree :: int where [simp, kconsts]: "SYS_NR_pgfree = 35"
definition SYS_NR_gpio :: int where [simp, kconsts]: "SYS_NR_gpio = 36"
definition SYS_NR_detach :: int where [simp, kconsts]: "SYS_NR_detach = 37"
definition SYS_NR_isopen :: int where [simp, kconsts]: "SYS_NR_isopen = 38"
definition SYS_NR_pipeattch :: int where [simp, kconsts]: "SYS_NR_pipeattch = 39"
definition SYS_NR_lsdir :: int where [simp, kconsts]: "SYS_NR_lsdir = 40"
definition SYSCALL_VECTOR_LEN :: int where [simp, kconsts]: "SYSCALL_VECTOR_LEN = 40"

type_synonym handler = "kernel \<Rightarrow> (int option \<times> kernel) res"

definition now :: "(int \<times> kernel) res \<Rightarrow> (int option \<times> kernel) res" where
  "now r = bnd r (\<lambda>(x, k). Inr (Some x, k))"

abbreviation arg32 :: "kernel \<Rightarrow> nat \<Rightarrow> u32" where
  "arg32 k r \<equiv> ucast (tf_reg k r)"

definition sys_exit :: handler where "sys_exit k = proc_exit k"
definition sys_fork :: handler where "sys_fork k = now (proc_fork k)"
definition sys_read :: handler where "sys_read k = proc_read (arg32 k REG_A0) (tf_reg k REG_A1) (arg32 k REG_A2) k"
definition sys_write :: handler where "sys_write k = proc_write (arg32 k REG_A0) (tf_reg k REG_A1) (arg32 k REG_A2) k"
definition sys_open :: handler where "sys_open k = now (proc_open (tf_reg k REG_A0) (arg32 k REG_A1) k)"
definition sys_close :: handler where "sys_close k = now (proc_close (arg32 k REG_A0) k)"
definition sys_wait :: handler where "sys_wait k = proc_wait (tf_reg k REG_A0) k"
definition sys_execv :: handler where "sys_execv k = now (proc_execv (tf_reg k REG_A0) (tf_reg k REG_A1) k)"
definition sys_getpid :: handler where "sys_getpid k = now (proc_getpid k)"
definition sys_dup :: handler where "sys_dup k = now (proc_dup (arg32 k REG_A0) k)"
definition sys_pipe :: handler where "sys_pipe k = now (proc_pipe (tf_reg k REG_A0) k)"
definition sys_sysinfo :: handler where "sys_sysinfo k = now (proc_sysinfo k)"
definition sys_sleep :: handler where "sys_sleep k = proc_sleep (tf_reg k REG_A0) k"
definition sys_plist :: handler where "sys_plist k = now (proc_plist (tf_reg k REG_A0) (arg32 k REG_A1) k)"
definition sys_pinfo :: handler where "sys_pinfo k = now (proc_pinfo (arg32 k REG_A0) (tf_reg k REG_A1) k)"
definition sys_pgalloc :: handler where
  "sys_pgalloc k = bnd (proc_pgalloc k) (\<lambda>(v, k). Inr (Some (sint (ucast v :: u32)), k))"
definition sys_pgfree :: handler where "sys_pgfree k = now (proc_pgfree (tf_reg k REG_A0) k)"
definition sys_gpio :: handler where
  "sys_gpio k = now (Inr (proc_gpio (arg32 k REG_A0) (arg32 k REG_A1) (arg32 k REG_A2) k))"
definition sys_detach :: handler where "sys_detach k = now (proc_detach k)"
definition sys_isopen :: handler where "sys_isopen k = now (proc_isopen (arg32 k REG_A0) k)"
definition sys_pipeattch :: handler where "sys_pipeattch k = now (proc_pipeattch (arg32 k REG_A0) (arg32 k REG_A1) k)"
definition sys_lsdir :: handler where
  "sys_lsdir k = now (proc_lsdir (tf_reg k REG_A0) (tf_reg k REG_A1) (scast (arg32 k REG_A2)) k)"

definition syscall_vector :: "int \<Rightarrow> handler option" where
  "syscall_vector nr = map_of
     [(SYS_NR_exit, sys_exit), (SYS_NR_fork, sys_fork), (SYS_NR_read, sys_read), (SYS_NR_write, sys_write),
      (SYS_NR_open, sys_open), (SYS_NR_close, sys_close), (SYS_NR_wait, sys_wait), (SYS_NR_execv, sys_execv),
      (SYS_NR_getpid, sys_getpid), (SYS_NR_dup, sys_dup), (SYS_NR_pipe, sys_pipe), (SYS_NR_sysinfo, sys_sysinfo),
      (SYS_NR_sleep, sys_sleep), (SYS_NR_plist, sys_plist), (SYS_NR_pinfo, sys_pinfo), (SYS_NR_pgalloc, sys_pgalloc),
      (SYS_NR_pgfree, sys_pgfree), (SYS_NR_gpio, sys_gpio), (SYS_NR_detach, sys_detach), (SYS_NR_isopen, sys_isopen),
      (SYS_NR_pipeattch, sys_pipeattch), (SYS_NR_lsdir, sys_lsdir)] nr"

section \<open>Dispatch\<close>

text \<open>
  How the dispatcher ends: in user mode, in the scheduler with the process put
  aside, or back in the trap entry (the check of the user stack).
\<close>

datatype exit_to = ToUser | ToScheduler | ToTrapEntry

definition kprintf :: "string \<Rightarrow> regsize list \<Rightarrow> kernel \<Rightarrow> kernel res" where
  "kprintf fmt args k =
     bnd (kprintfvec (read_cstr str_bound (k_mem k)) fmt args (k_console k)) (\<lambda>(_, out). Inr (k\<lparr>k_console := out\<rparr>))"

text \<open>The registers that \<open>kprintf\<close> saves behind the given arguments are never printed.\<close>

definition vec7 :: "regsize list \<Rightarrow> regsize list" where
  "vec7 xs = xs @ replicate (7 - length xs) 0"

text \<open>\<open>syscall\<close> after the handler has returned.\<close>

definition syscall_exit :: "nat \<Rightarrow> regsize \<Rightarrow> kernel \<Rightarrow> (exit_to \<times> kernel) res" where
  "syscall_exit i kernel_sp k =
     (if load32 (k_mem k) (p_magic (proc_of k i)) \<noteq> PROC_MAGIC_STACK_SENTINEL then Inl (Panic ''kernel stack overflow'')
      else Inr (ToUser, patch_proc_sp i kernel_sp (upd_csr (set_user_mode \<circ> enable_interrupts) k)))"

definition set_a0 :: "int \<Rightarrow> kernel \<Rightarrow> kernel" where
  "set_a0 v k = set_tf_reg REG_A0 (of_int v) k"

definition finish :: "nat \<Rightarrow> regsize \<Rightarrow> int option \<times> kernel \<Rightarrow> (exit_to \<times> kernel) res" where
  "finish i kernel_sp r = (case r of
       (Some v, k) \<Rightarrow> syscall_exit i kernel_sp (set_a0 v k)
     | (None, k) \<Rightarrow> Inr (ToScheduler, k))"

text \<open>\<open>syscall\<close> from the check of the user stack on.\<close>

definition dispatch :: "nat \<Rightarrow> int \<Rightarrow> regsize \<Rightarrow> kernel \<Rightarrow> (exit_to \<times> kernel) res" where
  "dispatch i nr kernel_sp k =
     (let pid = scast (p_pid (proc_of k i)); snr = of_int nr in
      if va2pa_k i (tf_reg k REG_SP) k < p_stack_page (proc_of k i) then
        bnd (kprintf (''STACK OVERFLOW in userland before pid:syscall %d:%d'' @ [NL]) (vec7 [pid, snr]) k) (\<lambda>k.
        Inr (ToTrapEntry, set_errno i EFAULT (set_a0 (-1) k)))
      else
        (case (if nr \<ge> 0 \<and> nr \<le> SYSCALL_VECTOR_LEN then syscall_vector nr else None) of
           Some f \<Rightarrow> bnd (f k) (finish i kernel_sp)
         | None \<Rightarrow>
             bnd (kprintf (''BAD pid:syscall %d:%d'' @ [NL]) (vec7 [pid, snr]) k) (\<lambda>k.
             syscall_exit i kernel_sp (set_errno i ENOSYS (set_a0 (-1) k)))))"

text \<open>Its first lines: errno is cleared, and the program goes on behind the \<open>ecall\<close>.\<close>

definition syscall_enter :: "nat \<Rightarrow> kernel \<Rightarrow> kernel" where
  "syscall_enter i k =
     (let k = set_errno i 0 k in k\<lparr>k_trap_frame := (k_trap_frame k)\<lparr>tf_pc := tf_pc (k_trap_frame k) + 4\<rparr>\<rparr>)"

definition syscall :: "regsize \<Rightarrow> kernel \<Rightarrow> (exit_to \<times> kernel) res" where
  "syscall kernel_sp k =
     (let k = upd_csr disable_interrupts k;
          nr = sint (arg32 k REG_A7)
      in bnd (myproc k) (\<lambda>i. dispatch i nr kernel_sp (syscall_enter i k)))"

end
