(* ===== verification/Fdt.thy ===== *)
theory Fdt
  imports Memory Kstring
begin

text \<open>
  The reader of the flattened device tree (\<^verbatim>\<open>src/fdt.c\<close>), which finds the boot
  arguments, and their interpretation (\<^verbatim>\<open>src/runflags.c\<close>). The tree is a sequence
  of big-endian words in memory.
\<close>

definition FDT_MAGIC :: u32 where [simp, kconsts]: "FDT_MAGIC = 0xd00dfeed"
definition FDT_VERSION :: u32 where [simp, kconsts]: "FDT_VERSION = 17"
definition FDT_BEGIN_NODE :: u32 where [simp, kconsts]: "FDT_BEGIN_NODE = 1"
definition FDT_END_NODE :: u32 where [simp, kconsts]: "FDT_END_NODE = 2"
definition FDT_PROP :: u32 where [simp, kconsts]: "FDT_PROP = 3"
definition FDT_NOP :: u32 where [simp, kconsts]: "FDT_NOP = 4"
definition FDT_END :: u32 where [simp, kconsts]: "FDT_END = 9"
definition BOOTARGS_LEN :: nat where [simp, kconsts]: "BOOTARGS_LEN = 128"

definition bswap :: "u32 \<Rightarrow> u32" where
  "bswap x =
     (let y = push_bit 8 (x AND 0x00ff00ff) OR drop_bit 8 (x AND 0xff00ff00);
          z = push_bit 16 (y AND 0x0000ffff) OR drop_bit 16 (y AND 0xffff0000)
      in z)"

definition upalign4 :: "addr \<Rightarrow> addr" where
  "upalign4 a = (a + 3) AND (-4)"

text \<open>The characters of a string in memory up to its zero byte, at most \<open>n\<close> of them.\<close>

fun str_upto :: "nat \<Rightarrow> memory \<Rightarrow> addr \<Rightarrow> string" where
  "str_upto 0 mem a = []"
| "str_upto (Suc n) mem a = (if mem a = 0 then [] else char_of (unat (mem a)) # str_upto n mem (a + 1))"

text \<open>\<open>while (*p++) {}\<close>: the address behind the zero byte.\<close>

fun skip_str :: "nat \<Rightarrow> memory \<Rightarrow> addr \<Rightarrow> addr res" where
  "skip_str 0 mem a = Inl Diverges"
| "skip_str (Suc n) mem a = (if mem a = 0 then Inr (a + 1) else skip_str n mem (a + 1))"

text \<open>
  What the inner loop of \<open>fdt_parse\<close> does with a token other than a node: it
  stops with a result (\<open>Some\<close> of the address of the boot arguments, if found), or
  moves on. A token of no known kind leaves everything as it is, so the loop
  never ends.
\<close>

datatype fdt_next = Stop "addr option" | Move addr

definition fdt_token :: "memory \<Rightarrow> addr \<Rightarrow> u32 \<Rightarrow> bool \<Rightarrow> addr \<Rightarrow> fdt_next res" where
  "fdt_token mem strings token found_chosen tree =
     (if token = FDT_PROP then
        let len = bswap (load32 mem (tree + 4));
            name_offset = bswap (load32 mem (tree + 8));
            tree = tree + 12
        in if found_chosen \<and> strncmp (str_upto 9 mem (strings + ucast name_offset)) ''bootargs'' 9 = 0
           then Inr (Stop (Some tree))
           else Inr (Move (upalign4 (tree + ucast len)))
      else if token = FDT_NOP \<or> token = FDT_END_NODE then Inr (Move (tree + 4))
      else if token = FDT_END then Inr (Stop None)
      else Inl Diverges)"

text \<open>
  Both loops as one: a node is opened or a token handled per round. The pointer
  moves by at least four bytes each time, so after \<open>2 ^ 63\<close> rounds a tree that has
  not ended has been read all around the address space with the flag set or not.
\<close>

fun fdt_loop :: "nat \<Rightarrow> memory \<Rightarrow> addr \<Rightarrow> bool \<Rightarrow> addr \<Rightarrow> addr option res" where
  "fdt_loop 0 mem strings found_chosen tree = Inl Diverges"
| "fdt_loop (Suc n) mem strings found_chosen tree =
     (let token = bswap (load32 mem tree) in
      if token = FDT_BEGIN_NODE then
        bnd (skip_str (2 ^ 64) mem (tree + 4)) (\<lambda>end_of_name.
        let chosen = (strncmp (str_upto 7 mem (tree + 4)) ''chosen'' 7 = 0);
            tree = upalign4 end_of_name
        in if bswap (load32 mem tree) = FDT_END then Inr None
           else fdt_loop n mem strings (found_chosen \<or> chosen) tree)
      else bnd (fdt_token mem strings token found_chosen tree) (\<lambda>r.
        case r of Stop a \<Rightarrow> Inr a | Move tree \<Rightarrow> fdt_loop n mem strings found_chosen tree))"

definition fdt_parse :: "memory \<Rightarrow> addr \<Rightarrow> addr \<Rightarrow> char list \<Rightarrow> char list res" where
  "fdt_parse mem tree strings bootargs =
     (if bswap (load32 mem tree) \<noteq> FDT_BEGIN_NODE then Inr bootargs
      else bnd (fdt_loop (2 ^ 63) mem strings False tree) (\<lambda>r.
        case r of None \<Rightarrow> Inr bootargs
        | Some arg \<Rightarrow> strncpy bootargs (str_upto BOOTARGS_LEN mem arg) (of_nat BOOTARGS_LEN)))"

text \<open>\<open>fdt_init\<close>, without its messages: magic, versions and offsets are read from the header.\<close>

definition fdt_init :: "memory \<Rightarrow> addr \<Rightarrow> char list \<Rightarrow> char list res" where
  "fdt_init mem header bootargs =
     (if header = 0 then Inr bootargs
      else if bswap (load32 mem header) \<noteq> FDT_MAGIC then Inr bootargs
      else if bswap (load32 mem (header + 24)) > FDT_VERSION then Inr bootargs
      else fdt_parse mem (header + ucast (bswap (load32 mem (header + 8))))
             (header + ucast (bswap (load32 mem (header + 12)))) bootargs)"

definition fdt_get_bootargs :: "char list \<Rightarrow> string" where
  "fdt_get_bootargs bootargs = cstr bootargs"

section \<open>Run flags\<close>

definition RUNFLAGS_TESTS :: u32 where [simp, kconsts]: "RUNFLAGS_TESTS = 1"
definition RUNFLAGS_DRY_RUN :: u32 where [simp, kconsts]: "RUNFLAGS_DRY_RUN = 3"
definition RUNFLAGS_SMOKE_TEST :: u32 where [simp, kconsts]: "RUNFLAGS_SMOKE_TEST = 5"
definition RUNFLAGS_TINY_STACK :: u32 where [simp, kconsts]: "RUNFLAGS_TINY_STACK = 9"

text \<open>The flags and the value of \<open>test_script\<close>, the string behind the prefix and one more character.\<close>

definition parse_runflags :: "string \<Rightarrow> u32 \<times> string option" where
  "parse_runflags bootargs =
     (if strncmp bootargs ''dry-run'' 8 = 0 then (RUNFLAGS_DRY_RUN, None)
      else case has_prefix bootargs ''test-script'' of
        Some e \<Rightarrow> (RUNFLAGS_SMOKE_TEST, Some (drop (nat e + 1) bootargs))
      | None \<Rightarrow>
          (case has_prefix bootargs ''tiny-stack'' of
             Some e \<Rightarrow> (RUNFLAGS_TINY_STACK, Some (drop (nat e + 1) bootargs))
           | None \<Rightarrow> (0, None)))"

end
