(* ===== verification/Kernel.thy ===== *)
theory Kernel
  imports Syscall Fdt
begin

text \<open>
  The kernel as a whole: boot (\<open>kinit\<close> of \<^verbatim>\<open>src/kernel.c\<close>), the handlers of timer
  and device interrupts, the scheduler of \<^verbatim>\<open>src/proc.c\<close>, and the machine that
  these make up as a step relation. A hart is in user mode in some process, in
  the loop of the scheduler, or parked because there is nothing to run.
\<close>

section \<open>Interrupts\<close>

definition plic_dispatch_interrupts :: "kernel \<Rightarrow> kernel res" where
  "plic_dispatch_interrupts k =
     (let intr_no = read32 PLIC_CLAIM_RW k in
      bnd (if intr_no = UART0_IRQ_NUM then uart_handle_interrupt k else Inr k) (\<lambda>k.
      Inr (write32 PLIC_CLAIM_RW intr_no k)))"

definition uart_machine_init :: "kernel \<Rightarrow> kernel" where
  "uart_machine_init k =
     plic_enable_intr UART0_IRQ_NUM (plic_set_threshold (PLIC_MAX_PRIORITY - 1)
       (plic_set_intr_priority UART0_IRQ_NUM PLIC_MAX_PRIORITY
         (write32 (UART_BASE + 1) 1 (write32 (UART_BASE + 2) 1 (write32 (UART_BASE + 3) 3 k)))))"

definition drivers_init :: "kernel \<Rightarrow> kernel" where
  "drivers_init k = uart_init (uart_machine_init k)"

text \<open>\<open>kernel_plic_handler\<close> up to its return to user mode.\<close>

definition kernel_plic_handler :: "kernel \<Rightarrow> kernel res" where
  "kernel_plic_handler k =
     bnd (plic_dispatch_interrupts (upd_csr disable_interrupts k)) (\<lambda>k. Inr (upd_csr enable_interrupts k))"

text \<open>
  \<open>kernel_timer_tick\<close> up to the context switch in \<open>sched\<close>, and from there on when the
  process is scheduled again.
\<close>

definition kernel_timer_tick :: "kernel \<Rightarrow> kernel" where
  "kernel_timer_tick k = sched (upd_csr disable_interrupts k)"

definition kernel_timer_tick_resume :: "regsize \<Rightarrow> kernel \<Rightarrow> kernel" where
  "kernel_timer_tick_resume sp k =
     (let k = upd_csr enable_interrupts k in
      case k_cpu_proc k of Some i \<Rightarrow> patch_proc_sp i sp k | None \<Rightarrow> k)"

section \<open>Scheduler\<close>

definition sleep_scheduler :: "kernel \<Rightarrow> kernel" where
  "sleep_scheduler k =
     upd_csr (set_interrupt_enable_bits \<circ> set_status_interrupt_enable_and_pending \<circ> csr_sip_clear_flags SIP_SSIP)
       (k\<lparr>k_unsleep_scheduler := False\<rparr>)"

text \<open>
  One round of the loop over the process table. The result says whether the
  process is switched to.
\<close>

definition sched_visit :: "nat \<Rightarrow> kernel \<Rightarrow> (bool \<times> kernel) res" where
  "sched_visit i k =
     bnd (acquire_proc i k) (\<lambda>k.
     let k = (if p_state (proc_of k i) = SLEEPING \<and> should_wake_up (proc_of k i) k
              then upd_proc i (\<lambda>p. p\<lparr>p_state := READY\<rparr>) k else k)
     in if p_state (proc_of k i) = READY then
          let k = upd_proc i (\<lambda>p. p\<lparr>p_state := RUNNING, p_nscheds := p_nscheds p + 1\<rparr>) (k\<lparr>k_cpu_proc := Some i\<rparr>) in
          bnd (proc_mark_for_wakeup (ChanProc i) k) (\<lambda>k.
          Inr (True, k\<lparr>k_trap_frame := copy_trap_frame (k_trap_frame k) (p_trap (proc_of k i))\<rparr>))
        else Inr (False, release_proc i k))"

text \<open>What the scheduler does when the process has switched back to it.\<close>

definition sched_back :: "nat \<Rightarrow> kernel \<Rightarrow> kernel" where
  "sched_back i k = release_proc i (k\<lparr>k_cpu_proc := None\<rparr>)"

text \<open>
  The code that \<open>swtch\<close> returns to in a process; \<open>sp\<close> is the argument of the trap
  handler, kept on the kernel stack.
\<close>

definition resume :: "nat \<Rightarrow> regsize \<Rightarrow> kernel \<Rightarrow> (exit_to \<times> kernel) res" where
  "resume i sp k = (case p_kont (proc_of k i) of
       KForkret \<Rightarrow> bnd (forkret k) (\<lambda>k. Inr (ToUser, k))
     | KSched \<Rightarrow> Inr (ToUser, kernel_timer_tick_resume sp k)
     | KSleep \<Rightarrow> bnd (check_exited_children i k) (\<lambda>(pid, k). finish i sp (Some pid, k))
     | KPipeRead f pp buf sz \<Rightarrow> bnd (pipe_read_resume i f pp buf sz k) (\<lambda>r. finish i sp (proc_read_done i f r))
     | KPipeWrite f pp buf n nw \<Rightarrow> bnd (pipe_write_resume i f pp buf n nw k) (\<lambda>r. finish i sp (proc_write_done i r))
     | KUartRead f buf sz \<Rightarrow> bnd (uart_read_resume i f buf sz k) (\<lambda>r. finish i sp (proc_read_done i f r))
     | KExit \<Rightarrow> finish i sp (Some 0, k))"

section \<open>Boot\<close>

definition init_cpus :: "kernel \<Rightarrow> kernel" where
  "init_cpus k = k\<lparr>k_cpu_proc := None\<rparr>"

definition init_trap_vector :: "regsize \<Rightarrow> kernel \<Rightarrow> kernel" where
  "init_trap_vector hartid k =
     (let k = set_tf_reg REG_TP hartid k; ly = k_layout k in
      upd_csr (set_stvec_csr (entry_of ly ''trap_vector'') \<circ> set_sscratch_csr (trap_frame_addr ly)) k)"

definition test_kprintf :: "addr \<Rightarrow> kernel \<Rightarrow> kernel res" where
  "test_kprintf str k =
     kprintf (''kprintf test: str=%s, ptr=%p, pos int=%d, neg int=%d'' @ [NL])
       (vec7 [str, 0xabcdf10a, 1337, - 9223372036854775807]) k"

definition do_page_report :: "addr \<Rightarrow> kernel \<Rightarrow> kernel res" where
  "do_page_report mem_end k =
     kprintf (''paged memory: start=%p, end=%p, npages=%d'' @ [NL])
       (vec7 [pm_unclaimed_end (k_pm k), mem_end, scast (pm_num_pages (k_pm k))]) k"

text \<open>
  \<open>kinit\<close> on the boot hart up to its call of the scheduler. The addresses of the
  string constant in \<open>test_kprintf\<close> and of the array \<open>bootargs\<close> are linker symbols;
  the messages of \<open>fdt_init\<close> are left out.
\<close>

definition kinit :: "regsize \<Rightarrow> addr \<Rightarrow> kernel \<Rightarrow> kernel res" where
  "kinit cpu_id fdt_header_addr k =
     (if cpu_id \<noteq> 0 then Inl Diverges else
      let sym = entry_of (k_layout k);
          k = drivers_init (plic_init (init_cpus k))
      in bnd (kprintf (''kinit: cpu %d'' @ [NL]) (vec7 [cpu_id]) k) (\<lambda>k.
         bnd (fdt_init (k_mem k) fdt_header_addr (replicate BOOTARGS_LEN NUL)) (\<lambda>bootargs.
         let args = fdt_get_bootargs bootargs;
             k = k\<lparr>k_mem := write_str (k_mem k) (sym ''bootargs'') bootargs\<rparr>
         in bnd (kprintf (''bootargs: %s'' @ [NL]) (vec7 [sym ''bootargs'']) k) (\<lambda>k.
         let k = init_trap_vector cpu_id k;
             (paged_mem_end, c) = init_pmp (RAM_START (k_layout k)) (sym ''RAM_SIZE'') (k_csr k);
             k = upd_csr set_supervisor_mode (machine_init_timer (k\<lparr>k_csr := c\<rparr>))
         in bnd (test_kprintf (sym ''foo'') k) (\<lambda>k.
         let (runflags, test_script) = parse_runflags args;
             k = k\<lparr>k_user_stack_size := (if runflags = RUNFLAGS_TINY_STACK then 512 else PAGE_SIZE)\<rparr>
         in bnd (with_vm (init_paged_memory (k_layout k) paged_mem_end) k) (\<lambda>k.
         bnd (if runflags AND RUNFLAGS_TESTS = 0 then do_page_report paged_mem_end k else Inr k) (\<lambda>k.
         bnd (fs_init k) (\<lambda>k.
         let k = init_process_table k in
         bnd (if runflags \<noteq> RUNFLAGS_DRY_RUN then
                assign_init_program ''sh'' (if runflags = RUNFLAGS_SMOKE_TEST \<or> runflags = RUNFLAGS_TINY_STACK then test_script else None) k
              else Inr k) (\<lambda>k.
         Inr (init_pipes k))))))))))"

end
