(* ===== verification/Invar.thy ===== *)
theory Invar
  imports Kernel
begin

text \<open>
  The invariant of the kernel's tables: every table has its size, every index
  that stands for a pointer refers to an entry, and the list of flags that says
  which processes are running changes only where a process gives up the
  processor. Every operation is shown to keep it, by weakest preconditions over
  the outcomes of fallible operations.
\<close>

section \<open>Weakest preconditions\<close>

text \<open>\<open>Q\<close> holds of the result if there is one.\<close>

definition post :: "'a res \<Rightarrow> ('a \<Rightarrow> bool) \<Rightarrow> bool" where
  "post m Q \<longleftrightarrow> (\<forall>r. m = Inr r \<longrightarrow> Q r)"

lemma post_Inr [simp]: "post (Inr r) Q \<longleftrightarrow> Q r"
  by (simp add: post_def)

lemma post_Inl [simp]: "post (Inl e) Q"
  by (simp add: post_def)

lemma post_bnd [simp]: "post (bnd m f) Q \<longleftrightarrow> post m (\<lambda>r. post (f r) Q)"
  by (auto simp: post_def)

lemma post_mono: "post m Q \<Longrightarrow> (\<And>r. m = Inr r \<Longrightarrow> Q r \<Longrightarrow> Q' r) \<Longrightarrow> post m Q'"
  by (auto simp: post_def)

lemma post_any: "(\<And>r. Q r) \<Longrightarrow> post m Q"
  by (simp add: post_def)

lemma postD: "post m Q \<Longrightarrow> m = Inr r \<Longrightarrow> Q r"
  by (simp add: post_def)

section \<open>Well-formed tables\<close>

definition lt_opt :: "nat \<Rightarrow> nat option \<Rightarrow> bool" where
  "lt_opt n x \<longleftrightarrow> (case x of None \<Rightarrow> True | Some i \<Rightarrow> i < n)"

definition fref_ok :: "file_ref \<Rightarrow> bool" where
  "fref_ok r \<longleftrightarrow> (case r of FTable i \<Rightarrow> i < MAX_FILES | _ \<Rightarrow> True)"

definition obj_ok :: "fs_obj \<Rightarrow> bool" where
  "obj_ok ob \<longleftrightarrow> (case ob of NoObj \<Rightarrow> True | PipeObj i \<Rightarrow> i < MAX_PIPES | BifsObj i \<Rightarrow> i < BIFS_MAX_FILES)"

definition kont_ok :: "kont \<Rightarrow> bool" where
  "kont_ok c \<longleftrightarrow> (case c of
       KPipeRead f pp _ _ \<Rightarrow> fref_ok f \<and> pp < MAX_PIPES
     | KPipeWrite f pp _ _ _ \<Rightarrow> fref_ok f \<and> pp < MAX_PIPES
     | KUartRead f _ _ \<Rightarrow> fref_ok f
     | _ \<Rightarrow> True)"

definition chan_ok :: "chan \<Rightarrow> bool" where
  "chan_ok ch \<longleftrightarrow> (case ch of ChanPipe i \<Rightarrow> i < MAX_PIPES | ChanProc i \<Rightarrow> i < MAX_PROCS
     | ChanFile i \<Rightarrow> i < BIFS_MAX_FILES | _ \<Rightarrow> True)"

definition proc_ok :: "process_t \<Rightarrow> bool" where
  "proc_ok p \<longleftrightarrow> length (p_files p) = MAX_PROC_FDS \<and> (\<forall>f. Some f \<in> set (p_files p) \<longrightarrow> fref_ok f) \<and>
     length (p_ctx p) = 14 \<and> length (p_piddir p) = MAX_FILENAME_LEN \<and> length (tf_regs (p_trap p)) = 31 \<and>
     lt_opt MAX_PROCS (p_parent p) \<and> lt_opt BIFS_MAX_DIRS (p_procfs_dir p) \<and>
     lt_opt BIFS_MAX_FILES (p_procfs_name_file p) \<and> kont_ok (p_kont p) \<and> chan_ok (p_chan p)"

definition file_ok :: "file_t \<Rightarrow> bool" where
  "file_ok f \<longleftrightarrow> obj_ok (f_fs_file f)"

definition pipe_ok :: "pipe_t \<Rightarrow> bool" where
  "pipe_ok p \<longleftrightarrow> fref_ok (pp_rf p) \<and> fref_ok (pp_wf p)"

definition dir_ok :: "bifs_directory_t \<Rightarrow> bool" where
  "dir_ok d \<longleftrightarrow> lt_opt BIFS_MAX_DIRS (bd_parent d) \<and> (case bd_name d of PidDir i \<Rightarrow> i < MAX_PROCS | _ \<Rightarrow> True)"

definition bfile_ok :: "bifs_file_t \<Rightarrow> bool" where
  "bfile_ok f \<longleftrightarrow> lt_opt BIFS_MAX_DIRS (bf_parent f) \<and> (case bf_dataquery f of StatsQuery i \<Rightarrow> i < MAX_PROCS | _ \<Rightarrow> True)"

definition uart_ok :: "uart_state_t \<Rightarrow> bool" where
  "uart_ok u \<longleftrightarrow> length (rxbuf u) = UART_BUF_SZ \<and> rx_rpos u < UART_BUF_SZ \<and> rx_wpos u < UART_BUF_SZ"

definition kwf :: "kernel \<Rightarrow> bool" where
  "kwf k \<longleftrightarrow> length (procs k) = MAX_PROCS \<and> list_all proc_ok (procs k) \<and>
     length (tf_regs (k_trap_frame k)) = 31 \<and>
     length (ft_files (k_ftable k)) = MAX_FILES \<and> list_all file_ok (ft_files (k_ftable k)) \<and>
     file_ok (k_stdin k) \<and> file_ok (k_stdout k) \<and> file_ok (k_stderr k) \<and>
     length (pps_all (k_pipes k)) = MAX_PIPES \<and> list_all pipe_ok (pps_all (k_pipes k)) \<and>
     length (k_dirs k) = BIFS_MAX_DIRS \<and> list_all dir_ok (k_dirs k) \<and>
     length (k_files k) = BIFS_MAX_FILES \<and> list_all bfile_ok (k_files k) \<and>
     lt_opt BIFS_MAX_DIRS (k_bifs_root k) \<and> uart_ok (k_uart0 k)"

definition running :: "kernel \<Rightarrow> bool list" where
  "running k = map (\<lambda>p. p_state p = RUNNING) (procs k)"

definition kinv :: "nat option \<Rightarrow> bool list \<Rightarrow> kernel \<Rightarrow> bool" where
  "kinv cp R k \<longleftrightarrow> k_cpu_proc k = cp \<and> lt_opt MAX_PROCS cp \<and> kwf k \<and> running k = R"

section \<open>Updates\<close>

lemma list_all_put: "list_all P xs \<Longrightarrow> (i < length xs \<Longrightarrow> P x) \<Longrightarrow> list_all P (xs[i := x])"
  by (cases "i < length xs") (auto simp: list_all_length nth_list_update)

lemma list_all_upd_at:
  "list_all P xs \<Longrightarrow> (i < length xs \<Longrightarrow> P (xs ! i) \<Longrightarrow> P (g (xs ! i))) \<Longrightarrow> list_all P (xs[i := g (xs ! i)])"
  by (rule list_all_put) (simp_all add: list_all_length)

lemma list_all_at: "list_all P xs \<Longrightarrow> i < length xs \<Longrightarrow> P (xs ! i)"
  by (simp add: list_all_length)

lemma inv_procs: "kinv cp R k \<Longrightarrow> i < MAX_PROCS \<Longrightarrow> proc_ok (proc_of k i)"
  by (simp add: kinv_def kwf_def list_all_at)

lemma inv_len: "kinv cp R k \<Longrightarrow> length (procs k) = MAX_PROCS"
  by (simp add: kinv_def kwf_def)

lemma running_nth: "kinv cp R k \<Longrightarrow> i < MAX_PROCS \<Longrightarrow> R ! i \<longleftrightarrow> p_state (proc_of k i) = RUNNING"
  by (auto simp: kinv_def kwf_def running_def)

lemma inv_upd_proc_state:
  assumes "kinv cp R k" "\<And>p. i < MAX_PROCS \<Longrightarrow> p = proc_of k i \<Longrightarrow> proc_ok p \<Longrightarrow> proc_ok (f p)"
    "R' = R[i := p_state (f (proc_of k i)) = RUNNING]"
  shows "kinv cp R' (upd_proc i f k)"
proof -
  have "running (upd_proc i f k) = R'"
    using assms(1,3) by (simp add: running_def kinv_def map_update)
  moreover have "kwf (upd_proc i f k)"
    using assms(1,2) inv_procs [OF assms(1), of i] unfolding kinv_def kwf_def
    by (auto simp: upd_proc_def intro!: list_all_put)
  moreover have "k_cpu_proc (upd_proc i f k) = cp" using assms(1) by (simp add: kinv_def upd_proc_def)
  moreover have "lt_opt MAX_PROCS cp" using assms(1) by (simp add: kinv_def)
  ultimately show ?thesis by (simp add: kinv_def)
qed

lemma inv_upd_proc:
  assumes "kinv cp R k" "\<And>p. i < MAX_PROCS \<Longrightarrow> p = proc_of k i \<Longrightarrow> proc_ok p \<Longrightarrow> proc_ok (f p)"
    "i < MAX_PROCS \<Longrightarrow> p_state (f (proc_of k i)) = RUNNING \<longleftrightarrow> p_state (proc_of k i) = RUNNING"
  shows "kinv cp R (upd_proc i f k)"
proof (rule inv_upd_proc_state [OF assms(1,2)])
  show "R = R[i := p_state (f (proc_of k i)) = RUNNING]"
  proof (cases "i < MAX_PROCS")
    case True
    then have "(p_state (f (proc_of k i)) = RUNNING) = R ! i"
      using assms(3) running_nth [OF assms(1) True] by simp
    then show ?thesis by (simp only: list_update_id)
  next
    case False
    then show ?thesis using inv_len [OF assms(1)] assms(1) by (auto simp: kinv_def running_def list_update_beyond)
  qed
qed

text \<open>Updates of one table each.\<close>

lemma inv_mem [simp]: "kinv cp R (k\<lparr>k_mem := m\<rparr>) = kinv cp R k"
  by (simp add: kinv_def kwf_def running_def)

lemma inv_pm [simp]: "kinv cp R (k\<lparr>k_pm := m\<rparr>) = kinv cp R k"
  by (simp add: kinv_def kwf_def running_def)

lemma inv_misc [simp]:
  "kinv cp R (k\<lparr>k_unsleep_scheduler := b\<rparr>) = kinv cp R k" "kinv cp R (k\<lparr>k_console := c\<rparr>) = kinv cp R k" "kinv cp R (k\<lparr>k_rx := c\<rparr>) = kinv cp R k"
  "kinv cp R (k\<lparr>k_csr := x\<rparr>) = kinv cp R k" "kinv cp R (k\<lparr>k_mmio := y\<rparr>) = kinv cp R k" "kinv cp R (upd_csr g k) = kinv cp R k"
  "kinv cp R (k\<lparr>k_mtime := t\<rparr>) = kinv cp R k"
  by (simp_all add: kinv_def kwf_def running_def upd_csr_def)

lemma inv_pt: "kinv cp R k \<Longrightarrow> pt_procs (f (k_proc_table k)) = procs k \<Longrightarrow> kinv cp R (upd_pt f k)"
  by (simp add: kinv_def kwf_def running_def upd_pt_def)

lemma inv_upd_file:
  "kinv cp R k \<Longrightarrow> (\<And>x. file_ok x \<Longrightarrow> file_ok (g x)) \<Longrightarrow> kinv cp R (upd_file f g k)"
  by (cases f) (auto simp: kinv_def kwf_def running_def upd_file_def intro!: list_all_upd_at)

lemma inv_upd_pipe:
  "kinv cp R k \<Longrightarrow> (\<And>x. i < MAX_PIPES \<Longrightarrow> x = pipe_of k i \<Longrightarrow> pipe_ok x \<Longrightarrow> pipe_ok (g x)) \<Longrightarrow> kinv cp R (upd_pipe i g k)"
  by (auto simp: kinv_def kwf_def running_def upd_pipe_def intro!: list_all_upd_at)

lemma inv_upd_dir:
  "kinv cp R k \<Longrightarrow> (\<And>x. i < BIFS_MAX_DIRS \<Longrightarrow> dir_ok x \<Longrightarrow> dir_ok (g x)) \<Longrightarrow> kinv cp R (upd_dir i g k)"
  by (auto simp: kinv_def kwf_def running_def upd_dir_def intro!: list_all_upd_at)

lemma inv_upd_bfile:
  "kinv cp R k \<Longrightarrow> (\<And>x. i < BIFS_MAX_FILES \<Longrightarrow> bfile_ok x \<Longrightarrow> bfile_ok (g x)) \<Longrightarrow> kinv cp R (upd_bfile i g k)"
  by (auto simp: kinv_def kwf_def running_def upd_bfile_def intro!: list_all_upd_at)

lemma inv_trap: "kinv cp R k \<Longrightarrow> length (tf_regs tf) = 31 \<Longrightarrow> kinv cp R (k\<lparr>k_trap_frame := tf\<rparr>)"
  by (simp add: kinv_def kwf_def running_def)

lemma inv_set_tf_reg: "kinv cp R k \<Longrightarrow> kinv cp R (set_tf_reg r v k)"
  by (simp add: set_tf_reg_def set_reg_def kinv_def kwf_def running_def)

lemma inv_cpu: "kinv cp R k \<Longrightarrow> lt_opt MAX_PROCS c \<Longrightarrow> kinv c R (k\<lparr>k_cpu_proc := c\<rparr>)"
  by (simp add: kinv_def kwf_def running_def)

lemma inv_upd_uart: "kinv cp R k \<Longrightarrow> (uart_ok (k_uart0 k) \<Longrightarrow> uart_ok (g (k_uart0 k))) \<Longrightarrow> kinv cp R (upd_uart g k)"
  by (simp add: kinv_def kwf_def running_def upd_uart_def)

lemma inv_set_errno [simp]: "kinv cp R (set_errno i e k) = kinv cp R k"
  by (simp add: set_errno_def)

lemma inv_release_pt [simp]: "kinv cp R k \<Longrightarrow> kinv cp R (release_pt k)"
  by (simp add: release_pt_def inv_pt)

lemma inv_release_proc [simp]: "kinv cp R k \<Longrightarrow> kinv cp R (release_proc i k)"
  unfolding release_proc_def by (rule inv_upd_proc) (simp_all add: proc_ok_def)

lemma inv_release_pipe [simp]: "kinv cp R k \<Longrightarrow> kinv cp R (release_pipe i k)"
  unfolding release_pipe_def by (rule inv_upd_pipe) (simp_all add: pipe_ok_def)

lemma inv_trap_of: "kinv cp R k \<Longrightarrow> i < MAX_PROCS \<Longrightarrow> length (tf_regs (p_trap (proc_of k i))) = 31"
  using inv_procs [of cp R k i] by (simp add: proc_ok_def)

lemma inv_frame: "kinv cp R k \<Longrightarrow> length (tf_regs (k_trap_frame k)) = 31"
  by (simp add: kinv_def kwf_def)

lemma inv_cpu_lt: "kinv cp R k \<Longrightarrow> k_cpu_proc k = Some i \<Longrightarrow> i < MAX_PROCS"
  by (cases cp) (simp_all add: kinv_def lt_opt_def)

lemma inv_current: "kinv cp R k \<Longrightarrow> k_cpu_proc k = cp"
  by (simp add: kinv_def)

section \<open>Process table primitives\<close>

text \<open>The operations with a result in a pair keep the invariant.\<close>

abbreviation keeps :: "nat option \<Rightarrow> bool list \<Rightarrow> ('a \<times> kernel) res \<Rightarrow> bool" where
  "keeps cp R m \<equiv> post m (\<lambda>(x, k). kinv cp R k)"

abbreviation keepsK :: "nat option \<Rightarrow> bool list \<Rightarrow> kernel res \<Rightarrow> bool" where
  "keepsK cp R m \<equiv> post m (kinv cp R)"

text \<open>An operation that may put process \<open>i\<close> aside.\<close>

abbreviation yields :: "nat option \<Rightarrow> nat \<Rightarrow> bool list \<Rightarrow> ('a option \<times> kernel) res \<Rightarrow> bool" where
  "yields cp i R m \<equiv> post m (\<lambda>(x, k). kinv cp (if x = None then R[i := False] else R) k)"

lemma myproc_post [simp]: "post (myproc k) Q \<longleftrightarrow> (\<forall>i. k_cpu_proc k = Some i \<longrightarrow> Q i)"
  by (auto simp: myproc_def post_def split: option.splits)

lemma post_acquire [simp]: "post (acquire l) Q \<longleftrightarrow> (l = 0 \<longrightarrow> Q 1)"
  by (auto simp: post_def)

lemma acquire_proc_keeps: "kinv cp R k \<Longrightarrow> keepsK cp R (acquire_proc i k)"
  unfolding acquire_proc_def by (simp, intro impI inv_upd_proc) (simp_all add: proc_ok_def)

lemma acquire_pt_keeps: "kinv cp R k \<Longrightarrow> keepsK cp R (acquire_pt k)"
  unfolding acquire_pt_def by (simp add: inv_pt)

lemma kalloc_keeps: "kinv cp R k \<Longrightarrow> keeps cp R (kalloc_k site pid k)"
  by (auto simp: kalloc_k_def post_def)

lemma release_page_keeps: "kinv cp R k \<Longrightarrow> keepsK cp R (release_page_k a k)"
  by (auto simp: release_page_k_def post_def)

lemma with_vm_keeps: "kinv cp R k \<Longrightarrow> keepsK cp R (with_vm f k)"
  by (auto simp: with_vm_def post_def)

lemma acquired_state:
  "acquire_proc i k = Inr k' \<Longrightarrow> p_state (proc_of k' j) = p_state (proc_of k j) \<and> p_chan (proc_of k' j) = p_chan (proc_of k j)"
  by (cases "i = j"; cases "i < length (procs k)") (auto simp: acquire_proc_def list_update_beyond)

lemma update_proc_keeps:
  assumes "kinv cp R k" "p_state (proc_of k i) \<noteq> RUNNING"
  shows "keepsK cp R (update_proc_by_chan i ch k)"
proof -
  have "kinv cp R (upd_proc i (\<lambda>p. p\<lparr>p_state := READY, p_chan := NoChan\<rparr>) (k\<lparr>k_unsleep_scheduler := True\<rparr>))"
    using assms by (intro inv_upd_proc) (simp_all add: proc_ok_def chan_ok_def)
  then show ?thesis
    using assms(1) by (auto simp: update_proc_by_chan_def Let_def split: chan.splits)
qed

lemma wakeup_loop_keeps: "kinv cp R k \<Longrightarrow> keepsK cp R (wakeup_loop is ch k)"
proof (induction "is" arbitrary: k)
  case Nil
  then show ?case by simp
next
  case (Cons i js)
  show ?case
  proof (cases "p_state (proc_of k i) = SLEEPING \<and> p_chan (proc_of k i) = ch")
    case True
    have "post (update_proc_by_chan i ch k1) (\<lambda>k2. keepsK cp R (wakeup_loop js ch (release_proc i k2)))"
      if "acquire_proc i k = Inr k1" "kinv cp R k1" for k1
    proof (rule post_mono)
      show "keepsK cp R (update_proc_by_chan i ch k1)"
        using that acquired_state [OF that(1), of i] True by (intro update_proc_keeps) simp_all
    qed (simp add: Cons.IH)
    then show ?thesis
      using True by (auto intro!: post_mono [OF acquire_proc_keeps [OF Cons.prems]])
  next
    case False
    then show ?thesis using Cons by auto
  qed
qed

lemma mark_wakeup_keeps: "kinv cp R k \<Longrightarrow> keepsK cp R (proc_mark_for_wakeup ch k)"
  unfolding proc_mark_for_wakeup_def
  by (auto intro!: post_mono [OF acquire_pt_keeps] post_mono [OF wakeup_loop_keeps])

lemma exited_loop_keeps: "kinv cp R k \<Longrightarrow> keeps cp R (exited_loop js i k)"
proof (induction js arbitrary: k)
  case Nil
  then show ?case by simp
next
  case (Cons j js)
  have "kinv cp R (upd_proc j (\<lambda>p. p\<lparr>p_state := AVAILABLE\<rparr>) k2)"
    if "kinv cp R k2" "p_state (proc_of k2 j) = ZOMBIE" for k2
    using that by (intro inv_upd_proc) (simp_all add: proc_ok_def)
  then have reap: "post (release_page_k a k1) (\<lambda>k2. kinv cp R (release_proc j (upd_proc j (\<lambda>p. p\<lparr>p_state := AVAILABLE\<rparr>) k2)))"
    if "kinv cp R k1" "p_state (proc_of k1 j) = ZOMBIE" for a k1
    using that by (auto simp: release_page_k_def post_def)
  show ?case
    using Cons reap by (auto intro!: post_mono [OF acquire_proc_keeps [OF Cons.prems]])
qed

lemma check_exited_keeps: "kinv cp R k \<Longrightarrow> keeps cp R (check_exited_children i k)"
  by (simp add: check_exited_children_def exited_loop_keeps)

lemma psleep_inv:
  assumes "kinv cp R k" "kont_ok c"
  shows "kinv cp (R[i := False]) (psleep i c k)"
  unfolding psleep_def using assms inv_frame [OF assms(1)] inv_len [OF assms(1)]
  by (intro inv_upd_proc_state) (auto simp: proc_ok_def)

lemma proc_yield_inv:
  assumes "kinv cp R k" "kont_ok c" "chan_ok ch"
  shows "kinv cp (R[i := False]) (proc_yield i ch c k)"
  unfolding proc_yield_def using assms
  by (intro psleep_inv inv_upd_proc) (simp_all add: proc_ok_def)

lemma proc_yield_resume_keeps: "kinv cp R k \<Longrightarrow> i < MAX_PROCS \<Longrightarrow> keepsK cp R (proc_yield_resume i k)"
  unfolding proc_yield_resume_def
  by (auto intro!: post_mono [OF check_exited_keeps] inv_trap inv_trap_of)

lemma fd_alloc_inv: "kinv cp R k \<Longrightarrow> fref_ok f \<Longrightarrow> kinv cp R (snd (fd_alloc i f k))"
  by (auto simp: fd_alloc_def proc_ok_def split: option.split
    intro!: inv_upd_proc dest!: set_update_subset_insert [THEN subsetD])

lemma fd_free_inv: "kinv cp R k \<Longrightarrow> kinv cp R (fd_free i fd k)"
  by (auto simp: fd_free_def proc_ok_def intro!: inv_upd_proc dest!: set_update_subset_insert [THEN subsetD])

lemma get_fd_post: "kinv cp R k \<Longrightarrow> i < MAX_PROCS \<Longrightarrow> post (get_fd i fd k) (\<lambda>f. \<forall>r. f = Some r \<longrightarrow> fref_ok r)"
  using inv_procs [of cp R k i] by (auto simp: get_fd_def proc_ok_def) (metis nth_mem)

lemma file_obj_ok: "kinv cp R k \<Longrightarrow> fref_ok f \<Longrightarrow> obj_ok (f_fs_file (file_of k f))"
  by (cases f) (auto simp: kinv_def kwf_def file_of_def fref_ok_def file_ok_def list_all_length)

section \<open>Pipes and files\<close>

lemma find_index_lt: "find_index P xs = Some i \<Longrightarrow> i < length xs"
  by (simp add: find_index_Some)

lemma kinv_ftable:
  "kinv cp R k \<Longrightarrow> length fs = MAX_FILES \<Longrightarrow> list_all file_ok fs \<Longrightarrow> kinv cp R (k\<lparr>k_ftable := \<lparr>ft_lock = l, ft_files = fs\<rparr>\<rparr>)"
  by (simp add: kinv_def kwf_def running_def)

lemma fs_alloc_file_keeps:
  assumes "kinv cp R k"
  shows "post (fs_alloc_file k) (\<lambda>(f, k'). kinv cp R k' \<and> (\<forall>r. f = Some r \<longrightarrow> fref_ok r))"
proof -
  have l: "length (ft_files (k_ftable k)) = MAX_FILES" "list_all file_ok (ft_files (k_ftable k))"
    using assms by (simp_all add: kinv_def kwf_def)
  have up: "list_all file_ok ((ft_files (k_ftable k))[i := (ft_files (k_ftable k) ! i)
      \<lparr>f_refcount := 1, f_position := 0, f_flags := 0\<rparr>])" for i
    using l(2) by (intro list_all_upd_at [where g = "\<lambda>f. f\<lparr>f_refcount := 1, f_position := 0, f_flags := 0\<rparr>"]) (simp_all add: file_ok_def)
  have "kinv cp R (k\<lparr>k_ftable := (k_ftable k)\<lparr>ft_lock := a, ft_files := (ft_files (k_ftable k))[i := (ft_files (k_ftable k) ! i)
      \<lparr>f_refcount := 1, f_position := 0, f_flags := 0\<rparr>]\<rparr>\<rparr>)" for i a
    using kinv_ftable [OF assms, of "(ft_files (k_ftable k))[i := (ft_files (k_ftable k) ! i)
      \<lparr>f_refcount := 1, f_position := 0, f_flags := 0\<rparr>]" a] l up
    by (cases "k_ftable k") simp
  moreover have "kinv cp R (k\<lparr>k_ftable := (k_ftable k)\<lparr>ft_lock := a\<rparr>\<rparr>)" for a
    using assms by (simp add: kinv_def kwf_def running_def)
  ultimately show ?thesis
    using l by (auto simp: fs_alloc_file_def fref_ok_def dest: find_index_lt split: option.split)
qed

lemma kinv_pipes_lock [simp]: "kinv cp R (upd_pipes_lock l k) = kinv cp R k"
  by (simp add: upd_pipes_lock_def kinv_def kwf_def running_def)

lemma pipes_lock_all [simp]: "pps_all (k_pipes (upd_pipes_lock l k)) = pps_all (k_pipes k)"
  by (simp add: upd_pipes_lock_def)

lemma kinv_pipes_len: "kinv cp R k \<Longrightarrow> length (pps_all (k_pipes k)) = MAX_PIPES"
  by (simp add: kinv_def kwf_def)

lemma pipe_flags_inv:
  "kinv cp R k \<Longrightarrow> kinv cp R (upd_pipe i (\<lambda>p. p\<lparr>pp_flags := f p\<rparr>) k)"
  "kinv cp R k \<Longrightarrow> kinv cp R (upd_pipe i (\<lambda>p. p\<lparr>pp_buf := b\<rparr>) k)"
  "kinv cp R k \<Longrightarrow> kinv cp R (upd_pipe i (\<lambda>p. p\<lparr>pp_wpos := x, pp_rpos := y\<rparr>) k)"
  by (rule inv_upd_pipe; simp add: pipe_ok_def)+

lemma acquire_pipe_keeps: "kinv cp R k \<Longrightarrow> keepsK cp R (acquire_pipe i k)"
  unfolding acquire_pipe_def by (simp, intro impI inv_upd_pipe) (simp_all add: pipe_ok_def)

lemma alloc_pipe_keeps:
  assumes "kinv cp R k"
  shows "post (alloc_pipe pid k) (\<lambda>(pp, k'). kinv cp R k' \<and> lt_opt MAX_PIPES pp)"
proof -
  have "post (acquire_pipe i k1) (\<lambda>k2. kinv cp R (upd_pipes_lock l (upd_pipe i (\<lambda>p. p\<lparr>pp_buf := b\<rparr>) k2)) \<and> lt_opt MAX_PIPES (Some i))"
    if "kinv cp R k1" "i < MAX_PIPES" for i k1 b l
    by (rule post_mono [OF acquire_pipe_keeps [OF that(1)]]) (simp add: pipe_flags_inv lt_opt_def that(2) del: kconsts)
  then show ?thesis
    unfolding alloc_pipe_def
    by (auto intro!: post_mono [OF kalloc_keeps [OF assms]] simp: Let_def lt_opt_def pipe_flags_inv
      kinv_pipes_len [unfolded MAX_PIPES_def] dest!: find_index_lt split: option.split)
qed

lemma free_pipe_keeps: "kinv cp R k \<Longrightarrow> keepsK cp R (free_pipe i k)"
  unfolding free_pipe_def by (auto intro!: post_mono [OF release_page_keeps] pipe_flags_inv)

lemma pipe_refs_inv: "kinv cp R k \<Longrightarrow> fref_ok f0 \<Longrightarrow> fref_ok f1 \<Longrightarrow> kinv cp R (upd_pipe i (\<lambda>p. p\<lparr>pp_rf := f0, pp_wf := f1\<rparr>) k)"
  by (rule inv_upd_pipe) (simp_all add: pipe_ok_def)

lemma pipe_file_inv:
  "kinv cp R k \<Longrightarrow> i < MAX_PIPES \<Longrightarrow> kinv cp R (upd_file f (\<lambda>x. x\<lparr>f_flags := a, f_fs_file := PipeObj i, f_read := b\<rparr>) k)"
  "kinv cp R k \<Longrightarrow> i < MAX_PIPES \<Longrightarrow> kinv cp R (upd_file f (\<lambda>x. x\<lparr>f_flags := a, f_fs_file := PipeObj i, f_write := b\<rparr>) k)"
  by (rule inv_upd_file; simp add: file_ok_def obj_ok_def)+

lemma pipe_open_tail:
  assumes "kinv cp R k" "fref_ok f0" "fref_ok f1" "pp < MAX_PIPES"
  shows "kinv cp R (snd (fd_alloc i f1 (snd (fd_alloc i f0 (upd_pipe pp (\<lambda>p. p\<lparr>pp_rf := f0, pp_wf := f1\<rparr>)
    (upd_file f1 (\<lambda>x. x\<lparr>f_flags := a, f_fs_file := PipeObj pp, f_write := PipeOp\<rparr>)
      (upd_file f0 (\<lambda>x. x\<lparr>f_flags := b, f_fs_file := PipeObj pp, f_read := PipeOp\<rparr>) k)))))))"
  using assms by (intro fd_alloc_inv pipe_refs_inv pipe_file_inv)

lemma pipe_open_keeps:
  assumes "kinv cp R k"
  shows "keeps cp R (pipe_open a k)"
  unfolding pipe_open_def using assms
  by (auto simp: lt_opt_def Let_def split_beta pipe_flags_inv pipe_open_tail split: option.split
    intro!: post_mono [OF alloc_pipe_keeps [where R = R and cp = cp]] post_mono [OF fs_alloc_file_keeps [where R = R and cp = cp]])

lemma pipe_close_keeps:
  assumes "kinv cp R k" "fref_ok f"
  shows "keepsK cp R (pipe_close_file f k)"
proof -
  have nofs: "kinv cp R (upd_file w (\<lambda>x. x\<lparr>f_fs_file := NoObj\<rparr>) k)" if "kinv cp R k" for w k
    using that by (rule inv_upd_file) (simp add: file_ok_def obj_ok_def)
  show ?thesis
    unfolding pipe_close_file_def using assms
    by (auto split: fs_obj.split intro!: post_mono [OF acquire_pipe_keeps] post_mono [OF mark_wakeup_keeps]
      post_mono [OF free_pipe_keeps] nofs pipe_flags_inv)
qed

lemma pipe_read_copy_refs:
  "pp_rf (fst (snd (pipe_read_copy n r w pp mem x))) = pp_rf pp \<and> pp_wf (fst (snd (pipe_read_copy n r w pp mem x))) = pp_wf pp"
  by (induction n arbitrary: r w pp mem x) (simp_all add: Let_def)

lemma pipe_do_write_refs:
  "pp_rf (fst (snd (pipe_do_write n w r pp mem x))) = pp_rf pp \<and> pp_wf (fst (snd (pipe_do_write n w r pp mem x))) = pp_wf pp"
  by (induction n arbitrary: r w pp mem x) (simp_all add: Let_def)

lemma pipe_replace_inv:
  "kinv cp R k \<Longrightarrow> pp_rf q = pp_rf (pipe_of k pp) \<Longrightarrow> pp_wf q = pp_wf (pipe_of k pp) \<Longrightarrow> kinv cp R (upd_pipe pp (\<lambda>_. q) k)"
  by (rule inv_upd_pipe) (simp_all add: pipe_ok_def)

lemma pipe_read_loop_yields:
  assumes "kinv cp R k" "fref_ok f" "pp < MAX_PIPES"
  shows "yields cp i R (pipe_read_loop i f pp buf sz k)"
proof -
  obtain nr q mem where c: "pipe_read_copy (unat sz) (pp_buf (pipe_of k pp) + ucast (pp_rpos (pipe_of k pp))) buf (pipe_of k pp) (k_mem k) 0 =
    (nr, q, mem)" by (metis prod_cases3)
  have "kinv cp R (upd_pipe pp (\<lambda>_. q) (k\<lparr>k_mem := mem\<rparr>))"
    using pipe_read_copy_refs [of _ _ _ _ _ 0] c assms(1) by (intro pipe_replace_inv) (simp_all, (metis fst_conv snd_conv)+)
  then show ?thesis
    unfolding pipe_read_loop_def Let_def c using assms
    by (auto intro!: post_mono [OF mark_wakeup_keeps] proc_yield_inv simp: pipe_flags_inv kont_ok_def chan_ok_def)
qed

lemma pipe_obj_lt: "kinv cp R k \<Longrightarrow> fref_ok f \<Longrightarrow> f_fs_file (file_of k f) = PipeObj pp \<Longrightarrow> pp < MAX_PIPES"
  using file_obj_ok [of cp R k f] by (simp add: obj_ok_def)

lemma pipe_read_yields:
  "kinv cp R k \<Longrightarrow> fref_ok f \<Longrightarrow> k_cpu_proc k = Some i \<Longrightarrow> yields cp i R (pipe_read f buf sz k)"
  unfolding pipe_read_def
  by (auto split: fs_obj.split intro!: post_mono [OF acquire_pipe_keeps] pipe_read_loop_yields dest: pipe_obj_lt)

lemma pipe_read_resume_yields:
  "kinv cp R k \<Longrightarrow> fref_ok f \<Longrightarrow> pp < MAX_PIPES \<Longrightarrow> i < MAX_PROCS \<Longrightarrow> yields cp i R (pipe_read_resume i f pp buf sz k)"
  unfolding pipe_read_resume_def
  by (auto intro!: post_mono [OF proc_yield_resume_keeps] post_mono [OF acquire_pipe_keeps] pipe_read_loop_yields)

lemma pipe_write_loop_yields:
  assumes "kinv cp R k" "fref_ok f" "pp < MAX_PIPES"
  shows "yields cp i R (pipe_write_loop i f pp buf n nw k)"
proof -
  obtain wr q mem where c: "pipe_do_write (unat (n - nw)) (pp_buf (pipe_of k pp) + ucast (pp_wpos (pipe_of k pp)))
      (buf + scast nw) (pipe_of k pp) (k_mem k) 0 = (wr, q, mem)" by (metis prod_cases3)
  have "kinv cp R (upd_pipe pp (\<lambda>_. q) (k\<lparr>k_mem := mem\<rparr>))"
    using pipe_do_write_refs [of _ _ _ _ _ 0] c assms(1) by (intro pipe_replace_inv) (simp_all, (metis fst_conv snd_conv)+)
  then show ?thesis
    unfolding pipe_write_loop_def Let_def c using assms
    by (auto intro!: post_mono [OF mark_wakeup_keeps] proc_yield_inv simp: kont_ok_def chan_ok_def)
qed

lemma acquire_pipe_cpu: "kinv cp R k \<Longrightarrow> post (acquire_pipe i k) (\<lambda>k'. kinv cp R k' \<and> k_cpu_proc k' = k_cpu_proc k)"
  using acquire_pipe_keeps [of cp R k i] by (auto simp: post_def acquire_pipe_def upd_pipe_def)

lemma pipe_write_yields:
  "kinv cp R k \<Longrightarrow> fref_ok f \<Longrightarrow> k_cpu_proc k = Some i \<Longrightarrow> yields cp i R (pipe_write f buf n k)"
  unfolding pipe_write_def
  by (auto split: fs_obj.split intro!: post_mono [OF acquire_pipe_cpu] pipe_write_loop_yields dest: pipe_obj_lt)

lemma pipe_write_resume_yields:
  "kinv cp R k \<Longrightarrow> fref_ok f \<Longrightarrow> pp < MAX_PIPES \<Longrightarrow> i < MAX_PROCS \<Longrightarrow> yields cp i R (pipe_write_resume i f pp buf n nw k)"
  unfolding pipe_write_resume_def
  by (auto intro!: post_mono [OF proc_yield_resume_keeps] post_mono [OF acquire_pipe_keeps] pipe_write_loop_yields)

section \<open>Baked-in files\<close>

lemma opendir_loop_lt: "\<forall>i \<in> set is. i < n \<Longrightarrow> post (opendir_loop is p name m k) (lt_opt n)"
  by (induction "is") (auto simp: lt_opt_def post_def split: if_splits)

lemma bifs_opendir_lt: "post (bifs_opendir p name a b k) (lt_opt BIFS_MAX_DIRS)"
  unfolding bifs_opendir_def by (rule opendir_loop_lt) simp

lemma opendirpath_loop_lt:
  "lt_opt BIFS_MAX_DIRS dir \<Longrightarrow>
   post (opendirpath_loop path e dir prev slash k) (\<lambda>r. \<forall>d p s. r = Some (d, p, s) \<longrightarrow> lt_opt BIFS_MAX_DIRS d)"
proof (induction path e dir prev slash k rule: opendirpath_loop.induct)
  case (1 path e dir prev slash k)
  show ?case
  proof (cases "slash < length path \<and> int slash < e")
    case True
    have "post (next_slash path (slash + 1)) (\<lambda>s'. post (opendirpath_loop path e d slash s' k)
        (\<lambda>r. \<forall>d p s. r = Some (d, p, s) \<longrightarrow> lt_opt BIFS_MAX_DIRS d))"
      if "bifs_opendir dir path (prev + 1) slash k = Inr d" "lt_opt BIFS_MAX_DIRS d" "d \<noteq> None" for d
      using "1.IH" [OF True that(1,3)] that(2) unfolding post_def [of "next_slash path (slash + 1)"] by blast
    then show ?thesis
      using True by (subst opendirpath_loop.simps) (auto intro!: post_mono [OF bifs_opendir_lt])
  next
    case False
    then show ?thesis using "1.prems" by (subst opendirpath_loop.simps) auto
  qed
qed

lemma kinv_root: "kinv cp R k \<Longrightarrow> lt_opt BIFS_MAX_DIRS (k_bifs_root k)"
  by (simp add: kinv_def kwf_def)

lemma opendirpath_lt:
  assumes "kinv cp R k"
  shows "post (bifs_opendirpath path e k) (\<lambda>(st, d). lt_opt BIFS_MAX_DIRS d)"
proof -
  have none: "lt_opt n None" for n by (simp add: lt_opt_def)
  have "post (bnd (path_at path (s - 1)) (\<lambda>c. if c \<noteq> CHR ''/'' \<and> int s \<le> e then
        bnd (bifs_opendir d path (p + 1) s k) (\<lambda>dir. if dir = None then Inr (- ENOENT, None) else Inr (0, dir))
      else Inr (0, d))) (\<lambda>(st, d). lt_opt BIFS_MAX_DIRS d)" if "lt_opt BIFS_MAX_DIRS d" for d p s
    using that none by (auto intro!: post_any [of _ "path_at _ _"] post_mono [OF bifs_opendir_lt])
  then show ?thesis
    unfolding bifs_opendirpath_def post_bnd [of "next_slash path 1"] post_bnd [of "opendirpath_loop _ _ _ _ _ _"]
    by (intro post_any [of _ "next_slash path 1"] post_mono [OF opendirpath_loop_lt [OF kinv_root [OF assms]]])
      (simp add: none split: option.split prod.split)
qed

lemma kinv_bfiles_len: "kinv cp R k \<Longrightarrow> length (k_files k) = BIFS_MAX_FILES"
  by (simp add: kinv_def kwf_def)

lemma kinv_dirs_len: "kinv cp R k \<Longrightarrow> length (k_dirs k) = BIFS_MAX_DIRS"
  by (simp add: kinv_def kwf_def)

lemma openfile_lt: "kinv cp R k \<Longrightarrow> lt_opt BIFS_MAX_FILES (snd (bifs_openfile d path a b k))"
  using find_index_lt [of _ "k_files k"] kinv_bfiles_len [of cp R k]
  by (auto simp: bifs_openfile_def Let_def lt_opt_def split: option.split)

lemma bifs_open_lt: "kinv cp R k \<Longrightarrow> post (bifs_open path flags k) (\<lambda>(st, f). lt_opt BIFS_MAX_FILES f)"
  unfolding bifs_open_def using openfile_lt [of cp R k]
  by (auto intro!: post_any simp: lt_opt_def split_beta)

lemma bifs_read_loop_keeps: "kinv cp R k \<Longrightarrow> keeps cp R (bifs_read_loop n d pos buf i k)"
  by (induction n d pos buf i k rule: bifs_read_loop.induct) (auto simp: post_def [of "data_at _ _ _"])

lemma bifs_read_keeps: "kinv cp R k \<Longrightarrow> keeps cp R (bifs_read f pos buf sz k)"
  unfolding bifs_read_def by (auto split: fs_obj.split intro!: post_mono [OF bifs_read_loop_keeps])

lemma put_dirent_keeps: "kinv cp R k \<Longrightarrow> keepsK cp R (put_dirent a i fl nm k)"
  by (simp add: put_dirent_def Let_def)

lemma lsdir_loop_keeps: "kinv cp R k \<Longrightarrow> post (lsdir_loop ent is a sz n k) (\<lambda>(e, m, k). kinv cp R k)"
proof (induction "is" arbitrary: n k)
  case Nil
  then show ?case by simp
next
  case (Cons i js)
  then show ?case
    by (auto simp: post_def [of "ent i k"] intro!: post_mono [OF put_dirent_keeps] split: option.split)
qed

lemma bifs_lsdir_keeps: "kinv cp R k \<Longrightarrow> keeps cp R (bifs_lsdir d a sz k)"
  unfolding bifs_lsdir_def by (auto intro!: post_mono [OF lsdir_loop_keeps] split: option.split)

lemma bin_lsdir_keeps: "kinv cp R k \<Longrightarrow> keeps cp R (bin_lsdir a sz k)"
  unfolding bin_lsdir_def by (auto intro!: post_mono [OF lsdir_loop_keeps] split: option.split)

lemma allocate_dir_inv:
  assumes "kinv cp R k" "bifs_allocate_dir k = (d, k')"
  shows "kinv cp R k' \<and> lt_opt BIFS_MAX_DIRS d"
  using assms kinv_dirs_len [OF assms(1)]
  by (auto simp: bifs_allocate_dir_def lt_opt_def dir_ok_def split: option.splits dest!: find_index_lt intro!: inv_upd_dir)

lemma allocate_file_inv:
  assumes "kinv cp R k" "bifs_allocate_file k = (d, k')"
  shows "kinv cp R k' \<and> lt_opt BIFS_MAX_FILES d"
  using assms kinv_bfiles_len [OF assms(1)]
  by (auto simp: bifs_allocate_file_def lt_opt_def bfile_ok_def split: option.splits dest!: find_index_lt intro!: inv_upd_bfile)

lemma mkdir_keeps:
  assumes "kinv cp R k" "case name of PidDir i \<Rightarrow> i < MAX_PROCS | _ \<Rightarrow> True"
  shows "post (bifs_mkdir path name k) (\<lambda>(d, k'). kinv cp R k' \<and> lt_opt BIFS_MAX_DIRS d)"
proof -
  have "kinv cp R (upd_dir d (\<lambda>x. x\<lparr>bd_name := name, bd_parent := par\<rparr>) k')" if "kinv cp R k'" "lt_opt BIFS_MAX_DIRS par" for d par k'
    using that assms(2) by (intro inv_upd_dir) (auto simp: dir_ok_def)
  then show ?thesis
    unfolding bifs_mkdir_def using assms(1)
    by (auto intro!: post_mono [OF opendirpath_lt [OF assms(1)]] simp: lt_opt_def [of _ None]
      dest: allocate_dir_inv [OF assms(1)] split: prod.split option.split)
qed

lemma sysmem_keeps: "kinv cp R k \<Longrightarrow> keeps cp R (procfs_sysmem_data_func buf k)"
  unfolding procfs_sysmem_data_func_def Let_def post_bnd by (rule post_any) (simp split: prod.split)

section \<open>Console\<close>

lemma kinv_writechar [simp]: "kinv cp R (uart_writechar c k) = kinv cp R k"
  by (simp add: uart_writechar_def)

lemma uart_flags_inv:
  "kinv cp R k \<Longrightarrow> kinv cp R (upd_uart (\<lambda>u. u\<lparr>rx_buff_full := x\<rparr>) k)"
  "kinv cp R k \<Longrightarrow> kinv cp R (upd_uart (\<lambda>u. u\<lparr>rx_num_newlines := y u\<rparr>) k)"
  "kinv cp R k \<Longrightarrow> kinv cp R (upd_uart (\<lambda>u. u\<lparr>rxbuf := (rxbuf u)[w := c]\<rparr>) k)"
  "kinv cp R k \<Longrightarrow> z < UART_BUF_SZ \<Longrightarrow> kinv cp R (upd_uart (\<lambda>u. u\<lparr>rx_wpos := z\<rparr>) k)"
  "kinv cp R k \<Longrightarrow> z < UART_BUF_SZ \<Longrightarrow> kinv cp R (upd_uart (\<lambda>u. u\<lparr>rx_rpos := z\<rparr>) k)"
  by (rule inv_upd_uart; simp add: uart_ok_def)+

lemma enqueue_char_keeps:
  assumes "kinv cp R k" "wpos < UART_BUF_SZ"
  shows "post (enqueue_char ch wpos n k) (\<lambda>(w, m, k'). kinv cp R k' \<and> w < UART_BUF_SZ)"
proof -
  have "decrement_wpos wpos u < UART_BUF_SZ" for u
    using assms(2) by (auto simp: decrement_wpos_def Let_def)
  then show ?thesis
    using assms unfolding enqueue_char_def
    by (auto simp: Let_def uart_flags_inv intro!: post_mono [OF mark_wakeup_keeps [where R = R and cp = cp]])
qed

lemma enqueue_loop_keeps:
  "kinv cp R k \<Longrightarrow> wpos < UART_BUF_SZ \<Longrightarrow> post (enqueue_loop cs wpos n k) (\<lambda>(w, m, k'). kinv cp R k' \<and> w < UART_BUF_SZ)"
proof (induction cs arbitrary: wpos n k)
  case Nil
  then show ?case by simp
next
  case (Cons c cs)
  then show ?case by (auto intro!: post_mono [OF enqueue_char_keeps [where R = R and cp = cp]])
qed

lemma uart_interrupt_keeps: "kinv cp R k \<Longrightarrow> keepsK cp R (uart_handle_interrupt k)"
proof -
  assume k: "kinv cp R k"
  then have "rx_wpos (k_uart0 k) < UART_BUF_SZ" by (simp add: kinv_def kwf_def uart_ok_def)
  then show ?thesis
    unfolding uart_handle_interrupt_def uart_enqueue_chars_def
    by (auto intro!: post_mono [OF enqueue_loop_keeps [OF k]] simp: uart_flags_inv)
qed

lemma readline_loop_inv:
  "kinv cp R k \<Longrightarrow> rpos < UART_BUF_SZ \<Longrightarrow> readline_loop n buf rpos wpos nread k = (r, m, k') \<Longrightarrow> kinv cp R k' \<and> r < UART_BUF_SZ"
  by (induction n buf rpos wpos nread k rule: readline_loop.induct) (auto simp: Let_def uart_flags_inv split: if_splits)

lemma readline_copy_inv: "kinv cp R k \<Longrightarrow> uart_readline_copy buf sz k = (n, k') \<Longrightarrow> kinv cp R k'"
proof -
  assume k: "kinv cp R k" and e: "uart_readline_copy buf sz k = (n, k')"
  obtain r m k1 where l: "readline_loop (unat sz) buf (rx_rpos (k_uart0 k)) (rx_wpos (k_uart0 k)) 0 k = (r, m, k1)"
    by (metis prod_cases3)
  have "rx_rpos (k_uart0 k) < UART_BUF_SZ" using k by (simp add: kinv_def kwf_def uart_ok_def)
  from readline_loop_inv [OF k this l] show ?thesis
    using e by (auto simp: uart_readline_copy_def l Let_def uart_flags_inv split: if_splits)
qed

lemma readline_yields:
  assumes "kinv cp R k" "fref_ok f"
  shows "case uart_readline_loop i f buf sz k of (x, k') \<Rightarrow> kinv cp (if x = None then R[i := False] else R) k'"
  using assms unfolding uart_readline_loop_def
  by (auto split: prod.split dest: readline_copy_inv intro!: proc_yield_inv simp: kont_ok_def chan_ok_def)

lemma uart_read_yields:
  assumes "kinv cp R k" "fref_ok f" "k_cpu_proc k = Some i"
  shows "yields cp i R (uart_read f buf sz k)"
  using assms readline_yields [OF assms(1,2), of i buf sz] unfolding uart_read_def
  by (auto split: prod.split dest: readline_copy_inv)

lemma uart_read_resume_yields:
  assumes "kinv cp R k" "fref_ok f" "i < MAX_PROCS"
  shows "yields cp i R (uart_read_resume i f buf sz k)"
  unfolding uart_read_resume_def post_bnd post_Inr
proof (rule post_mono [OF proc_yield_resume_keeps [OF assms(1,3)]])
  fix r assume "kinv cp R r"
  then show "case uart_readline_loop i f buf sz r of (x, k) \<Rightarrow> kinv cp (if x = None then R[i := False] else R) k"
    using assms(2) by (rule readline_yields)
qed

lemma print_loop_inv: "kinv cp R k \<Longrightarrow> kinv cp R (uart_print_loop n a k)"
  by (induction n a k rule: uart_print_loop.induct) simp_all

lemma fold_writechar_inv: "kinv cp R k \<Longrightarrow> kinv cp R (fold uart_writechar s k)"
  by (induction s arbitrary: k) simp_all

lemma uart_write_keeps: "kinv cp R k \<Longrightarrow> keeps cp R (uart_write f a sz k)"
  by (auto simp: uart_write_def uart_print_def uart_prints_def print_loop_inv fold_writechar_inv post_def [of "read_cstr _ _ _"])

section \<open>File layer\<close>

lemma file_fields_inv:
  "kinv cp R k \<Longrightarrow> kinv cp R (upd_file f (\<lambda>x. x\<lparr>f_refcount := a x\<rparr>) k)"
  "kinv cp R k \<Longrightarrow> kinv cp R (upd_file f (\<lambda>x. x\<lparr>f_tmpfile_mem := t\<rparr>) k)"
  "kinv cp R k \<Longrightarrow> kinv cp R (upd_file f (\<lambda>x. x\<lparr>f_position := q x\<rparr>) k)"
  "kinv cp R k \<Longrightarrow> kinv cp R (upd_file f (\<lambda>x. x\<lparr>f_read := r, f_write := w\<rparr>) k)"
  by (rule inv_upd_file; simp add: file_ok_def)+

lemma file_obj_inv: "kinv cp R k \<Longrightarrow> b < BIFS_MAX_FILES \<Longrightarrow> kinv cp R (upd_file f (\<lambda>x. x\<lparr>f_fs_file := BifsObj b\<rparr>) k)"
  by (rule inv_upd_file) (simp_all add: file_ok_def obj_ok_def)

lemma bfile_fields_inv:
  "kinv cp R k \<Longrightarrow> kinv cp R (upd_bfile b (\<lambda>x. x\<lparr>bf_data := d\<rparr>) k)"
  "kinv cp R k \<Longrightarrow> kinv cp R (upd_bfile b (\<lambda>x. x\<lparr>bf_flags := fl\<rparr>) k)"
  by (rule inv_upd_bfile; simp add: bfile_ok_def)+

lemma fs_free_file_keeps:
  assumes "kinv cp R k" "fref_ok f"
  shows "keepsK cp R (fs_free_file f k)"
proof -
  have rest: "keepsK cp R (if f_tmpfile_mem (file_of k f) \<noteq> 0 then
        bnd (release_page_k (f_tmpfile_mem (file_of k f)) k) (\<lambda>k.
        let k = upd_file f (\<lambda>x. x\<lparr>f_tmpfile_mem := 0\<rparr>) k in
        case f_fs_file (file_of k f) of
          BifsObj bf \<Rightarrow> Inr (upd_bfile bf (\<lambda>b. b\<lparr>bf_data := NoData\<rparr>) k)
        | NoObj \<Rightarrow> Inl NullDeref
        | PipeObj _ \<Rightarrow> Inl BadCast)
      else Inr k)" if "kinv cp R k" for k
    using that by (auto simp: Let_def file_fields_inv bfile_fields_inv split: fs_obj.split
      intro!: post_mono [OF release_page_keeps [where R = R and cp = cp]])
  show ?thesis
    unfolding fs_free_file_def Let_def post_bnd
    using assms by (intro post_mono [OF _ rest [unfolded Let_def]])
      (simp_all add: file_fields_inv pipe_close_keeps)
qed

lemma run_query_keeps: "kinv cp R k \<Longrightarrow> keeps cp R (run_query q a k)"
  unfolding run_query_def procfs_stats_data_func_def ksprintf_mem_def Let_def
  by (auto split: query_op.split simp: sysmem_keeps intro!: post_any [of _ "ksprintfvec _ _ _ _ _"])

lemma fs_open_keeps:
  assumes "kinv cp R k"
  shows "keeps cp R (fs_open f path flags k)"
proof -
  have tmp: "keeps cp R (case f_fs_file (file_of k f) of
              BifsObj bf \<Rightarrow>
                bnd (if bf_dataquery (k_files k ! bf) \<noteq> NoQuery then
                       bnd (run_query (bf_dataquery (k_files k ! bf)) page k) (\<lambda>(nwritten, k).
                       Inr (k\<lparr>k_mem := (k_mem k)(page + of_int nwritten := 0)\<rparr>))
                     else Inr k) (\<lambda>k.
                Inr (0, upd_file f (\<lambda>x. x\<lparr>f_read := BifsOp, f_write := BifsOp\<rparr>) (upd_bfile bf (\<lambda>b. b\<lparr>bf_data := MemData page\<rparr>) k)))
            | NoObj \<Rightarrow> Inl NullDeref
            | PipeObj _ \<Rightarrow> Inl BadCast)" if "kinv cp R k" for k page
    using that by (auto simp: file_fields_inv bfile_fields_inv split: fs_obj.split intro!: post_mono [OF run_query_keeps [where R = R and cp = cp]])
  have "keeps cp R (let k = (case pf of Some b \<Rightarrow> upd_file f (\<lambda>x. x\<lparr>f_fs_file := BifsObj b\<rparr>) k | None \<Rightarrow> k) in Inr (st, k))"
    if "lt_opt BIFS_MAX_FILES pf" for pf st
    using assms that by (auto simp: lt_opt_def file_obj_inv split: option.split)
  then show ?thesis
    unfolding fs_open_def Let_def using assms
    by (auto intro!: post_mono [OF bifs_open_lt [OF assms]] post_mono [OF kalloc_keeps [where R = R and cp = cp]] tmp
      simp: file_fields_inv file_obj_inv lt_opt_def split: option.split)
qed

lemma fs_read_yields:
  "kinv cp R k \<Longrightarrow> fref_ok f \<Longrightarrow> k_cpu_proc k = Some i \<Longrightarrow> yields cp i R (fs_read f pos buf sz k)"
  unfolding fs_read_def
  by (auto split: file_op.split intro!: uart_read_yields pipe_read_yields post_mono [OF bifs_read_keeps [where R = R and cp = cp]])

lemma fs_write_yields:
  "kinv cp R k \<Longrightarrow> fref_ok f \<Longrightarrow> k_cpu_proc k = Some i \<Longrightarrow> yields cp i R (fs_write f pos buf n k)"
  unfolding fs_write_def
  by (auto split: file_op.split simp: bifs_write_def intro!: pipe_write_yields post_mono [OF uart_write_keeps [where R = R and cp = cp]])

section \<open>Creating processes\<close>

lemma put_length: "put b i c = Inr b' \<Longrightarrow> length b' = length b"
  by (auto simp: put_def split: if_splits)

lemma itoa_fill_length: "itoa_fill b i n = Inr b' \<Longrightarrow> length b' = length b"
proof (induction b i n rule: itoa_fill.induct)
  case (1 b i n)
  then show ?case
    by (subst (asm) (2) itoa_fill.simps) (auto dest: put_length split: if_splits)
qed

lemma itoa_length: "itoa b sz n = Inr (r, b') \<Longrightarrow> length b' = length b"
  by (auto simp: itoa_def Let_def dest!: put_length itoa_fill_length split: if_splits)

lemma alloc_pid_keeps: "kinv cp R k \<Longrightarrow> keeps cp R (alloc_pid k)"
  unfolding alloc_pid_def by (auto simp: Let_def inv_pt intro!: post_mono [OF acquire_pt_keeps [where R = R and cp = cp]])

lemma procs_release_pt [simp]: "procs (release_pt k) = procs k"
  by (simp add: release_pt_def upd_pt_def)

lemma not_running: "kinv cp R k \<Longrightarrow> p_state (proc_of k i) = st \<Longrightarrow> st \<noteq> RUNNING \<Longrightarrow> i < MAX_PROCS \<Longrightarrow> \<not> R ! i"
  by (simp add: running_nth)

lemma alloc_loop_keeps:
  "kinv cp R k \<Longrightarrow> \<forall>i \<in> set is. i < MAX_PROCS \<Longrightarrow>
   post (alloc_process_loop is k) (\<lambda>(c, k'). kinv cp R k' \<and> (\<forall>i. c = Some i \<longrightarrow> i < MAX_PROCS \<and> \<not> R ! i))"
proof (induction "is" arbitrary: k)
  case Nil
  then show ?case by simp
next
  case (Cons i js)
  then show ?case
    by (auto intro!: post_mono [OF acquire_proc_keeps [where R = R and cp = cp]] dest: not_running)
qed

lemma alloc_process_keeps:
  "kinv cp R k \<Longrightarrow> post (alloc_process k) (\<lambda>(c, k'). kinv cp R k' \<and> (\<forall>i. c = Some i \<longrightarrow> i < MAX_PROCS \<and> \<not> R ! i))"
  unfolding alloc_process_def
  by (auto intro!: post_mono [OF acquire_pt_keeps [where R = R and cp = cp]] post_mono [OF alloc_loop_keeps [where R = R and cp = cp]])

lemma procfs_fields_inv:
  "kinv cp R k \<Longrightarrow> length s = MAX_FILENAME_LEN \<Longrightarrow> kinv cp R (upd_proc i (\<lambda>p. p\<lparr>p_piddir := s\<rparr>) k)"
  "kinv cp R k \<Longrightarrow> lt_opt BIFS_MAX_DIRS d \<Longrightarrow> kinv cp R (upd_proc i (\<lambda>p. p\<lparr>p_procfs_dir := d\<rparr>) k)"
  "kinv cp R k \<Longrightarrow> lt_opt BIFS_MAX_FILES f \<Longrightarrow> kinv cp R (upd_proc i (\<lambda>p. p\<lparr>p_procfs_name_file := f\<rparr>) k)"
  "kinv cp R k \<Longrightarrow> kinv cp R (upd_proc i (\<lambda>p. p\<lparr>p_pid := pid\<rparr>) k)"
  "kinv cp R k \<Longrightarrow> kinv cp R (upd_proc i (\<lambda>p. p\<lparr>p_upagetable := pt, p_usatp := sa\<rparr>) k)"
  by (rule inv_upd_proc; simp add: proc_ok_def)+

lemma name_file_inv:
  "kinv cp R k \<Longrightarrow> lt_opt BIFS_MAX_DIRS d \<Longrightarrow> kinv cp R (upd_bfile f (\<lambda>x. x\<lparr>bf_parent := d, bf_flags := fl, bf_name := nm, bf_data := dt\<rparr>) k)"
  "kinv cp R k \<Longrightarrow> lt_opt BIFS_MAX_DIRS d \<Longrightarrow> i < MAX_PROCS \<Longrightarrow>
   kinv cp R (upd_bfile f (\<lambda>x. x\<lparr>bf_parent := d, bf_flags := fl, bf_name := nm, bf_dataquery := StatsQuery i\<rparr>) k)"
  by (rule inv_upd_bfile; simp add: bfile_ok_def)+

lemma procfs_files_keeps:
  assumes "kinv cp R k" "lt_opt BIFS_MAX_DIRS dir" "i < MAX_PROCS"
  shows "keeps cp R (procfs_files i dir name k)"
proof -
  obtain nf k1 where 1: "bifs_allocate_file k = (nf, k1)" by fastforce
  note k1 = allocate_file_inv [OF assms(1) 1]
  define k2 where "k2 = upd_proc i (\<lambda>p. p\<lparr>p_procfs_name_file := nf\<rparr>) k1"
  then have k2: "kinv cp R k2" using k1 by (simp add: procfs_fields_inv del: kconsts)
  show ?thesis
  proof (cases nf)
    case None
    then show ?thesis using 1 k2 k2_def by (simp add: procfs_files_def)
  next
    case (Some f)
    define k3 where "k3 = upd_bfile f (\<lambda>x. x\<lparr>bf_parent := dir, bf_flags := BIFS_READABLE OR BIFS_RAW, bf_name := ''name'',
      bf_data := LitData (case name of None \<Rightarrow> [] | Some s \<Rightarrow> s)\<rparr>) k2"
    then have k3: "kinv cp R k3" using k2 assms(2) name_file_inv(1) by blast
    obtain sf k4 where 4: "bifs_allocate_file k3 = (sf, k4)" by fastforce
    have "kinv cp R k4" using allocate_file_inv [OF k3 4] by simp
    then show ?thesis
      using 1 4 [unfolded k3_def k2_def Some] Some assms(2,3) unfolding procfs_files_def Let_def
      by (cases sf) (simp_all add: name_file_inv)
  qed
qed

lemma init_procfs_keeps:
  assumes "kinv cp R k" "i < MAX_PROCS"
  shows "keeps cp R (init_procfs_files i name k)"
proof -
  have files: "keeps cp R (init_procfs_files i name k)" if "itoa (p_piddir (proc_of k i)) (int MAX_FILENAME_LEN) (p_pid (proc_of k i)) = Inr (st, s)" for st s
  proof -
    have "length s = MAX_FILENAME_LEN" using itoa_length [OF that] inv_procs [OF assms] by (simp add: proc_ok_def)
    then have k1: "kinv cp R (upd_proc i (\<lambda>p. p\<lparr>p_piddir := s\<rparr>) k)" using assms(1) by (rule procfs_fields_inv(1) [rotated])
    have "post (bifs_mkdir ''/proc'' (PidDir i) (upd_proc i (\<lambda>p. p\<lparr>p_piddir := s\<rparr>) k)) (\<lambda>(d, k'). kinv cp R k' \<and> lt_opt BIFS_MAX_DIRS d)"
      using k1 assms(2) by (intro mkdir_keeps) simp_all
    then show ?thesis
      unfolding init_procfs_files_def that bnd_Inr split Let_def
      using k1 assms(2)
      by (auto elim!: post_mono intro!: procfs_files_keeps procfs_fields_inv simp: lt_opt_def)
  qed
  show ?thesis
  proof (cases "itoa (p_piddir (proc_of k i)) (int MAX_FILENAME_LEN) (p_pid (proc_of k i))")
    case (Inl e)
    then show ?thesis by (simp add: init_procfs_files_def)
  next
    case (Inr r)
    then show ?thesis using files [of "fst r" "snd r"] by simp
  qed
qed

lemma init_fields_inv:
  assumes "kinv cp R k" "i < MAX_PROCS" "\<not> R ! i"
  shows "kinv cp R (init_proc_fields i pc name sp ksp k)"
proof -
  have "p_state (proc_of k i) \<noteq> RUNNING" using running_nth [OF assms(1,2)] assms(3) by simp
  then show ?thesis
    unfolding init_proc_fields_def Let_def
    using assms(1) by (auto intro!: inv_upd_proc
      simp: proc_ok_def kont_ok_def set_reg_def fref_ok_def numeral_2_eq_2 numeral_3_eq_3 eval_nat_numeral split: file_ref.splits)
qed

lemma init_proc_keeps:
  assumes "kinv cp R k" "i < MAX_PROCS" "\<not> R ! i"
  shows "keeps cp R (init_proc i pc name k)"
proof -
  have fin: "keeps cp R (bnd (init_procfs_files i name (init_proc_fields i pc name sp ksp k)) (\<lambda>(status, k).
     if status \<noteq> 0 then Inr (status, k) else
     bnd (acquire_pt k) (\<lambda>k.
     Inr (0, release_pt (upd_pt (\<lambda>t. t\<lparr>pt_num_procs := pt_num_procs t + 1\<rparr>) k)))))" if "kinv cp R k" for k sp ksp
    unfolding post_bnd
    by (rule post_mono [OF init_procfs_keeps [OF init_fields_inv [OF that assms(2,3)] assms(2)]])
      (auto intro!: post_mono [OF acquire_pt_keeps [where R = R and cp = cp]] inv_release_pt inv_pt)
  have tables: "keeps cp R (bnd (with_vm a k) (\<lambda>k. bnd (with_vm b k) (\<lambda>k. bnd (with_vm c k) (\<lambda>k.
     bnd (init_procfs_files i name (init_proc_fields i pc name sp ksp k)) (\<lambda>(status, k).
     if status \<noteq> 0 then Inr (status, k) else
     bnd (acquire_pt k) (\<lambda>k.
     Inr (0, release_pt (upd_pt (\<lambda>t. t\<lparr>pt_num_procs := pt_num_procs t + 1\<rparr>) k))))))))" if "kinv cp R k" for k sp ksp a b c
    unfolding post_bnd [of "with_vm _ _"]
    using that by (intro post_mono [OF with_vm_keeps [where R = R and cp = cp]] fin)
  show ?thesis
    unfolding init_proc_def Let_def using assms(1)
    by (auto intro!: post_mono [OF alloc_pid_keeps [where R = R and cp = cp]] post_mono [OF kalloc_keeps [where R = R and cp = cp]]
      post_mono [OF release_page_keeps [where R = R and cp = cp]] tables procfs_fields_inv simp del: post_bnd simp: post_bnd [of "alloc_pid _"]
      post_bnd [of "kalloc_k _ _ _"] post_bnd [of "release_page_k _ _"])
qed

section \<open>Fork, execv, exit\<close>

lemma files_entry_ok: "kinv cp R k \<Longrightarrow> i < MAX_PROCS \<Longrightarrow> fd < MAX_PROC_FDS \<Longrightarrow> p_files (proc_of k i) ! fd = Some f \<Longrightarrow> fref_ok f"
  using inv_procs [of cp R k i] nth_mem [of fd "p_files (proc_of k i)"] by (auto simp: proc_ok_def)

lemma set_files_inv:
  "kinv cp R k \<Longrightarrow> (\<forall>f. pf = Some f \<longrightarrow> fref_ok f) \<Longrightarrow> kinv cp R (upd_proc i (\<lambda>p. p\<lparr>p_files := (p_files p)[fd := pf]\<rparr>) k)"
  by (rule inv_upd_proc) (auto simp: proc_ok_def dest!: set_update_subset_insert [THEN subsetD])

lemma copy_files_inv:
  "kinv cp R k \<Longrightarrow> src < MAX_PROCS \<Longrightarrow> \<forall>fd \<in> set fds. fd < MAX_PROC_FDS \<Longrightarrow> kinv cp R (copy_files_loop fds dst src k)"
proof (induction fds arbitrary: k)
  case Nil
  then show ?case by simp
next
  case (Cons fd fds)
  have ok: "\<forall>f. p_files (proc_of k src) ! fd = Some f \<longrightarrow> fref_ok f"
    using files_entry_ok [OF Cons.prems(1,2)] Cons.prems(3) by auto
  then show ?case
    using Cons by (auto simp: Let_def intro!: Cons.IH set_files_inv file_fields_inv split: option.split)
qed

lemma trap_inv:
  "kinv cp R k \<Longrightarrow> length (tf_regs tf) = 31 \<Longrightarrow> kinv cp R (upd_proc i (\<lambda>p. p\<lparr>p_trap := tf\<rparr>) k)"
  by (rule inv_upd_proc) (simp_all add: proc_ok_def)

lemma fork_child_keeps:
  assumes "kinv cp R k" "i < MAX_PROCS" "c < MAX_PROCS"
  shows "keeps cp R (fork_child i c k)"
proof -
  have 1: "kinv cp R (upd_proc c (\<lambda>p. p\<lparr>p_parent := Some i\<rparr>) k)"
    using assms by (intro inv_upd_proc) (simp_all add: proc_ok_def lt_opt_def)
  have 2: "kinv cp R (upd_proc c (\<lambda>p. p\<lparr>p_ctx := (p_ctx p)[a := x p, b := y p], p_trap := set_reg REG_A0 0 (p_trap p)\<rparr>) k)"
    if "kinv cp R k" for k a b x y
    using that by (intro inv_upd_proc) (simp_all add: proc_ok_def set_reg_def)
  have "length (tf_regs (p_trap (proc_of (upd_proc c (\<lambda>p. p\<lparr>p_parent := Some i\<rparr>) k) i))) = 31"
    using inv_trap_of [OF 1 assms(2)] .
  then show ?thesis
    unfolding fork_child_def Let_def copy_trap_frame_def copy_files_def post_bnd
    using 1 assms(2)
    by (intro post_mono [OF with_vm_keeps [where R = R and cp = cp]] copy_files_inv trap_inv)
      (simp_all only: post_Inr split inv_mem set_upt atLeastLessThan_iff, (intro inv_set_tf_reg inv_release_proc 2 | simp)+)
qed

lemma proc_fork_keeps:
  assumes "kinv cp R k"
  shows "keeps cp R (proc_fork k)"
proof -
  have "kinv cp R (upd_proc i (\<lambda>p. p\<lparr>p_trap := k_trap_frame k\<rparr>) k)" for i
    using assms inv_frame [OF assms] by (rule trap_inv)
  then show ?thesis
    unfolding proc_fork_def Let_def copy_trap_frame_def
    using assms inv_cpu_lt [OF assms]
    by (auto intro!: post_mono [OF alloc_process_keeps [where R = R and cp = cp]] post_mono [OF init_proc_keeps [where R = R and cp = cp]]
      inv_release_proc fork_child_keeps split: option.split)
qed

lemma forkret_keeps: "kinv cp R k \<Longrightarrow> keepsK cp R (forkret k)"
  unfolding forkret_def Let_def copy_trap_frame_def
  using inv_cpu_lt [of cp R k] inv_trap_of [of cp R k] by (auto intro!: inv_release_proc inv_trap)

lemma copy_argv_keeps: "kinv cp R k \<Longrightarrow> keeps cp R (copy_argv i sp argc argv k)"
  unfolding copy_argv_def Let_def by (auto intro!: post_any [of _ "copy_argv_loop _ _ _ _ _ _ _"])

lemma exec_program_keeps:
  assumes "kinv cp R k" "i < MAX_PROCS"
  shows "keeps cp R (exec_program i prog sp argv k)"
proof -
  have 1: "kinv cp R (upd_proc i (\<lambda>p. p\<lparr>p_trap := (p_trap p)\<lparr>tf_pc := pc\<rparr>, p_name := nm, p_perrno := e\<rparr>) k)" if "kinv cp R k" for k pc nm e
    using that by (intro inv_upd_proc) (simp_all add: proc_ok_def)
  have 2: "kinv cp R (upd_proc i (\<lambda>p. p\<lparr>p_stack_page := a, p_trap := set_reg r1 x1 (set_reg r2 x2 (set_reg r3 x3
      (set_reg r4 x4 (set_reg r5 (tf_pc (p_trap p)) (p_trap p)))))\<rparr>) k)" if "kinv cp R k" for k a r1 x1 r2 x2 r3 x3 r4 x4 r5
    using that by (intro inv_upd_proc) (simp_all add: proc_ok_def set_reg_def)
  have fin: "keeps cp R (let k = k\<lparr>k_trap_frame := copy_trap_frame (k_trap_frame k) (p_trap (proc_of k i))\<rparr>
         in (case p_procfs_name_file (proc_of k i) of
               None \<Rightarrow> Inl NullDeref
             | Some nf \<Rightarrow> Inr (x,
                 release_proc i (upd_bfile nf (\<lambda>f. f\<lparr>bf_data := LitData prog\<rparr>) k))))" if "kinv cp R k" for k x
    using that inv_trap_of [OF that assms(2)]
    by (auto simp: Let_def copy_trap_frame_def split: option.split intro!: inv_release_proc bfile_fields_inv inv_trap)
  show ?thesis
    unfolding exec_program_def Let_def post_bnd split_def
    using assms(1)
    by (intro post_any [of _ "len_argv _ _"] post_mono [OF copy_argv_keeps [where R = R and cp = cp]] post_mono [OF with_vm_keeps [where R = R and cp = cp]]
      post_mono [OF release_page_keeps [where R = R and cp = cp]] fin [unfolded Let_def split_def] 1 2) (auto simp: split_def)
qed

lemma proc_execv_keeps: "kinv cp R k \<Longrightarrow> keeps cp R (proc_execv f argv k)"
  unfolding proc_execv_def Let_def
  using inv_cpu_lt [of cp R k]
  by (auto intro!: post_mono [OF acquire_proc_keeps [where R = R and cp = cp]] post_mono [OF kalloc_keeps [where R = R and cp = cp]]
    exec_program_keeps split: option.split)

lemma close_files_keeps: "kinv cp R k \<Longrightarrow> (\<forall>f. Some f \<in> set fs \<longrightarrow> fref_ok f) \<Longrightarrow> keepsK cp R (close_files fs k)"
proof (induction fs arbitrary: k)
  case Nil
  then show ?case by simp
next
  case (Cons pf fs)
  have "keepsK cp R (case pf of Some f \<Rightarrow> fs_free_file f k | None \<Rightarrow> Inr k)"
    using Cons.prems by (auto split: option.split intro!: fs_free_file_keeps)
  then show ?case using Cons by (auto elim!: post_mono)
qed

text \<open>Process \<open>i\<close> is the only one that runs.\<close>

definition only :: "nat \<Rightarrow> bool list" where
  "only i = (replicate MAX_PROCS False)[i := True]"

definition idle :: "bool list" where
  "idle = replicate MAX_PROCS False"

lemma only_off [simp]: "(only i)[i := False] = idle"
  by (simp add: only_def idle_def list_update_same_conv) (metis (no_types, lifting) length_replicate list_update_beyond
    list_update_id list_update_overwrite linorder_not_less nth_replicate)

lemma idle_off [simp]: "idle[i := False] = idle"
  by (cases "i < MAX_PROCS") (auto simp: idle_def list_eq_iff_nth_eq nth_list_update)

lemma exit_states_inv:
  assumes "kinv cp (only i) k"
  shows "kinv cp idle (upd_proc i (\<lambda>p. p\<lparr>p_state := ZOMBIE\<rparr>) k)"
  using assms by (intro inv_upd_proc_state [OF assms]) (simp_all add: proc_ok_def)

lemma parent_ready_inv: "kinv cp idle k \<Longrightarrow> kinv cp idle (upd_proc par (\<lambda>p. p\<lparr>p_state := READY\<rparr>) k)"
  by (rule inv_upd_proc_state [where R = idle and cp = cp]) (simp_all add: proc_ok_def)

lemma kont_inv: "kinv cp R k \<Longrightarrow> kont_ok c \<Longrightarrow> kinv cp R (upd_proc i (\<lambda>p. p\<lparr>p_kont := c\<rparr>) k)"
  by (rule inv_upd_proc) (simp_all add: proc_ok_def)

lemma flags_off_inv:
  "kinv cp R k \<Longrightarrow> kinv cp R (upd_dir d (\<lambda>x. x\<lparr>bd_flags := 0\<rparr>) k)"
  by (rule inv_upd_dir) (simp_all add: dir_ok_def)

lemma num_procs_inv: "kinv cp R k \<Longrightarrow> kinv cp R (upd_pt (\<lambda>t. t\<lparr>pt_num_procs := f t\<rparr>) k)"
  by (rule inv_pt) simp_all

lemma exit_finish_post: "kinv cp R k \<Longrightarrow> post (exit_finish i k) (\<lambda>(x, k'). x = None \<and> kinv cp R k')"
  unfolding exit_finish_def
  by (auto split: option.split simp: Let_def kont_ok_def
    intro!: post_mono [OF acquire_pt_keeps [where R = R and cp = cp]] kont_inv inv_release_pt num_procs_inv flags_off_inv bfile_fields_inv)

lemma exit_notify_keeps:
  assumes "kinv cp idle k" "i < MAX_PROCS"
  shows "keepsK cp idle (exit_notify i k)"
proof -
  have "par < MAX_PROCS" if "p_parent (proc_of k i) = Some par" for par
    using inv_procs [OF assms] that by (simp add: proc_ok_def lt_opt_def)
  moreover have "length (tf_regs (p_trap ((procs r)[par := proc_of r par\<lparr>p_state := READY\<rparr>] ! par))) = 31"
    if "kinv cp idle r" "par < MAX_PROCS" for r par
    using inv_len [OF that(1)] inv_trap_of [OF that] that(2) by simp
  ultimately show ?thesis
    unfolding exit_notify_def copy_trap_frame_def Let_def using assms(1)
    by (auto split: option.split intro!: post_mono [OF acquire_proc_keeps [where R = idle and cp = cp]]
      inv_release_proc inv_trap parent_ready_inv)
qed

lemma proc_exit_idles:
  assumes "kinv cp (only i) k" "k_cpu_proc k = Some i"
  shows "post (proc_exit k) (\<lambda>(x, k'). x = None \<and> kinv cp idle k')"
proof -
  have i: "i < MAX_PROCS" using inv_cpu_lt [OF assms] .
  have files: "\<forall>f. Some f \<in> set (p_files (proc_of k i)) \<longrightarrow> fref_ok f" if "kinv cp idle k" for k
    using inv_procs [OF that i] by (simp add: proc_ok_def)
  show ?thesis
    unfolding proc_exit_def Let_def post_bnd myproc_post
    using assms i
    by (auto intro!: post_mono [OF release_page_keeps [where R = "only i" and cp = cp]] post_mono [OF with_vm_keeps [where R = "only i" and cp = cp]]
      post_mono [OF exit_notify_keeps] post_mono [OF close_files_keeps [where R = idle and cp = cp]] exit_states_inv files exit_finish_post)
qed

section \<open>Waiting\<close>

lemma wait_by_cond_inv:
  assumes "kinv cp R k" "proc_wait_by_cond i cond k = (x, k')"
  shows "kinv cp (if x = None then R[i := False] else R) k'"
proof -
  have "kinv cp R (upd_proc i (\<lambda>p. p\<lparr>p_cond := c, p_chan := ChanProc t\<rparr>) k)" if "t < MAX_PROCS" for c t
    using assms(1) that by (intro inv_upd_proc) (simp_all add: proc_ok_def chan_ok_def)
  moreover have "t < MAX_PROCS" if "find_proc_by_pid pid k = Some t" for pid t
    using that inv_len [OF assms(1)] by (auto simp: find_proc_by_pid_def dest: find_index_lt)
  ultimately show ?thesis
    using assms by (auto simp: proc_wait_by_cond_def kont_ok_def intro!: psleep_inv split: if_splits option.splits)
qed

lemma proc_wait_yields:
  assumes "kinv (Some i) R k"
  shows "yields (Some i) i R (proc_wait a k)"
  unfolding proc_wait_def Let_def
  using assms inv_current [OF assms] wait_by_cond_inv [OF assms]
  by (auto intro!: post_mono [OF check_exited_keeps [where R = R and cp = "Some i"]] psleep_inv simp: kont_ok_def
    split: prod.split)

lemma proc_sleep_yields:
  assumes "kinv (Some i) R k"
  shows "yields (Some i) i R (proc_sleep ms k)"
proof -
  have "kinv (Some i) R (upd_proc i (\<lambda>p. p\<lparr>p_wakeup_time := t\<rparr>) k)" for t
    using assms by (intro inv_upd_proc) (simp_all add: proc_ok_def)
  then show ?thesis
    unfolding proc_sleep_def Let_def
    using inv_current [OF assms] by (auto intro!: psleep_inv simp: kont_ok_def)
qed

section \<open>Queries and descriptors\<close>

lemma find_pid_lt: "kinv cp R k \<Longrightarrow> find_proc_by_pid pid k = Some t \<Longrightarrow> t < MAX_PROCS"
  using inv_len [of cp R k] by (auto simp: find_proc_by_pid_def dest: find_index_lt)

lemma proc_plist_keeps: "kinv cp R k \<Longrightarrow> keeps cp R (proc_plist a sz k)"
  unfolding proc_plist_def Let_def
  by (auto intro!: post_mono [OF acquire_pt_keeps [where R = R and cp = cp]] split: prod.split)

lemma proc_pinfo_keeps: "kinv cp R k \<Longrightarrow> keeps cp R (proc_pinfo pid a k)"
  unfolding proc_pinfo_def Let_def
  by (auto intro!: post_mono [OF acquire_pt_keeps [where R = R and cp = cp]]
    post_mono [OF acquire_proc_keeps [where R = R and cp = cp]] post_any [of _ "put_pinfo _ _ _"] inv_release_pt inv_release_proc
    split: option.split)

lemma proc_getpid_keeps: "kinv cp R k \<Longrightarrow> keeps cp R (proc_getpid k)"
  by (simp add: proc_getpid_def)

lemma proc_sysinfo_keeps: "kinv cp R k \<Longrightarrow> keeps cp R (proc_sysinfo k)"
  unfolding proc_sysinfo_def Let_def
  by (auto intro!: post_mono [OF acquire_pt_keeps [where R = R and cp = cp]] inv_release_pt)

lemma proc_open_keeps:
  assumes "kinv cp R k"
  shows "keeps cp R (proc_open a fl k)"
proof -
  have tail: "keeps cp R (case fd_alloc i f k of (fd, k) \<Rightarrow>
     if fd < 0 then Inr (-1, release_proc i (set_errno i EMFILE k)) else
     bnd (read_cstr str_bound (k_mem k) x) (\<lambda>path.
     bnd (fs_open f path fl k) (\<lambda>(status, k).
     if status < 0 then Inr (-1, release_proc i (set_errno i (- status) (fd_free i (nat fd) k)))
     else Inr (fd, release_proc i k))))" if "kinv cp R k" "fref_ok f" for i f k x
  proof -
    obtain fd k1 where "fd_alloc i f k = (fd, k1)" by fastforce
    moreover from this have "kinv cp R k1" using fd_alloc_inv [OF that, of i] by simp
    ultimately show ?thesis
      by (auto intro!: post_any [of _ "read_cstr _ _ _"] post_mono [OF fs_open_keeps [where R = R and cp = cp]]
        inv_release_proc fd_free_inv)
  qed
  show ?thesis
    unfolding proc_open_def Let_def using assms
    by (auto intro!: post_mono [OF fs_alloc_file_keeps [where R = R and cp = cp]]
      post_mono [OF acquire_proc_keeps [where R = R and cp = cp]] tail simp del: post_bnd
      simp: post_bnd [of "myproc _"] post_bnd [of "fs_alloc_file _"] post_bnd [of "acquire_proc _ _"] split: option.split)
qed

text \<open>An outcome of an operation that may have put process \<open>i\<close> aside.\<close>

abbreviation kept :: "nat option \<Rightarrow> nat \<Rightarrow> bool list \<Rightarrow> int option \<times> kernel \<Rightarrow> bool" where
  "kept cp i R r \<equiv> (case r of (x, k) \<Rightarrow> kinv cp (if x = None then R[i := False] else R) k)"

lemma read_done_inv: "kept cp i R r \<Longrightarrow> kept cp i R (proc_read_done i f r)"
  by (cases r) (auto simp: proc_read_done_def file_fields_inv split: option.splits)

lemma write_done_inv: "kept cp i R r \<Longrightarrow> kept cp i R (proc_write_done i r)"
  by (cases r) (auto simp: proc_write_done_def split: option.splits)

lemma proc_read_yields:
  assumes "kinv (Some i) R k"
  shows "yields (Some i) i R (proc_read fd buf sz k)"
  unfolding proc_read_def Let_def
  using assms inv_current [OF assms] inv_cpu_lt [OF assms]
  by (auto simp del: split_paired_All intro!: post_mono [OF get_fd_post [OF assms]] post_mono [OF fs_read_yields [OF assms]] read_done_inv
    split: option.split)

lemma proc_write_yields:
  assumes "kinv (Some i) R k"
  shows "yields (Some i) i R (proc_write fd buf sz k)"
  unfolding proc_write_def Let_def
  using assms inv_current [OF assms] inv_cpu_lt [OF assms]
  by (auto intro!: post_mono [OF get_fd_post [OF assms]] post_mono [OF fs_write_yields [OF assms]] write_done_inv
    post_any [of _ "read_cstr _ _ _"] split: option.split)

lemma proc_close_keeps:
  assumes "kinv cp R k"
  shows "keeps cp R (proc_close fd k)"
  unfolding proc_close_def
  using assms inv_cpu_lt [OF assms]
  by (auto intro!: post_mono [OF get_fd_post [OF assms]] post_mono [OF fs_free_file_keeps [OF assms]] fd_free_inv split: option.split)

lemma proc_dup_keeps:
  assumes "kinv cp R k"
  shows "keeps cp R (proc_dup fd k)"
proof -
  have "kinv cp R k'" if "fd_alloc i f k = (n, k')" "fref_ok f" for i f n k'
    using fd_alloc_inv [OF assms that(2), of i] that(1) by simp
  then show ?thesis
    unfolding proc_dup_def using assms inv_cpu_lt [OF assms]
    by (auto intro!: post_mono [OF get_fd_post [OF assms]] file_fields_inv split: option.split prod.split)
qed

lemma get_sfd_post: "kinv cp R k \<Longrightarrow> i < MAX_PROCS \<Longrightarrow> post (get_sfd i fd k) (\<lambda>f. \<forall>r. f = Some r \<longrightarrow> fref_ok r)"
  by (simp add: get_sfd_def get_fd_post)

lemma proc_isopen_keeps: "kinv cp R k \<Longrightarrow> keeps cp R (proc_isopen fd k)"
  unfolding proc_isopen_def by (auto intro!: post_any [of _ "get_sfd _ _ _"])

lemma attach_inv:
  assumes "kinv cp R k" "fref_ok f"
  shows "kinv cp R (upd_proc t (\<lambda>p. p\<lparr>p_files := (p_files p)[fd := Some f], p_chan := obj_chan (f_fs_file (file_of k f))\<rparr>) k)"
  using assms(1)
proof (rule inv_upd_proc)
  have "chan_ok (obj_chan (f_fs_file (file_of k f)))"
    using file_obj_ok [OF assms] by (auto simp: obj_chan_def chan_ok_def obj_ok_def split: fs_obj.splits)
  then show "proc_ok (p\<lparr>p_files := (p_files p)[fd := Some f], p_chan := obj_chan (f_fs_file (file_of k f))\<rparr>)"
    if "proc_ok p" for p
    using that assms(2) by (auto simp: proc_ok_def dest!: set_update_subset_insert [THEN subsetD])
qed simp

lemma proc_pipeattch_keeps:
  assumes "kinv cp R k"
  shows "keeps cp R (proc_pipeattch pid fd k)"
proof -
  have cpu: "i < MAX_PROCS" if "k_cpu_proc k = Some i" for i using inv_cpu_lt [OF assms that] .
  show ?thesis
    unfolding proc_pipeattch_def Let_def using assms cpu
    by (auto intro!: post_mono [OF acquire_proc_keeps [where R = R and cp = cp]] post_mono [OF get_sfd_post [where R = R and cp = cp]]
      inv_release_proc file_fields_inv attach_inv split: option.split)
qed

lemma run_lsdir_keeps: "kinv cp R k \<Longrightarrow> keeps cp R (run_lsdir op d a sz k)"
  by (auto simp: run_lsdir_def bifs_lsdir_keeps bin_lsdir_keeps split: lsdir_op.split)

lemma proc_lsdir_keeps: "kinv cp R k \<Longrightarrow> keeps cp R (proc_lsdir d a sz k)"
  unfolding proc_lsdir_def Let_def
  by (auto intro!: post_any [of _ "read_cstr _ _ _"] post_any [of _ "bifs_opendirpath _ _ _"]
    post_mono [OF run_lsdir_keeps [where R = R and cp = cp]] split: option.split)

lemma proc_pgalloc_keeps: "kinv cp R k \<Longrightarrow> keeps cp R (proc_pgalloc k)"
  unfolding proc_pgalloc_def Let_def
  by (auto intro!: post_any [of _ "allocate_page _ _ _ _"] post_mono [OF with_vm_keeps [where R = R and cp = cp]] split: prod.split)

lemma proc_pgfree_keeps: "kinv cp R k \<Longrightarrow> keeps cp R (proc_pgfree a k)"
  unfolding proc_pgfree_def by (auto intro!: post_mono [OF release_page_keeps [where R = R and cp = cp]])

lemma detach_inv: "kinv cp R k \<Longrightarrow> kinv cp R (upd_proc i (\<lambda>p. p\<lparr>p_parent := None\<rparr>) k)"
  by (rule inv_upd_proc) (simp_all add: proc_ok_def lt_opt_def)

lemma unsleep_inv:
  "kinv cp R k \<Longrightarrow> p_state (proc_of k i) = SLEEPING \<Longrightarrow> kinv cp R (upd_proc i (\<lambda>p. p\<lparr>p_state := READY\<rparr>) k)"
  by (rule inv_upd_proc) (simp_all add: proc_ok_def)

lemma proc_detach_keeps: "kinv cp R k \<Longrightarrow> keeps cp R (proc_detach k)"
  unfolding proc_detach_def Let_def
  by (auto intro!: post_mono [OF acquire_proc_keeps [where R = R and cp = cp]] inv_release_proc detach_inv unsleep_inv split: option.split)

lemma write32_inv [simp]: "kinv cp R (write32 a v k) = kinv cp R k"
  by (simp add: write32_def)

lemma proc_gpio_inv: "kinv cp R k \<Longrightarrow> kinv cp R (snd (proc_gpio pin e v k))"
  by (simp add: proc_gpio_def gpio_do_syscall_def gpio_disable_pin_out_def gpio_enable_pin_out_def gpio_set_pin_def
    gpio_toggle_pin_def upd_reg_def)

section \<open>System calls\<close>

text \<open>
  A handler called by the running process \<open>i\<close> either returns and leaves it the only
  running one, or puts it aside, and then none is running.
\<close>

definition handler_ok :: "nat \<Rightarrow> handler \<Rightarrow> bool" where
  "handler_ok i f \<longleftrightarrow> (\<forall>k. kinv (Some i) (only i) k \<longrightarrow>
     post (f k) (\<lambda>(x, k'). kinv (Some i) (if x = None then idle else only i) k'))"

lemma yields_handler:
  "(\<And>k. kinv (Some i) (only i) k \<Longrightarrow> yields (Some i) i (only i) (f k)) \<Longrightarrow> handler_ok i f"
  unfolding handler_ok_def only_off by blast

lemma keeps_now: "keeps cp R m \<Longrightarrow> post (now m) (\<lambda>(x, k'). kinv cp (if x = None then R' else R) k')"
  by (auto simp: now_def elim!: post_mono)

lemma keeps_handler:
  "(\<And>k. kinv (Some i) (only i) k \<Longrightarrow> keeps (Some i) (only i) (f k)) \<Longrightarrow> handler_ok i (\<lambda>k. now (f k))"
  unfolding handler_ok_def by (blast intro: keeps_now)

lemma sys_exit_ok: "handler_ok i sys_exit"
  unfolding handler_ok_def sys_exit_def
  by (auto intro!: post_mono [OF proc_exit_idles] dest: inv_current)

lemma sys_pgalloc_ok: "handler_ok i sys_pgalloc"
  unfolding handler_ok_def sys_pgalloc_def by (auto intro!: post_mono [OF proc_pgalloc_keeps])

lemma sys_gpio_ok: "handler_ok i sys_gpio"
  unfolding handler_ok_def sys_gpio_def now_def
  by (auto split: prod.split) (metis proc_gpio_inv snd_conv)

lemma sys_now_ok:
  "handler_ok i sys_fork" "handler_ok i sys_open" "handler_ok i sys_close" "handler_ok i sys_execv"
  "handler_ok i sys_getpid" "handler_ok i sys_dup" "handler_ok i sys_pipe" "handler_ok i sys_sysinfo"
  "handler_ok i sys_plist" "handler_ok i sys_pinfo" "handler_ok i sys_pgfree" "handler_ok i sys_detach"
  "handler_ok i sys_isopen" "handler_ok i sys_pipeattch" "handler_ok i sys_lsdir"
  unfolding sys_fork_def [abs_def] sys_open_def [abs_def] sys_close_def [abs_def] sys_execv_def [abs_def]
    sys_getpid_def [abs_def] sys_dup_def [abs_def] sys_pipe_def [abs_def] proc_pipe_def sys_sysinfo_def [abs_def]
    sys_plist_def [abs_def] sys_pinfo_def [abs_def] sys_pgfree_def [abs_def] sys_detach_def [abs_def]
    sys_isopen_def [abs_def] sys_pipeattch_def [abs_def] sys_lsdir_def [abs_def]
  by (rule keeps_handler; intro proc_fork_keeps proc_open_keeps proc_close_keeps proc_execv_keeps proc_getpid_keeps proc_dup_keeps
    pipe_open_keeps proc_sysinfo_keeps proc_plist_keeps proc_pinfo_keeps proc_pgfree_keeps proc_detach_keeps
    proc_isopen_keeps proc_pipeattch_keeps proc_lsdir_keeps; assumption)+

lemma sys_wait_ok:
  "handler_ok i sys_read" "handler_ok i sys_write" "handler_ok i sys_wait" "handler_ok i sys_sleep"
  unfolding sys_read_def [abs_def] sys_write_def [abs_def] sys_wait_def [abs_def] sys_sleep_def [abs_def]
  by (rule yields_handler; intro proc_read_yields proc_write_yields proc_wait_yields proc_sleep_yields; assumption)+

lemma vector_ok: "syscall_vector nr = Some f \<Longrightarrow> handler_ok i f"
  unfolding syscall_vector_def
  by (drule map_of_SomeD)
    (auto simp only: list.set insert_iff empty_iff prod.inject sys_exit_ok sys_pgalloc_ok sys_gpio_ok sys_now_ok sys_wait_ok)

text \<open>Where a trap ends decides whether process \<open>i\<close> still runs.\<close>

abbreviation ends :: "nat \<Rightarrow> exit_to \<times> kernel \<Rightarrow> bool" where
  "ends i r \<equiv> (case r of (e, k) \<Rightarrow> kinv (Some i) (if e = ToScheduler then idle else only i) k)"

lemma kprintf_keeps: "kinv cp R k \<Longrightarrow> keepsK cp R (kprintf fmt args k)"
  by (auto simp: kprintf_def intro!: post_any [of _ "kprintfvec _ _ _ _"])

lemma patch_inv: "kinv cp R k \<Longrightarrow> kinv cp R (patch_proc_sp i sp k)"
  unfolding patch_proc_sp_def by (rule inv_upd_proc) (simp_all add: proc_ok_def)

lemma syscall_exit_ends: "kinv (Some i) (only i) k \<Longrightarrow> post (syscall_exit i sp k) (ends i)"
  by (simp add: syscall_exit_def patch_inv)

lemma finish_ends:
  "(case r of (x, k) \<Rightarrow> kinv (Some i) (if x = None then idle else only i) k) \<Longrightarrow> post (finish i sp r) (ends i)"
  by (cases r) (auto simp: finish_def set_a0_def intro!: syscall_exit_ends inv_set_tf_reg split: option.split)

lemma dispatch_ends:
  assumes "kinv (Some i) (only i) k"
  shows "post (dispatch i nr sp k) (ends i)"
proof -
  have run: "post (f k) (\<lambda>r. post (finish i sp r) (ends i))" if "syscall_vector nr = Some f" for f
    using vector_ok [OF that, of i] assms unfolding handler_ok_def
    by (metis (no_types, lifting) finish_ends post_def)
  then show ?thesis
    unfolding dispatch_def Let_def
    by (auto split: option.split intro!: post_mono [OF kprintf_keeps [OF assms]] syscall_exit_ends inv_set_tf_reg simp: set_a0_def)
qed

lemma syscall_ends:
  assumes "kinv (Some i) (only i) k"
  shows "post (syscall sp k) (ends i)"
proof -
  let ?k1 = "set_errno i 0 (upd_csr disable_interrupts k)"
  have k1: "kinv (Some i) (only i) ?k1" using assms by simp
  have k2: "kinv (Some i) (only i) (syscall_enter i (upd_csr disable_interrupts k))"
    unfolding syscall_enter_def Let_def by (rule inv_trap [OF k1]) (use inv_frame [OF k1] in simp)
  have my: "myproc (upd_csr disable_interrupts k) = Inr i"
    using inv_current [OF assms] by (simp add: myproc_def upd_csr_def)
  show ?thesis
    unfolding syscall_def Let_def my bnd_Inr by (rule dispatch_ends [OF k2])
qed

lemma finish_read: "kept (Some i) i (only i) r \<Longrightarrow> post (finish i sp (proc_read_done i f r)) (ends i)"
  unfolding only_off by (rule finish_ends [OF read_done_inv [where cp = "Some i" and R = "only i" and f = f and i = i and r = r, unfolded only_off]])

lemma finish_write: "kept (Some i) i (only i) r \<Longrightarrow> post (finish i sp (proc_write_done i r)) (ends i)"
  unfolding only_off by (rule finish_ends [OF write_done_inv [where cp = "Some i" and R = "only i" and i = i and r = r, unfolded only_off]])

section \<open>Interrupts and the scheduler\<close>

lemma tick_resume_keeps: "kinv cp R k \<Longrightarrow> kinv cp R (kernel_timer_tick_resume sp k)"
  by (auto simp: kernel_timer_tick_resume_def Let_def patch_inv split: option.split)

lemma resume_ends:
  assumes "kinv (Some i) (only i) k"
  shows "post (resume i sp k) (ends i)"
proof -
  have i: "i < MAX_PROCS" using inv_cpu_lt [OF assms inv_current [OF assms]] .
  have kont: "kont_ok (p_kont (proc_of k i))" using inv_procs [OF assms i] by (simp add: proc_ok_def)
  show ?thesis
  proof (cases "p_kont (proc_of k i)")
    case KForkret
    then show ?thesis using assms by (auto simp: resume_def intro!: post_mono [OF forkret_keeps])
  next
    case KSched
    then show ?thesis using assms by (auto simp: resume_def tick_resume_keeps)
  next
    case KSleep
    then show ?thesis using assms by (auto simp: resume_def intro!: post_mono [OF check_exited_keeps] finish_ends)
  next
    case (KPipeRead f pp buf sz)
    then show ?thesis
      using kont i by (auto simp: resume_def kont_ok_def simp del: split_paired_All intro!: post_mono [OF pipe_read_resume_yields [OF assms]] finish_read)
  next
    case (KPipeWrite f pp buf n nw)
    then show ?thesis
      using kont i by (auto simp: resume_def kont_ok_def simp del: split_paired_All intro!: post_mono [OF pipe_write_resume_yields [OF assms]] finish_write)
  next
    case (KUartRead f buf sz)
    then show ?thesis
      using kont i by (auto simp: resume_def kont_ok_def simp del: split_paired_All intro!: post_mono [OF uart_read_resume_yields [OF assms]] finish_read)
  next
    case KExit
    then show ?thesis using assms by (simp add: resume_def finish_ends)
  qed
qed

lemma tick_inv:
  assumes "kinv (Some i) (only i) k"
  shows "kinv (Some i) idle (kernel_timer_tick k)"
proof -
  have "kinv (Some i) idle (upd_proc i (\<lambda>p. p\<lparr>p_state := READY, p_kont := KSched\<rparr>) (upd_csr disable_interrupts k))"
    using assms by (intro inv_upd_proc_state [where R = "only i"]) (simp_all add: proc_ok_def kont_ok_def)
  moreover have "k_cpu_proc (upd_csr disable_interrupts k) = Some i" using inv_current [OF assms] by (simp add: upd_csr_def)
  ultimately show ?thesis by (simp add: kernel_timer_tick_def sched_def)
qed

lemma tick_idle_inv: "kinv None R k \<Longrightarrow> kinv None R (kernel_timer_tick k)"
  using inv_current [of None R k] by (simp add: kernel_timer_tick_def sched_def upd_csr_def [of disable_interrupts] del: inv_misc)
    (simp add: upd_csr_def [symmetric])

lemma plic_keeps: "kinv cp R k \<Longrightarrow> keepsK cp R (kernel_plic_handler k)"
  by (auto simp: kernel_plic_handler_def plic_dispatch_interrupts_def Let_def intro!: post_mono [OF uart_interrupt_keeps [where R = R and cp = cp]])

lemma park_inv: "kinv cp R k \<Longrightarrow> kinv cp R (sleep_scheduler k)"
  by (simp add: sleep_scheduler_def)

lemma back_inv: "kinv cp R k \<Longrightarrow> kinv None R (sched_back i k)"
  unfolding sched_back_def by (intro inv_release_proc inv_cpu) (simp_all add: lt_opt_def)

lemma idle_on: "idle[i := True] = only i"
  by (simp add: idle_def only_def)

lemma switch_inv:
  assumes "kinv cp idle k" "i < MAX_PROCS"
  shows "kinv (Some i) (only i) (upd_proc i (\<lambda>p. p\<lparr>p_state := RUNNING, p_nscheds := f p\<rparr>) (k\<lparr>k_cpu_proc := Some i\<rparr>))"
  by (rule inv_upd_proc_state [OF inv_cpu [OF assms(1)]]) (use assms(2) in \<open>simp_all add: lt_opt_def idle_on proc_ok_def\<close>)

lemma sched_visit_post:
  assumes "kinv cp idle k" "i < MAX_PROCS"
  shows "post (sched_visit i k) (\<lambda>(b, k'). if b then kinv (Some i) (only i) k' else kinv cp idle k')"
proof -
  define Q where "Q = (\<lambda>(b, k'). if b then kinv (Some i) (only i) k' else kinv cp idle k')"
  have go: "post (bnd (proc_mark_for_wakeup (ChanProc i)
        (upd_proc i (\<lambda>p. p\<lparr>p_state := RUNNING, p_nscheds := p_nscheds p + 1\<rparr>) (k\<lparr>k_cpu_proc := Some i\<rparr>))) (\<lambda>k.
      Inr (True, k\<lparr>k_trap_frame := copy_trap_frame (k_trap_frame k) (p_trap (proc_of k i))\<rparr>))) Q" if "kinv cp idle k" for k
    using switch_inv [OF that assms(2)] assms(2)
    by (auto intro!: post_mono [OF mark_wakeup_keeps] inv_trap inv_trap_of simp: copy_trap_frame_def Q_def)
  have "Q (False, k')" if "kinv cp idle k'" for k' using that by (simp add: Q_def)
  then have "post (sched_visit i k) Q"
    unfolding sched_visit_def Let_def
    using assms
    by (auto intro!: post_mono [OF acquire_proc_keeps [OF assms(1)]] go unsleep_inv inv_release_proc
      simp del: post_bnd simp: post_bnd [of "acquire_proc _ _"])
  then show ?thesis by (simp only: Q_def)
qed

end
