(* ===== verification/Machine.thy ===== *)
theory Machine
  imports Invar
begin

text \<open>
  The hart as a state machine: in user mode in some process, in the loop of
  \<open>scheduler\<close> in front of some index, parked by \<open>sleep_scheduler\<close>, or halted in the
  trap entry. The steps are the operations of the other theories in the order in
  which \<^verbatim>\<open>src/kernel.c\<close>, \<^verbatim>\<open>src/proc.c\<close> and the trap vector call them; the argument of a
  trap handler that survives a context switch on the kernel stack is any number.
\<close>

section \<open>Steps\<close>

text \<open>The variables of \<open>scheduler\<close> are \<open>i\<close>, \<open>i_after_wakeup\<close> and \<open>new_loop\<close>.\<close>

datatype mode = User nat | Sched nat int bool | Parked | Halted nat

text \<open>One round of \<open>soft_park_hart\<close>; a pending software interrupt is what ends the wait.\<close>

definition soft_park_hart :: "kernel \<Rightarrow> kernel" where
  "soft_park_hart k =
     (if k_unsleep_scheduler k then upd_csr cause_timer_interrupt_now (k\<lparr>k_unsleep_scheduler := False\<rparr>) else k)"

text \<open>
  A program in user mode changes registers and memory; nothing is assumed about
  which memory, so that what follows holds of every program.
\<close>

inductive step :: "mode \<times> kernel \<Rightarrow> mode \<times> kernel \<Rightarrow> bool" where
  user_code: "length (tf_regs tf) = 31 \<Longrightarrow> step (User i, k) (User i, k\<lparr>k_mem := mem, k_trap_frame := tf\<rparr>)"
| user_ecall: "syscall sp k = Inr (ToUser, k') \<Longrightarrow> step (User i, k) (User i, k')"
| user_blocks: "syscall sp k = Inr (ToScheduler, k') \<Longrightarrow> step (User i, k) (Sched (i + 1) (int i) False, sched_back i k')"
| user_halts: "syscall sp k = Inr (ToTrapEntry, k') \<Longrightarrow> step (User i, k) (Halted i, k')"
| user_tick: "step (User i, k) (Sched (i + 1) (int i) False, sched_back i (kernel_timer_tick k))"
| user_plic: "kernel_plic_handler k = Inr k' \<Longrightarrow> step (User i, k) (User i, k')"
| sched_skip: "i < MAX_PROCS \<Longrightarrow> \<not> (n \<and> w < int i) \<Longrightarrow> sched_visit i k = Inr (False, k') \<Longrightarrow>
    step (Sched i w n, k) (Sched (i + 1) w n, k')"
| sched_switch: "i < MAX_PROCS \<Longrightarrow> \<not> (n \<and> w < int i) \<Longrightarrow> sched_visit i k = Inr (True, k') \<Longrightarrow>
    resume i sp k' = Inr (ToUser, k'') \<Longrightarrow> step (Sched i w n, k) (User i, k'')"
| sched_blocks: "i < MAX_PROCS \<Longrightarrow> \<not> (n \<and> w < int i) \<Longrightarrow> sched_visit i k = Inr (True, k') \<Longrightarrow>
    resume i sp k' = Inr (ToScheduler, k'') \<Longrightarrow> step (Sched i w n, k) (Sched (i + 1) (int i) False, sched_back i k'')"
| sched_wrap: "step (Sched MAX_PROCS w n, k) (Sched 0 w True, k)"
| sched_parks: "i < MAX_PROCS \<Longrightarrow> n \<Longrightarrow> w < int i \<Longrightarrow> step (Sched i w n, k) (Parked, sleep_scheduler k)"
| park_poll: "step (Parked, k) (Parked, soft_park_hart k)"
| park_tick: "step (Parked, k) (Sched 0 (-1) False, kernel_timer_tick k)"
| park_plic: "kernel_plic_handler k = Inr k' \<Longrightarrow> step (Parked, k) (Parked, k')"
| devices: "step (m, k) (m, k\<lparr>k_mtime := t, k_rx := rx, k_mmio := mmio\<rparr>)"

inductive_cases user_stepE: "step (User i, k) s"
inductive_cases sched_stepE: "step (Sched i w n, k) s"
inductive_cases parked_stepE: "step (Parked, k) s"
inductive_cases halted_stepE: "step (Halted i, k) s"

text \<open>After \<open>kinit\<close> the hart is in front of the first index, with no process running.\<close>

definition boot_ok :: "kernel \<Rightarrow> bool" where
  "boot_ok k \<longleftrightarrow> kinv None idle k \<or>
     (\<exists>p. kinv (Some p) idle k \<and> p_state (proc_of k p) = READY)"

inductive reachable :: "mode \<times> kernel \<Rightarrow> bool" where
  start: "boot_ok k \<Longrightarrow> reachable (Sched 0 (-1) False, k)"
| more: "reachable s \<Longrightarrow> step s s' \<Longrightarrow> reachable s'"

section \<open>The invariant\<close>

definition minv :: "mode \<times> kernel \<Rightarrow> bool" where
  "minv s \<longleftrightarrow> (case s of
       (User i, k) \<Rightarrow> kinv (Some i) (only i) k
     | (Halted i, k) \<Rightarrow> kinv (Some i) (only i) k
     | (Parked, k) \<Rightarrow> kinv None idle k
     | (Sched j w n, k) \<Rightarrow> kinv None idle k \<or>
         (\<exists>p. kinv (Some p) idle k \<and> j \<le> p \<and> \<not> n \<and> p_state (proc_of k p) = READY))"

lemma minv_simps [simp]:
  "minv (User i, k) \<longleftrightarrow> kinv (Some i) (only i) k"
  "minv (Halted i, k) \<longleftrightarrow> kinv (Some i) (only i) k"
  "minv (Parked, k) \<longleftrightarrow> kinv None idle k"
  "minv (Sched j w n, k) \<longleftrightarrow> kinv None idle k \<or>
     (\<exists>p. kinv (Some p) idle k \<and> j \<le> p \<and> \<not> n \<and> p_state (proc_of k p) = READY)"
  by (simp_all add: minv_def)

lemma inv_devices: "kinv cp R (k\<lparr>k_mtime := t, k_rx := rx, k_mmio := mmio\<rparr>) = kinv cp R k"
  by (simp add: kinv_def kwf_def running_def)

lemma inv_user_code: "kinv cp R k \<Longrightarrow> length (tf_regs tf) = 31 \<Longrightarrow> kinv cp R (k\<lparr>k_mem := mem, k_trap_frame := tf\<rparr>)"
  by (simp add: kinv_def kwf_def running_def)

lemma inv_poll: "kinv cp R k \<Longrightarrow> kinv cp R (soft_park_hart k)"
  by (simp add: soft_park_hart_def)

lemma lock_states:
  "p_state (proc_of (upd_proc i (\<lambda>p. p\<lparr>p_lock := l p\<rparr>) k) j) = p_state (proc_of k j)"
  by (cases "i < length (procs k)"; cases "i = j") (auto simp: list_update_beyond)

text \<open>A visit that does not switch leaves every state alone.\<close>

lemma skip_states:
  assumes "kinv cp idle k" "i < MAX_PROCS" "sched_visit i k = Inr (False, k')"
  shows "p_state (proc_of k i) \<noteq> READY \<and> (\<forall>j. p_state (proc_of k' j) = p_state (proc_of k j))"
proof -
  obtain k1 where k1: "acquire_proc i k = Inr k1" using assms(3) by (auto simp: sched_visit_def bnd_eq_Inr)
  have st: "p_state (proc_of k1 j) = p_state (proc_of k j)" for j using acquired_state [OF k1] by simp
  have len: "length (procs k1) = MAX_PROCS" using acquire_proc_keeps [OF assms(1), of i] k1 by (auto simp: post_def dest: inv_len)
  have "\<not> (p_state (proc_of k1 i) = SLEEPING \<and> should_wake_up (proc_of k1 i) k1) \<and> p_state (proc_of k1 i) \<noteq> READY \<and> k' = release_proc i k1"
    using assms(2,3) k1 len by (auto simp: sched_visit_def Let_def split: if_splits)
  then show ?thesis
    using st by (simp add: release_proc_def lock_states del: procs_upd_proc)
qed

lemma boot_visit:
  assumes "kinv (Some p) idle k" "p_state (proc_of k p) = READY" "i \<le> p" "i < MAX_PROCS" "sched_visit i k = Inr (False, k')"
  shows "kinv (Some p) idle k' \<and> i + 1 \<le> p \<and> p_state (proc_of k' p) = READY"
  using skip_states [OF assms(1,4,5)] sched_visit_post [OF assms(1,4)] assms(2,3,5)
  by (cases "i = p") (auto simp: post_def)

text \<open>Rule by rule.\<close>

lemma minv_user_step:
  assumes "step (User i, k) s" "kinv (Some i) (only i) k"
  shows "minv s"
  using assms(1)
proof cases
  case (user_blocks sp k')
  then show ?thesis using postD [OF syscall_ends [OF assms(2)]] back_inv [of "Some i" idle k' i] by fastforce
next
  case user_tick
  then show ?thesis using back_inv [OF tick_inv [OF assms(2)]] by simp
next
  case (user_plic k')
  then show ?thesis using postD [OF plic_keeps [OF assms(2)]] by simp
qed (use assms(2) postD [OF syscall_ends [OF assms(2)]] in \<open>fastforce simp: inv_devices inv_user_code\<close>)+

lemma sched_switch_inv:
  assumes "kinv cp idle k" "i < MAX_PROCS" "sched_visit i k = Inr (True, k')" "resume i sp k' = Inr (e, k'')"
  shows "kinv (Some i) (if e = ToScheduler then idle else only i) k''"
proof -
  have "kinv (Some i) (only i) k'" using postD [OF sched_visit_post [OF assms(1,2)] assms(3)] by simp
  from postD [OF resume_ends [OF this] assms(4)] show ?thesis by simp
qed

lemma minv_sched_idle: "minv (Sched i w n, k) \<Longrightarrow> \<exists>cp. kinv cp idle k"
  by auto

lemma minv_sched_step:
  assumes "step (Sched i w n, k) s" "minv (Sched i w n, k)"
  shows "minv s"
proof -
  obtain cp where cp: "kinv cp idle k" using minv_sched_idle [OF assms(2)] by blast
  have boot: "p < MAX_PROCS" if "kinv (Some p) idle k" for p using inv_cpu_lt [OF that inv_current [OF that]] .
  show ?thesis
    using assms(1)
  proof cases
    case (sched_skip k')
    have "kinv None idle k'" if "kinv None idle k"
      using postD [OF sched_visit_post [OF that sched_skip(2)] sched_skip(4)] by simp
    moreover have "minv s" if "kinv (Some p) idle k" "i \<le> p" "\<not> n" "p_state (proc_of k p) = READY" for p
      using boot_visit [OF that(1,4,2) sched_skip(2,4)] that(3) sched_skip(1) by auto
    ultimately show ?thesis using assms(2) sched_skip(1) by auto
  next
    case (sched_switch k' sp k'')
    then show ?thesis using sched_switch_inv [OF cp sched_switch(2,4,5)] by simp
  next
    case (sched_blocks k' sp k'')
    then show ?thesis using back_inv [OF sched_switch_inv [OF cp sched_blocks(2,4,5)]] by simp
  next
    case sched_wrap
    then show ?thesis using assms(2) boot by force
  next
    case sched_parks
    then show ?thesis using assms(2) park_inv by simp
  next
    case (devices t rx mmio)
    then show ?thesis using assms(2) by (simp add: inv_devices)
  qed
qed

lemma minv_parked_step:
  assumes "step (Parked, k) s" "kinv None idle k"
  shows "minv s"
  using assms(1)
proof cases
  case (park_plic k')
  then show ?thesis using postD [OF plic_keeps [OF assms(2)]] by simp
qed (use assms(2) in \<open>simp_all add: inv_poll tick_idle_inv inv_devices\<close>)

lemma minv_step:
  assumes "step s s'" "minv s"
  shows "minv s'"
proof -
  obtain m k where s: "s = (m, k)" by fastforce
  show ?thesis
  proof (cases m)
    case (User i)
    then show ?thesis using assms minv_user_step s by simp
  next
    case (Sched i w n)
    then show ?thesis using assms minv_sched_step s by blast
  next
    case Parked
    then show ?thesis using assms minv_parked_step s by simp
  next
    case (Halted i)
    then show ?thesis using assms s by (auto elim!: halted_stepE simp: inv_devices)
  qed
qed

lemma minv_reachable: "reachable s \<Longrightarrow> minv s"
  by (induction rule: reachable.induct) (auto simp: boot_ok_def intro: minv_step)

lemma only_running: "kinv cp (only i) k \<Longrightarrow> i < MAX_PROCS \<Longrightarrow> j < MAX_PROCS \<Longrightarrow> p_state (proc_of k j) = RUNNING \<longleftrightarrow> j = i"
  using running_nth [of cp "only i" k j] by (auto simp: only_def nth_list_update split: if_splits)

lemma idle_running: "kinv cp idle k \<Longrightarrow> j < MAX_PROCS \<Longrightarrow> p_state (proc_of k j) \<noteq> RUNNING"
  using running_nth [of cp idle k j] by (simp add: idle_def)

lemma running_now:
  assumes "kinv (Some i) (only i) k"
  shows "k_cpu_proc k = Some i \<and> (\<forall>j. j < MAX_PROCS \<longrightarrow> (p_state (proc_of k j) = RUNNING) = (j = i))"
proof -
  have "k_cpu_proc k = Some i" using inv_current [OF assms] .
  then show ?thesis using only_running [OF assms] inv_cpu_lt [OF assms] by blast
qed

section \<open>Properties\<close>

text \<open>
  C1: however system calls, timer ticks, device interrupts, context switches and
  arbitrary user programs are interleaved after boot, a hart in user mode runs
  exactly one process, the one \<open>cpus[0].proc\<close> points to, and no other process is
  marked running; while the scheduler looks for a process or waits for an
  interrupt none is.
\<close>

theorem one_process_runs:
  assumes "reachable (m, k)"
  shows "case m of
      User i \<Rightarrow> k_cpu_proc k = Some i \<and> (\<forall>j. j < MAX_PROCS \<longrightarrow> (p_state (proc_of k j) = RUNNING) = (j = i))
    | Halted i \<Rightarrow> k_cpu_proc k = Some i \<and> (\<forall>j. j < MAX_PROCS \<longrightarrow> (p_state (proc_of k j) = RUNNING) = (j = i))
    | Parked \<Rightarrow> k_cpu_proc k = None \<and> (\<forall>j. j < MAX_PROCS \<longrightarrow> p_state (proc_of k j) \<noteq> RUNNING)
    | Sched _ _ _ \<Rightarrow> \<forall>j. j < MAX_PROCS \<longrightarrow> p_state (proc_of k j) \<noteq> RUNNING"
proof (cases m)
  case (Sched i w n)
  then show ?thesis
    using minv_sched_idle [of i w n k] minv_reachable [OF assms] idle_running by fastforce
next
  case Parked
  then show ?thesis
    using minv_reachable [OF assms] inv_current idle_running by auto
qed (use minv_reachable [OF assms] running_now in \<open>simp_all del: kconsts\<close>)

text \<open>A kernel with one process, ready to enter its program.\<close>

definition one_ready :: kernel where
  "one_ready = (bss_kernel (\<lambda>_. 0))\<lparr>k_proc_table := \<lparr>pt_lock = 0,
     pt_procs = (replicate MAX_PROCS zero_proc)[0 := zero_proc\<lparr>p_state := READY, p_pid := 1\<rparr>],
     pt_num_procs = 1, pt_pid_counter = 2\<rparr>\<rparr>"

lemma bss_kwf: "kwf (bss_kernel mem)"
  by (simp add: kwf_def bss_kernel_def proc_ok_def zero_proc_def zero_trap_def zero_file_def zero_pipe_def zero_dir_def zero_bfile_def
    lt_opt_def kont_ok_def chan_ok_def file_ok_def obj_ok_def pipe_ok_def fref_ok_def dir_ok_def bfile_ok_def uart_ok_def list_all_length)

lemma bss_inv: "kinv None idle (bss_kernel mem)"
  using bss_kwf [of mem] by (simp add: kinv_def running_def lt_opt_def idle_def bss_kernel_def zero_proc_def)

lemma one_ready_boot: "boot_ok one_ready"
proof -
  have "proc_ok zero_proc" by (simp add: proc_ok_def zero_proc_def zero_trap_def lt_opt_def kont_ok_def chan_ok_def)
  then have ok: "proc_ok (zero_proc\<lparr>p_state := READY, p_pid := 1\<rparr>)" by (simp add: proc_ok_def)
  have "kinv None idle (upd_proc 0 (\<lambda>p. p\<lparr>p_state := READY, p_pid := 1\<rparr>) (bss_kernel (\<lambda>_. 0)))"
    using ok by (intro inv_upd_proc_state [OF bss_inv]) (simp_all add: bss_kernel_def)
  then have "kinv None idle (upd_pt (\<lambda>t. t\<lparr>pt_num_procs := 1, pt_pid_counter := 2\<rparr>)
      (upd_proc 0 (\<lambda>p. p\<lparr>p_state := READY, p_pid := 1\<rparr>) (bss_kernel (\<lambda>_. 0))))"
    by (rule inv_pt) simp
  also have "upd_pt (\<lambda>t. t\<lparr>pt_num_procs := 1, pt_pid_counter := 2\<rparr>)
      (upd_proc 0 (\<lambda>p. p\<lparr>p_state := READY, p_pid := 1\<rparr>) (bss_kernel (\<lambda>_. 0))) = one_ready"
    by (simp add: one_ready_def bss_kernel_def upd_pt_def upd_proc_def)
  finally show ?thesis by (simp add: boot_ok_def)
qed

lemma one_ready_visit:
  "\<exists>k'. sched_visit 0 one_ready = Inr (True, k') \<and> (\<exists>k''. resume 0 0 k' = Inr (ToUser, k''))"
  by (simp add: sched_visit_def one_ready_def bss_kernel_def zero_proc_def acquire_proc_def upd_proc_def Let_def
    proc_mark_for_wakeup_def acquire_pt_def upd_pt_def upt_rec eval_nat_numeral resume_def forkret_def myproc_def release_pt_def)

theorem one_process_runs_witness: "\<exists>k. reachable (User 0, k) \<and> k_cpu_proc k = Some 0 \<and> p_state (proc_of k 0) = RUNNING"
proof -
  obtain k' k'' where k: "sched_visit 0 one_ready = Inr (True, k')" "resume 0 0 k' = Inr (ToUser, k'')"
    using one_ready_visit by blast
  have "reachable (Sched 0 (-1) False, one_ready)" using one_ready_boot by (rule start)
  moreover have "step (Sched 0 (-1) False, one_ready) (User 0, k'')"
    by (rule sched_switch [OF _ _ k]) simp_all
  ultimately have "reachable (User 0, k'')" by (rule more)
  with one_process_runs [OF this] show ?thesis by auto
qed

end
