(* ===== verification/Boot.thy ===== *)
theory Boot
  imports Machine
begin

text \<open>
  From reset to the scheduler: \<open>kinit\<close> leaves the tables well formed and the first
  process ready, so that every run of the machine starts in a state from which
  the invariant holds.
\<close>

section \<open>Devices and files\<close>

lemma plic_init_inv: "kinv cp R k \<Longrightarrow> kinv cp R (plic_init k)"
  unfolding plic_init_def plic_set_intr_priority_def
  by (rule fold_invariant [where P = "kinv cp R" and Q = "\<lambda>_. True"]) simp_all

lemma drivers_init_inv: "kinv cp R k \<Longrightarrow> kinv cp R (drivers_init k)"
  unfolding drivers_init_def uart_init_def
  by (rule inv_upd_uart)
    (simp_all add: uart_machine_init_def plic_enable_intr_def plic_set_threshold_def plic_set_intr_priority_def uart_ok_def)

lemma timer_init_inv: "kinv cp R k \<Longrightarrow> kinv cp R (machine_init_timer k)"
  by (simp add: machine_init_timer_def set_timer_after_def write64_def Let_def)

lemma trap_vector_inv: "kinv cp R k \<Longrightarrow> kinv cp R (init_trap_vector h k)"
  by (simp add: init_trap_vector_def Let_def inv_set_tf_reg)

lemma init_cpus_inv: "kinv cp R k \<Longrightarrow> kinv None R (init_cpus k)"
  unfolding init_cpus_def by (rule inv_cpu) (simp_all add: lt_opt_def)

lemma init_dir_keeps:
  assumes "kinv cp R k" "lt_opt BIFS_MAX_DIRS par"
  shows "post (init_dir name par k) (\<lambda>(d, k'). kinv cp R k' \<and> d < BIFS_MAX_DIRS)"
proof -
  obtain d k1 where d: "bifs_allocate_dir k = (d, k1)" by fastforce
  have "kinv cp R (upd_dir j (\<lambda>x. x\<lparr>bd_name := LitName name, bd_parent := par\<rparr>) k1)" for j
    using allocate_dir_inv [OF assms(1) d] assms(2) by (intro inv_upd_dir) (auto simp: dir_ok_def)
  then show ?thesis
    using allocate_dir_inv [OF assms(1) d] by (cases d) (simp_all add: init_dir_def d lt_opt_def)
qed

lemma inv_dirs_files:
  "kinv cp R k \<Longrightarrow> kinv cp R (k\<lparr>k_dirs := replicate BIFS_MAX_DIRS zero_dir, k_files := replicate BIFS_MAX_FILES zero_bfile\<rparr>)"
  by (simp add: kinv_def kwf_def running_def zero_dir_def zero_bfile_def dir_ok_def bfile_ok_def lt_opt_def list_all_length)

lemma inv_root: "kinv cp R k \<Longrightarrow> d < BIFS_MAX_DIRS \<Longrightarrow> kinv cp R (k\<lparr>k_bifs_root := Some d\<rparr>)"
  by (simp add: kinv_def kwf_def running_def lt_opt_def)

lemma inv_bfiles:
  "kinv cp R k \<Longrightarrow> length fs = BIFS_MAX_FILES \<Longrightarrow> list_all bfile_ok fs \<Longrightarrow> kinv cp R (k\<lparr>k_files := fs\<rparr>)"
  by (simp add: kinv_def kwf_def running_def)

lemma raw_file_ok: "d < BIFS_MAX_DIRS \<Longrightarrow> (\<forall>i. q \<noteq> StatsQuery i) \<Longrightarrow> bfile_ok (raw_file fl (Some d) nm dt q)"
  by (simp add: raw_file_def bfile_ok_def lt_opt_def split: query_op.split)

lemma kinv_bfiles_ok: "kinv cp R k \<Longrightarrow> list_all bfile_ok (k_files k)"
  by (simp add: kinv_def kwf_def)

lemma binls_inv: "kinv cp R k \<Longrightarrow> kinv cp R (upd_dir b (\<lambda>d. d\<lparr>bd_lsdir := BinLs\<rparr>) k)"
  by (rule inv_upd_dir) (simp_all add: dir_ok_def)

lemma bifs_init_keeps:
  assumes "kinv cp R k"
  shows "keepsK cp R (bifs_init k)"
proof -
  have fin: "kinv cp R (k\<lparr>k_files := (k_files k)[0 := a0, 1 := a1, 2 := a2, 3 := a3, 4 := a4, 5 := a5, 6 := a6, 7 := a7]\<rparr>)"
    if "kinv cp R k" "bfile_ok a0" "bfile_ok a1" "bfile_ok a2" "bfile_ok a3" "bfile_ok a4" "bfile_ok a5" "bfile_ok a6" "bfile_ok a7"
    for k a0 a1 a2 a3 a4 a5 a6 a7
    using that kinv_bfiles_ok [OF that(1)] kinv_bfiles_len [OF that(1)]
    by (intro inv_bfiles list_all_put) simp_all
  show ?thesis
    unfolding bifs_init_def Let_def post_bnd split_def post_Inr
    by (rule post_mono [OF init_dir_keeps [OF inv_dirs_files [OF assms]]], simp add: lt_opt_def)
      (intro post_mono [OF init_dir_keeps [where R = R and cp = cp]] fin binls_inv raw_file_ok inv_root;
        simp add: split_def lt_opt_def)
qed

lemma fs_init_keeps:
  assumes "kinv cp R k"
  shows "keepsK cp R (fs_init k)"
  unfolding fs_init_def Let_def
  by (rule bifs_init_keeps)
    (use assms in \<open>simp add: kinv_def kwf_def running_def file_ok_def obj_ok_def list_all_length\<close>)

lemma init_pipes_inv: "kinv cp R k \<Longrightarrow> kinv cp R (init_pipes k)"
  by (simp add: init_pipes_def kinv_def kwf_def running_def list_all_length pipe_ok_def)

lemma init_table_inv:
  assumes "kinv cp R k"
  shows "kinv cp idle (init_process_table k)"
proof -
  have "running (init_process_table k) = idle"
    using inv_len [OF assms] by (simp add: init_process_table_def running_def upd_pt_def idle_def comp_def map_replicate_const)
  then show ?thesis
    using assms by (simp add: init_process_table_def kinv_def kwf_def upd_pt_def list_all_length proc_ok_def)
qed

section \<open>The first process\<close>

lemma files_procs [simp]: "procs (upd_dir d f k) = procs k" "procs (upd_bfile b g k) = procs k"
  by (simp_all add: upd_dir_def upd_bfile_def)

lemma mkdir_procs: "post (bifs_mkdir path name k) (\<lambda>(d, k'). procs k' = procs k)"
  unfolding bifs_mkdir_def bifs_allocate_dir_def
  by (auto intro!: post_any [of _ "bifs_opendirpath _ _ _"] split: option.split)

lemma allocate_file_procs: "bifs_allocate_file k = (f, k') \<Longrightarrow> procs k' = procs k"
  by (auto simp: bifs_allocate_file_def split: option.splits)

lemma upd_state:
  assumes "p_state (g (proc_of k i)) = p_state (proc_of k i)"
  shows "p_state (proc_of (upd_proc i g k) j) = p_state (proc_of k j)"
  using assms by (cases "i < length (procs k)"; cases "i = j") (auto simp: list_update_beyond)

lemma procfs_files_state:
  "post (procfs_files i dir name k) (\<lambda>(st, k'). p_state (proc_of k' j) = p_state (proc_of k j))"
proof -
  have 1: "p_state (proc_of (upd_proc i (\<lambda>p. p\<lparr>p_procfs_name_file := nf\<rparr>) k1) j) = p_state (proc_of k j)"
    if "bifs_allocate_file k = (nf, k1)" for nf k1
    using allocate_file_procs [OF that] by (subst upd_state) simp_all
  have "p_state (proc_of k' j) = p_state (proc_of k1 j)"
    if "bifs_allocate_file (upd_bfile b f k1) = (nf, k')" for b f nf k1 k'
    using allocate_file_procs [OF that] by simp
  with 1 show ?thesis
    unfolding procfs_files_def Let_def
    by (auto split: option.split prod.split simp del: procs_upd_proc)
qed

lemma init_procfs_state:
  "post (init_procfs_files i name k) (\<lambda>(st, k'). p_state (proc_of k' j) = p_state (proc_of k j))"
proof -
  have dir: "p_state (proc_of (upd_proc i (\<lambda>p. p\<lparr>p_procfs_dir := d\<rparr>) k1) j) = p_state (proc_of k1 j)"
    "p_state (proc_of (upd_proc i (\<lambda>p. p\<lparr>p_piddir := s\<rparr>) k1) j) = p_state (proc_of k1 j)" for d s k1
    by (rule upd_state; simp)+
  show ?thesis
    unfolding init_procfs_files_def Let_def
    by (auto intro!: post_any [of _ "itoa _ _ _"] post_mono [OF mkdir_procs] post_mono [OF procfs_files_state [where j = j]] simp: dir
      simp del: procs_upd_proc)
qed

lemma fields_state:
  assumes "i < length (procs k)"
  shows "p_state (proc_of (init_proc_fields i pc name sp ksp k) i) = READY"
  using assms by (simp add: init_proc_fields_def Let_def)

lemma acquire_pt_procs: "post (acquire_pt k) (\<lambda>k'. procs k' = procs k)"
  by (simp add: acquire_pt_def upd_pt_def)

lemma with_vm_procs: "post (with_vm f k) (\<lambda>k'. procs k' = procs k)"
  by (auto simp: with_vm_def post_def)

lemma kalloc_procs: "post (kalloc_k site pid k) (\<lambda>(a, k'). procs k' = procs k)"
  by (auto simp: kalloc_k_def post_def)

lemma init_proc_state:
  assumes "i < length (procs k)"
  shows "post (init_proc i pc name k) (\<lambda>(st, k'). st = 0 \<longrightarrow> p_state (proc_of k' i) = READY)"
proof -
  have fin: "post (bnd (init_procfs_files i name (init_proc_fields i pc name sp ksp k)) (\<lambda>(status, k).
     if status \<noteq> 0 then Inr (status, k) else
     bnd (acquire_pt k) (\<lambda>k.
     Inr (0, release_pt (upd_pt (\<lambda>t. t\<lparr>pt_num_procs := pt_num_procs t + 1\<rparr>) k))))) (\<lambda>(st, k'). st = 0 \<longrightarrow> p_state (proc_of k' i) = READY)"
    if "i < length (procs k)" for k sp ksp
    using fields_state [OF that]
    by (auto intro!: post_mono [OF init_procfs_state [where j = i]] post_mono [OF acquire_pt_procs] simp: upd_pt_def)
  have tables: "post (bnd (with_vm a k) (\<lambda>k. bnd (with_vm b k) (\<lambda>k. bnd (with_vm c k) (\<lambda>k.
     bnd (init_procfs_files i name (init_proc_fields i pc name sp ksp k)) (\<lambda>(status, k).
     if status \<noteq> 0 then Inr (status, k) else
     bnd (acquire_pt k) (\<lambda>k.
     Inr (0, release_pt (upd_pt (\<lambda>t. t\<lparr>pt_num_procs := pt_num_procs t + 1\<rparr>) k)))))))) (\<lambda>(st, k'). st = 0 \<longrightarrow> p_state (proc_of k' i) = READY)"
    if "i < length (procs k)" for k sp ksp a b c
    unfolding post_bnd [of "with_vm _ _"]
    using that by (intro post_mono [OF with_vm_procs] fin) simp
  have pid: "post (alloc_pid k) (\<lambda>(p, k'). procs k' = procs k)"
    by (auto simp: alloc_pid_def Let_def upd_pt_def intro!: post_mono [OF acquire_pt_procs])
  show ?thesis
    unfolding init_proc_def Let_def using assms
    by (auto intro!: post_mono [OF pid] post_mono [OF kalloc_procs] post_any [of _ "release_page_k _ _"] tables simp del: post_bnd
      simp: post_bnd [of "alloc_pid _"] post_bnd [of "kalloc_k _ _ _"] post_bnd [of "release_page_k _ _"] ENOMEM_def)
qed

lemma inject_argv_inv: "kinv cp R k \<Longrightarrow> kinv cp R (inject_argv i argv k)"
proof -
  assume k: "kinv cp R k"
  have "kinv cp R (upd_proc i (\<lambda>p. p\<lparr>p_trap := set_reg a x (set_reg b y (set_reg c z (p_trap p)))\<rparr>) (k\<lparr>k_mem := m\<rparr>))" for a b c x y z m
    using k by (intro inv_upd_proc) (simp_all add: proc_ok_def set_reg_def)
  then show ?thesis by (simp add: inject_argv_def Let_def split: prod.split)
qed

lemma inject_argv_state: "p_state (proc_of (inject_argv i argv k) j) = p_state (proc_of k j)"
  unfolding inject_argv_def Let_def by (simp split: prod.split del: procs_upd_proc) (simp add: upd_state del: procs_upd_proc)

lemma boot_started:
  assumes "kinv None idle k" "p < MAX_PROCS" "p_state (proc_of k p) = READY"
  shows "boot_ok (k\<lparr>k_cpu_proc := Some p\<rparr>)"
  using inv_cpu [OF assms(1), of "Some p"] assms(2,3) by (auto simp: boot_ok_def lt_opt_def)

lemma assign_init_boots:
  assumes "kinv None idle k"
  shows "post (assign_init_program prog script k) boot_ok"
proof -
  have ini: "post (init_proc c pc nm k) (\<lambda>(st, k'). kinv None idle k' \<and> (st = 0 \<longrightarrow> p_state (proc_of k' c) = READY))"
    if "kinv None idle k" "c < MAX_PROCS" for c pc nm k
    using init_proc_keeps [OF that, of pc nm] init_proc_state [of c k pc nm] inv_len [OF that(1)] that(2)
    by (auto simp: post_def idle_def)
  have go: "boot_ok (release_proc c k\<lparr>k_cpu_proc := Some c\<rparr>)"
    if "kinv None idle k" "p_state (proc_of k c) = READY" "c < MAX_PROCS" for c k
    using that by (intro boot_started inv_release_proc) (simp_all add: release_proc_def lock_states del: procs_upd_proc)
  show ?thesis
    unfolding assign_init_program_def Let_def using assms
    by (auto split: option.split intro!: post_mono [OF alloc_process_keeps [where R = idle and cp = None]] post_mono [OF ini] go
      inject_argv_inv simp: inject_argv_state)
qed

lemma pipes_boot: "boot_ok k \<Longrightarrow> boot_ok (init_pipes k)"
  using init_pipes_inv unfolding boot_ok_def by (auto simp: init_pipes_def)

lemma boot_idle: "kinv None idle k \<Longrightarrow> boot_ok k"
  by (simp add: boot_ok_def)

lemma inv_stack_size [simp]: "kinv cp R (k\<lparr>k_user_stack_size := s\<rparr>) = kinv cp R k"
  by (simp add: kinv_def kwf_def running_def)

lemma late_keeps: "kinv cp R k \<Longrightarrow> keepsK cp R (test_kprintf s k)" "kinv cp R k \<Longrightarrow> keepsK cp R (do_page_report e k)"
  by (simp_all add: test_kprintf_def do_page_report_def kprintf_keeps del: append.simps)

lemma kinit_boots:
  assumes "kinv None R k"
  shows "post (kinit cpu fdt k) boot_ok"
  unfolding kinit_def Let_def split_def if_distrib [of "\<lambda>m. post m boot_ok"] post_bnd
  using drivers_init_inv [OF plic_init_inv [OF init_cpus_inv [OF assms]]]
    by (auto simp del: append.simps vec7_def
      intro!: post_mono [OF kprintf_keeps [where R = R and cp = None]] post_any [of _ "fdt_init _ _ _"]
      post_mono [OF late_keeps(1) [where R = R and cp = None]] post_mono [OF with_vm_keeps [where R = R and cp = None]]
      post_mono [OF late_keeps(2) [where R = R and cp = None]] post_mono [OF fs_init_keeps [where R = R and cp = None]] post_mono [OF assign_init_boots] boot_idle init_table_inv
      trap_vector_inv timer_init_inv pipes_boot)

text \<open>The state in which \<open>kinit\<close> calls the scheduler is a start state of the machine.\<close>

lemma kinit_reachable:
  assumes "kinv None R k" "kinit cpu fdt k = Inr k'" "step\<^sup>*\<^sup>* (Sched 0 (- 1) False, k') s"
  shows "reachable s"
  using assms(3)
proof (induction rule: rtranclp_induct)
  case base
  show ?case using kinit_boots [OF assms(1), of cpu fdt] assms(2) by (auto simp: post_def intro: reachable.start)
qed (rule reachable.more)

end
