(* ===== verification/Sched.thy ===== *)
theory Sched
  imports Machine
begin

text \<open>
  What the scheduler does with the processes: it goes to the first one that can
  run, and when none can it parks the hart, except after the last slot has run.
\<close>

section \<open>Rounds without a switch\<close>

text \<open>A process that the scheduler passes by: unlocked, not ready, not due.\<close>

definition passed_by :: "kernel \<Rightarrow> nat \<Rightarrow> bool" where
  "passed_by k i \<longleftrightarrow> p_lock (proc_of k i) = 0 \<and> p_state (proc_of k i) \<noteq> READY \<and>
     \<not> (p_state (proc_of k i) = SLEEPING \<and> should_wake_up (proc_of k i) k)"

lemma upd_proc_id: "g (proc_of k i) = proc_of k i \<Longrightarrow> upd_proc i g k = k"
  by (simp add: upd_proc_def)

lemma due_upd [simp]: "should_wake_up p (upd_proc i f k) = should_wake_up p k"
  by (simp add: should_wake_up_def upd_proc_def time_get_now_def)

lemma due_lock [simp]: "should_wake_up (p\<lparr>p_lock := l\<rparr>) k = should_wake_up p k"
  by (simp add: should_wake_up_def)

lemma visit_passes:
  assumes "passed_by k i" "length (procs k) = MAX_PROCS" "i < MAX_PROCS"
  shows "sched_visit i k = Inr (False, k)"
proof -
  let ?k = "upd_proc i (\<lambda>p. p\<lparr>p_lock := 1\<rparr>) k"
  have a: "acquire_proc i k = Inr ?k" using assms by (simp add: acquire_proc_def passed_by_def)
  have p: "proc_of ?k i = (proc_of k i)\<lparr>p_lock := 1\<rparr>" using assms by simp
  have "release_proc i ?k = k"
    using assms unfolding release_proc_def by (subst upd_proc_upd_proc) (auto intro!: upd_proc_id simp: passed_by_def)
  then show ?thesis
    using assms(1) unfolding sched_visit_def a bnd_Inr Let_def p
    by (auto simp: passed_by_def p simp del: procs_upd_proc)
qed

lemma walk:
  assumes "length (procs k) = MAX_PROCS" "i \<le> j" "j \<le> MAX_PROCS"
    "\<forall>l. i \<le> l \<and> l < j \<longrightarrow> passed_by k l \<and> \<not> (n \<and> w < int l)"
  shows "step\<^sup>*\<^sup>* (Sched i w n, k) (Sched j w n, k)"
  using assms(2-)
proof (induction j rule: dec_induct)
  case base
  then show ?case by simp
next
  case (step j)
  have "step\<^sup>*\<^sup>* (Sched i w n, k) (Sched j w n, k)" using step by simp
  moreover have "sched_visit j k = Inr (False, k)" using step assms(1) by (intro visit_passes) auto
  then have "Machine.step (Sched j w n, k) (Sched (j + 1) w n, k)" using step by (intro sched_skip) auto
  ultimately show ?case by (simp add: rtranclp.rtrancl_into_rtrancl)
qed

lemma parks_at:
  assumes "length (procs k) = MAX_PROCS" "\<forall>l < MAX_PROCS. passed_by k l" "-1 \<le> w" "w < int MAX_PROCS - 1"
  shows "step\<^sup>*\<^sup>* (Sched 0 w True, k) (Parked, sleep_scheduler k)"
proof -
  let ?j = "nat (w + 1)"
  have "step\<^sup>*\<^sup>* (Sched 0 w True, k) (Sched ?j w True, k)"
    using assms by (intro walk) auto
  moreover have "step (Sched ?j w True, k) (Parked, sleep_scheduler k)"
    using assms(3,4) by (intro sched_parks) auto
  ultimately show ?thesis by simp
qed

section \<open>Properties\<close>

text \<open>
  C17: when no process can run, the loop of \<open>scheduler\<close> ends: within one more round
  over the table it puts the hart to sleep with interrupts enabled, provided the
  process that ran last was not in the last slot.
\<close>

theorem scheduler_parks:
  assumes "length (procs k) = MAX_PROCS" "\<forall>l < MAX_PROCS. passed_by k l" "i \<le> MAX_PROCS"
    "-1 \<le> w" "w < int MAX_PROCS - 1"
  shows "step\<^sup>*\<^sup>* (Sched i w False, k) (Parked, sleep_scheduler k)"
proof -
  have "step\<^sup>*\<^sup>* (Sched i w False, k) (Sched MAX_PROCS w False, k)"
    using assms by (intro walk) auto
  moreover have "step (Sched MAX_PROCS w False, k) (Sched 0 w True, k)" by (rule sched_wrap)
  ultimately show ?thesis
    using parks_at [OF assms(1,2,4,5)] by (meson converse_rtranclp_into_rtranclp rtranclp_trans)
qed

theorem scheduler_parks_witness:
  "step\<^sup>*\<^sup>* (Sched 3 2 False, bss_kernel (\<lambda>_. 0)) (Parked, sleep_scheduler (bss_kernel (\<lambda>_. 0)))"
  by (rule scheduler_parks) (auto simp: bss_kernel_def passed_by_def zero_proc_def nth_Cons' )

text \<open>
  C26: after the last slot has run and nothing else can, the scheduler never goes to
  sleep: whatever the devices do, its next step is another look at the table and
  changes nothing, because \<open>i_after_wakeup < i\<close> cannot become true any more. The
  call of \<open>sleep_scheduler\<close> is what enables interrupts there, so a process that
  waits for a character is not woken.
\<close>

theorem scheduler_spins:
  assumes "length (procs k) = MAX_PROCS" "\<forall>l < MAX_PROCS. passed_by k l" "step (Sched i (int MAX_PROCS - 1) n, k) s"
  shows "\<exists>i' n' t rx mmio. s = (Sched i' (int MAX_PROCS - 1) n', k\<lparr>k_mtime := t, k_rx := rx, k_mmio := mmio\<rparr>)"
proof -
  have same: "k = k\<lparr>k_mtime := k_mtime k, k_rx := k_rx k, k_mmio := k_mmio k\<rparr>" by simp
  from assms(3) show ?thesis
  proof cases
    case (sched_skip k')
    then have "k' = k" using visit_passes [of k i] assms(1,2) by simp
    then show ?thesis using sched_skip(1) same by blast
  next
    case sched_wrap
    then show ?thesis using same by blast
  qed (use visit_passes [of k i] assms(1,2) in auto)
qed

theorem scheduler_spins_witness:
  "\<exists>i' n' t rx mmio. (Sched 0 7 True, bss_kernel (\<lambda>_. 0)) =
     (Sched i' (int MAX_PROCS - 1) n', (bss_kernel (\<lambda>_. 0))\<lparr>k_mtime := t, k_rx := rx, k_mmio := mmio\<rparr>)"
proof (rule scheduler_spins)
  show "step (Sched MAX_PROCS (int MAX_PROCS - 1) False, bss_kernel (\<lambda>_. 0)) (Sched 0 7 True, bss_kernel (\<lambda>_. 0))"
    using sched_wrap [of 7 False "bss_kernel (\<lambda>_. 0)"] by simp
qed (auto simp: bss_kernel_def passed_by_def zero_proc_def nth_Cons')

section \<open>Choice of a process\<close>

text \<open>The processes as \<open>scheduler\<close> leaves them when it switches to process \<open>i\<close>.\<close>

definition chosen :: "nat \<Rightarrow> process_t list \<Rightarrow> process_t list" where
  "chosen i ps = (let ps' = ps[i := (ps ! i)\<lparr>p_lock := 1, p_state := RUNNING, p_nscheds := p_nscheds (ps ! i) + 1\<rparr>]
     in map (wake1 (ChanProc i) ps') ps')"

lemma chosen_nth:
  "i < length ps \<Longrightarrow> chosen i ps ! i = (ps ! i)\<lparr>p_lock := 1, p_state := RUNNING, p_nscheds := p_nscheds (ps ! i) + 1\<rparr>"
  by (simp add: chosen_def Let_def wake1_def waits_on_def)

lemma wakeable_running:
  assumes "wakeable ch ps" "p_state p = RUNNING"
  shows "wakeable ch (ps[i := p])"
  using assms unfolding wakeable_def waits_on_def
  by (metis (no_types, lifting) insertE pstate.distinct(15) set_update_subset_insert subsetD)

lemma visit_switches:
  assumes "length (procs k) = MAX_PROCS" "i < MAX_PROCS" "p_lock (proc_of k i) = 0"
    "p_state (proc_of k i) = READY \<or> p_state (proc_of k i) = SLEEPING \<and> should_wake_up (proc_of k i) k"
    "pt_lock (k_proc_table k) = 0" "pt_num_procs (k_proc_table k) \<noteq> 0" "wakeable (ChanProc i) (procs k)"
  shows "\<exists>k'. sched_visit i k = Inr (True, k') \<and> procs k' = chosen i (procs k) \<and> k_cpu_proc k' = Some i \<and>
    k_trap_frame k' = p_trap (proc_of k i) \<and> k_mem k' = k_mem k"
proof -
  define p where "p = (proc_of k i)\<lparr>p_lock := 1, p_state := RUNNING, p_nscheds := p_nscheds (proc_of k i) + 1\<rparr>"
  define k1 where "k1 = upd_proc i (\<lambda>_. p) (k\<lparr>k_cpu_proc := Some i\<rparr>)"
  have p1: "procs k1 = (procs k)[i := p]" by (simp add: k1_def)
  have "wakeable (ChanProc i) (procs k1)" unfolding p1 using assms(7) by (rule wakeable_running) (simp add: p_def)
  then obtain k2 where k2: "proc_mark_for_wakeup (ChanProc i) k1 = Inr k2" "procs k2 = map (wake1 (ChanProc i) (procs k1)) (procs k1)"
    "k2 = k1\<lparr>k_proc_table := (k_proc_table k1)\<lparr>pt_procs := procs k2\<rparr>, k_unsleep_scheduler := k_unsleep_scheduler k2\<rparr>"
    using mark_wakeup [of k1 "ChanProc i"] assms by (auto simp: k1_def upd_proc_def)
  have c: "procs k2 = chosen i (procs k)" by (simp add: k2(2) p1 chosen_def p_def Let_def)
  then have t: "p_trap (proc_of k2 i) = p_trap (proc_of k i)" using assms(1,2) by (simp add: chosen_nth)
  have "k_cpu_proc k2 = Some i \<and> k_mem k2 = k_mem k" by (subst (1 2) k2(3)) (simp add: k1_def upd_proc_def)
  moreover have "sched_visit i k = Inr (True, k2\<lparr>k_trap_frame := p_trap (proc_of k2 i)\<rparr>)"
    using assms k2(1) unfolding k1_def p_def
    by (auto simp: sched_visit_def acquire_proc_def Let_def upd_proc_def copy_trap_frame_def should_wake_up_def)
  ultimately show ?thesis using c t by simp
qed

text \<open>
  The slots that the loop looks at from the state \<open>(i, i_after_wakeup, new_loop)\<close>
  before it parks the hart, or before it comes back to the start of a pass when
  it cannot park: in a first pass the rest of the table and then the slots up to
  the one that ran last, in a second pass only what is left of the latter.
\<close>

definition visits :: "nat \<Rightarrow> int \<Rightarrow> bool \<Rightarrow> nat list" where
  "visits i w n = (if n \<and> i < MAX_PROCS \<and> w < int MAX_PROCS - 1 then [i..<nat (w + 1)]
     else [i..<MAX_PROCS] @ [0..<nat (w + 1)])"

text \<open>After a process has run, and after a wakeup of the hart, that is the whole table.\<close>

lemma visits_all: "-1 \<le> w \<Longrightarrow> w < int MAX_PROCS \<Longrightarrow> set (visits (nat (w + 1)) w False) = {..<MAX_PROCS}"
  by (auto simp: visits_def)

lemma find_appended: "find P (xs @ ys) = (case find P xs of None \<Rightarrow> find P ys | Some x \<Rightarrow> Some x)"
  by (induction xs) auto

lemma find_range:
  "find P [i..<j] = Some l \<longleftrightarrow> i \<le> l \<and> l < j \<and> P l \<and> (\<forall>x. i \<le> x \<and> x < l \<longrightarrow> \<not> P x)"
proof -
  have "find P [i..<j] = Some l \<longleftrightarrow> (\<exists>m < j - i. P (i + m) \<and> l = i + m \<and> (\<forall>x < m. \<not> P (i + x)))"
    by (auto simp: find_Some_iff)
  also have "\<dots> \<longleftrightarrow> i \<le> l \<and> l < j \<and> P l \<and> (\<forall>x. i \<le> x \<and> x < l \<longrightarrow> \<not> P x)"
    by (auto intro!: exI [of _ "l - i"]) (metis add_less_cancel_left le_add_diff_inverse)
  finally show ?thesis .
qed

lemma walk_find:
  assumes "length (procs k) = MAX_PROCS" "j \<le> MAX_PROCS" "n \<Longrightarrow> int j \<le> w + 1"
  shows "find (\<lambda>l. \<not> passed_by k l) [i..<j] = Some l \<Longrightarrow> step\<^sup>*\<^sup>* (Sched i w n, k) (Sched l w n, k) \<and> \<not> (n \<and> w < int l)"
    and "i \<le> j \<Longrightarrow> find (\<lambda>l. \<not> passed_by k l) [i..<j] = None \<Longrightarrow> step\<^sup>*\<^sup>* (Sched i w n, k) (Sched j w n, k)"
  using walk [OF assms(1), of i _ n w] assms(2,3) by (fastforce simp: find_range find_None_iff)+

text \<open>A first pass, and what follows from its end.\<close>

lemma wraps: "step\<^sup>*\<^sup>* (Sched i w n, k) (Sched MAX_PROCS w n', k) \<Longrightarrow> step\<^sup>*\<^sup>* (Sched i w n, k) (Sched 0 w True, k)"
  using sched_wrap by (meson rtranclp.rtrancl_into_rtrancl)

lemma second_pass:
  assumes "length (procs k) = MAX_PROCS" "i < MAX_PROCS" "-1 \<le> w" "w < int MAX_PROCS"
  shows "case find (\<lambda>l. \<not> passed_by k l) [i..<nat (w + 1)] of
      Some j \<Rightarrow> step\<^sup>*\<^sup>* (Sched i w True, k) (Sched j w True, k) \<and> j < MAX_PROCS \<and> \<not> w < int j
    | None \<Rightarrow> w < int MAX_PROCS - 1 \<longrightarrow> step\<^sup>*\<^sup>* (Sched i w True, k) (Parked, sleep_scheduler k)"
proof -
  let ?w = "nat (w + 1)"
  note find = walk_find [OF assms(1), of ?w True w]
  have w: "?w \<le> MAX_PROCS" "int ?w \<le> w + 1" using assms(3,4) by simp_all
  show ?thesis
  proof (cases "find (\<lambda>l. \<not> passed_by k l) [i..<?w]")
    case None
    have "step\<^sup>*\<^sup>* (Sched i w True, k) (Sched (max i ?w) w True, k)"
      using find(2) [of i] w None by (auto simp: max_def)
    moreover have "step (Sched (max i ?w) w True, k) (Parked, sleep_scheduler k)" if "w < int MAX_PROCS - 1"
      using that assms(2) by (intro sched_parks) auto
    ultimately show ?thesis using None by (auto intro: rtranclp.rtrancl_into_rtrancl)
  next
    case (Some j)
    then have "step\<^sup>*\<^sup>* (Sched i w True, k) (Sched j w True, k)" "\<not> w < int j" "j < MAX_PROCS"
      using find(1) [of i j] w by (auto simp: find_range)
    then show ?thesis using Some by simp
  qed
qed

lemma walk_visits:
  assumes "length (procs k) = MAX_PROCS" "i \<le> MAX_PROCS" "-1 \<le> w" "w < int MAX_PROCS"
  shows "case find (\<lambda>l. \<not> passed_by k l) (visits i w n) of
      Some j \<Rightarrow> \<exists>n'. step\<^sup>*\<^sup>* (Sched i w n, k) (Sched j w n', k) \<and> j < MAX_PROCS \<and> \<not> (n' \<and> w < int j)
    | None \<Rightarrow> if w < int MAX_PROCS - 1 then step\<^sup>*\<^sup>* (Sched i w n, k) (Parked, sleep_scheduler k)
        else step\<^sup>*\<^sup>* (Sched i w n, k) (Sched 0 w True, k)"
proof (cases "n \<and> i < MAX_PROCS \<and> w < int MAX_PROCS - 1")
  case True
  then have "visits i w n = [i..<nat (w + 1)]" by (simp add: visits_def)
  then show ?thesis
    using second_pass [OF assms(1) _ assms(3,4), of i] True by (auto split: option.splits)
next
  case False
  let ?P = "\<lambda>l. \<not> passed_by k l"
  have v: "visits i w n = [i..<MAX_PROCS] @ [0..<nat (w + 1)]" unfolding visits_def using False by (rule if_not_P)
  have n: "n \<Longrightarrow> i < MAX_PROCS \<Longrightarrow> int MAX_PROCS \<le> w + 1" using False assms(4) by linarith
  show ?thesis
  proof (cases "find ?P [i..<MAX_PROCS]")
    case None
    have first: "step\<^sup>*\<^sup>* (Sched i w n, k) (Sched 0 w True, k)"
      using None walk_find(2) [OF assms(1) order.refl n assms(2)] assms(2)
      by (intro wraps [of _ _ _ _ n]) (cases "i = MAX_PROCS"; simp)
    have "find ?P (visits i w n) = find ?P [0..<nat (w + 1)]" using v None by (simp add: find_appended)
    then show ?thesis
      using second_pass [OF assms(1) _ assms(3,4), of 0] first by (auto split: option.splits intro: rtranclp_trans)
  next
    case (Some j)
    then have "step\<^sup>*\<^sup>* (Sched i w n, k) (Sched j w n, k) \<and> \<not> (n \<and> w < int j)" "j < MAX_PROCS"
      using walk_find(1) [OF assms(1) order.refl n] by (auto simp: find_range)
    then show ?thesis using Some v by (auto simp: find_appended)
  qed
qed

text \<open>
  C6: from any point of its loop the scheduler passes the processes that cannot
  run and switches to the first of the slots \<open>visits i w n\<close> that is ready or due:
  that one runs with its count of schedules one higher and its saved registers
  in the trap frame, processes that waited for that count become ready, and
  nothing else in the table changes. When none of these slots can run it parks
  the hart, whatever the other slots hold, or, when the last slot was the last
  to run, starts another pass. In a first pass that begins behind the process
  that ran last (or at the start after a wakeup of the hart) the slots are the
  whole table; in a second pass they end at the process that ran last. No
  process may be locked, and waiters for a schedule count must sleep on a process.
\<close>

theorem scheduler_picks_first:
  assumes "length (procs k) = MAX_PROCS" "i \<le> MAX_PROCS" "-1 \<le> w" "w < int MAX_PROCS"
    "\<forall>j < MAX_PROCS. p_lock (proc_of k j) = 0 \<and> wakeable (ChanProc j) (procs k)"
    "pt_lock (k_proc_table k) = 0" "pt_num_procs (k_proc_table k) \<noteq> 0"
  shows "case find (\<lambda>j. p_state (proc_of k j) = READY \<or> p_state (proc_of k j) = SLEEPING \<and> should_wake_up (proc_of k j) k)
      (visits i w n) of
      Some j \<Rightarrow> (\<exists>n'. step\<^sup>*\<^sup>* (Sched i w n, k) (Sched j w n', k) \<and> \<not> (n' \<and> w < int j)) \<and>
        (\<exists>k'. sched_visit j k = Inr (True, k') \<and> procs k' = chosen j (procs k) \<and> k_cpu_proc k' = Some j \<and>
          k_trap_frame k' = p_trap (proc_of k j) \<and> k_mem k' = k_mem k)
    | None \<Rightarrow> if w < int MAX_PROCS - 1 then step\<^sup>*\<^sup>* (Sched i w n, k) (Parked, sleep_scheduler k)
        else step\<^sup>*\<^sup>* (Sched i w n, k) (Sched 0 w True, k)"
proof -
  let ?R = "\<lambda>j. p_state (proc_of k j) = READY \<or> p_state (proc_of k j) = SLEEPING \<and> should_wake_up (proc_of k j) k"
  have "\<forall>j \<in> set (visits i w n). j < MAX_PROCS" using assms(4) by (auto simp: visits_def)
  then have same: "find ?R (visits i w n) = find (\<lambda>l. \<not> passed_by k l) (visits i w n)"
    using assms(5) by (intro find_cong) (auto simp: passed_by_def)
  show ?thesis
  proof (cases "find ?R (visits i w n)")
    case None
    then show ?thesis using walk_visits [OF assms(1-4), of n] same by simp
  next
    case (Some j)
    then have "?R j" by (auto simp: find_Some_iff)
    moreover have j: "j < MAX_PROCS \<and> (\<exists>n'. step\<^sup>*\<^sup>* (Sched i w n, k) (Sched j w n', k) \<and> \<not> (n' \<and> w < int j))"
      using walk_visits [OF assms(1-4), of n, folded same] unfolding Some by auto
    ultimately have "\<exists>k'. sched_visit j k = Inr (True, k') \<and> procs k' = chosen j (procs k) \<and> k_cpu_proc k' = Some j \<and>
        k_trap_frame k' = p_trap (proc_of k j) \<and> k_mem k' = k_mem k"
      using assms(5-7) by (intro visit_switches [OF assms(1)]) auto
    then show ?thesis using Some j by simp
  qed
qed

text \<open>Process 3 is ready, process 1 sleeps until process 3 has run once.\<close>

definition waiting_pair :: kernel where
  "waiting_pair = (bss_kernel (\<lambda>_. 0))\<lparr>k_proc_table := \<lparr>pt_lock = 0,
     pt_procs = [zero_proc, zero_proc\<lparr>p_pid := 7, p_state := SLEEPING, p_chan := ChanProc 3,
         p_cond := \<lparr>pc_type = 1, pc_target_pid = 8, pc_want_nscheds = 1\<rparr>\<rparr>,
       zero_proc, zero_proc\<lparr>p_pid := 8, p_state := READY\<rparr>, zero_proc, zero_proc, zero_proc, zero_proc],
     pt_num_procs = 2, pt_pid_counter = 9\<rparr>\<rparr>"

theorem scheduler_picks_first_witness:
  "(\<exists>k'. sched_visit 3 waiting_pair = Inr (True, k') \<and> p_nscheds (proc_of k' 3) = 1 \<and> p_state (proc_of k' 1) = READY) \<and>
   step\<^sup>*\<^sup>* (Sched 0 2 True, waiting_pair) (Parked, sleep_scheduler waiting_pair)"
proof -
  have j: "p_lock (proc_of waiting_pair j) = 0 \<and> wakeable (ChanProc j) (procs waiting_pair)" if "j < MAX_PROCS" for j
    using that by (auto simp: wakeable_def waiting_pair_def waits_on_def zero_proc_def nth_Cons')
  then have ok: "length (procs waiting_pair) = MAX_PROCS" "pt_lock (k_proc_table waiting_pair) = 0"
    "pt_num_procs (k_proc_table waiting_pair) \<noteq> 0"
    "\<forall>j < MAX_PROCS. p_lock (proc_of waiting_pair j) = 0 \<and> wakeable (ChanProc j) (procs waiting_pair)"
    by (simp_all add: waiting_pair_def)
  have v: "visits 0 2 True = [0, 1, 2]" "visits 3 2 False = [3, 4, 5, 6, 7, 0, 1, 2]" by (simp_all add: visits_def upt_rec)
  have st: "map p_state (procs waiting_pair) = [AVAILABLE, SLEEPING, AVAILABLE, READY, AVAILABLE, AVAILABLE, AVAILABLE, AVAILABLE]"
    "\<not> should_wake_up (proc_of waiting_pair 1) waiting_pair"
    by (simp_all add: waiting_pair_def zero_proc_def should_wake_up_def)
  obtain k' where "sched_visit 3 waiting_pair = Inr (True, k')" "procs k' = chosen 3 (procs waiting_pair)"
    using scheduler_picks_first [of waiting_pair 3 2 False] ok v st by (auto simp: waiting_pair_def)
  moreover have "step\<^sup>*\<^sup>* (Sched 0 2 True, waiting_pair) (Parked, sleep_scheduler waiting_pair)"
    using scheduler_picks_first [of waiting_pair 0 2 True] ok v st by (auto simp: waiting_pair_def zero_proc_def)
  ultimately show ?thesis
    by (simp add: chosen_def Let_def waiting_pair_def wake1_def waits_on_def cond_met_def zero_proc_def)
qed

end
