(* ===== verification/Traps.thy ===== *)
theory Traps
  imports Machine
begin

text \<open>
  System calls end to end: what comes back in the registers and in \<open>errno\<close>, and
  that no call breaks the kernel's tables.
\<close>

section \<open>The way in and out\<close>

lemma load_apart: "apart a 8 b 4 \<Longrightarrow> load32 (store64 m a v) b = load32 m b"
  by (simp add: load32_def store64_def load_bytes_apart)

lemma enter_simps [simp]:
  "procs (syscall_enter i k) = procs k" "k_cpu_proc (syscall_enter i k) = k_cpu_proc k"
  "k_console (syscall_enter i k) = k_console k" "tf_regs (k_trap_frame (syscall_enter i k)) = tf_regs (k_trap_frame k)"
  "tf_pc (k_trap_frame (syscall_enter i k)) = tf_pc (k_trap_frame k) + 4" "k_csr (syscall_enter i k) = k_csr k"
  "k_mem (syscall_enter i k) = store64 (k_mem k) (p_perrno (proc_of k i)) 0"
  by (simp_all add: syscall_enter_def set_errno_def Let_def)

lemma csr_simps [simp]:
  "procs (upd_csr f k) = procs k" "k_cpu_proc (upd_csr f k) = k_cpu_proc k" "k_console (upd_csr f k) = k_console k"
  "k_trap_frame (upd_csr f k) = k_trap_frame k" "k_mem (upd_csr f k) = k_mem k" "tf_reg (upd_csr f k) r = tf_reg k r"
  by (simp_all add: upd_csr_def tf_reg_def)

lemma syscall_eq:
  "k_cpu_proc k = Some i \<Longrightarrow>
   syscall sp k = dispatch i (sint (arg32 k REG_A7)) sp (syscall_enter i (upd_csr disable_interrupts k))"
  by (simp add: syscall_def myproc_def)

lemma exit_simps:
  assumes "syscall_exit i sp k = Inr (e, k')"
  shows "e = ToUser" "k_trap_frame k' = k_trap_frame k" "k_mem k' = k_mem k" "k_console k' = k_console k"
    "procs k' = (procs k)[i := (proc_of k i)\<lparr>p_ctx := (p_ctx (proc_of k i))[REG_SP := sp]\<rparr>]"
    "k_csr k' = set_user_mode (enable_interrupts (k_csr k))"
  using assms by (auto simp: syscall_exit_def patch_proc_sp_def upd_proc_def upd_csr_def split: if_splits)

lemma exit_ok:
  "load32 (k_mem k) (p_magic (proc_of k i)) = PROC_MAGIC_STACK_SENTINEL \<Longrightarrow> \<exists>k'. syscall_exit i sp k = Inr (ToUser, k')"
  by (simp add: syscall_exit_def)

section \<open>The way back to user mode\<close>

text \<open>
  The instruction \<^verbatim>\<open>sret\<close> at the end of \<open>ret_to_user\<close>, after the privileged
  specification: the mode in SPP becomes current, SIE takes the value of SPIE.
\<close>

definition sret :: "csrs \<Rightarrow> csrs" where
  "sret c =
     (let s = c_mstatus c;
          s' = (if bit s MSTATUS_SPIE_BIT then s OR push_bit MSTATUS_SIE_BIT 1
                else s AND NOT (push_bit MSTATUS_SIE_BIT 1)) OR push_bit MSTATUS_SPIE_BIT 1
      in c\<lparr>c_priv := (if bit s 8 then SMode else UMode), c_mstatus := s' AND NOT (push_bit 8 1)\<rparr>)"

text \<open>The supervisor's interrupts: software, timer and external.\<close>

definition SIE_ALL :: regsize where
  "SIE_ALL = push_bit MIE_SSIE_BIT 1 OR push_bit MIE_STIE_BIT 1 OR push_bit MIE_SEIE_BIT 1"

lemma bit_set_status:
  "bit (c_mstatus (set_status_csr v c)) n = (if bit SSTATUS_MASK n then bit v n else bit (c_mstatus c) n)"
  using bit_imp_le_length [of "c_mstatus c" n] by (auto simp: set_status_csr_def bit_simps)

lemma status_bits [simp]: "bit SSTATUS_MASK (Suc 0)" "bit SSTATUS_MASK 5" "bit SSTATUS_MASK 8"
  by code_simp+

lemma other_csrs [simp]:
  "c_mie (set_status_csr v c) = c_mie c" "c_mip (set_status_csr v c) = c_mip c" "c_mideleg (set_status_csr v c) = c_mideleg c"
  by (simp_all add: set_status_csr_def)

lemma user_entry:
  fixes c :: csrs
  defines "c' \<equiv> set_user_mode (enable_interrupts c)"
  shows "c_priv (sret c') = UMode" "bit (c_mstatus (sret c')) MSTATUS_SIE_BIT"
    "get_ie_csr c' AND SIE_ALL = c_mideleg c AND SIE_ALL" "c_mip c' AND (c_mideleg c AND SIP_SSIP) = 0"
proof -
  have mie: "c_mie c' = c_mie c OR (ucast (push_bit MIE_STIE_BIT 1 OR push_bit MIE_SEIE_BIT 1 OR push_bit MIE_SSIE_BIT 1 :: u32) AND c_mideleg c)"
    "c_mideleg c' = c_mideleg c" "c_mip c' = c_mip c AND NOT (SIP_SSIP AND c_mideleg c)"
    by (simp_all add: c'_def set_user_mode_def enable_interrupts_def csr_sip_clear_flags_def set_interrupt_enable_bits_def
      set_ie_csr_def set_status_interrupt_pending_def)
  have st: "bit (c_mstatus c') 5" "\<not> bit (c_mstatus c') 8"
    by (simp_all add: c'_def set_user_mode_def bit_set_status SPP_MASK_def SPP_MODE_U_def)
      (simp_all add: enable_interrupts_def csr_sip_clear_flags_def set_interrupt_enable_bits_def set_ie_csr_def
        set_status_interrupt_pending_def get_status_csr_def bit_set_status bit_simps)
  show "c_priv (sret c') = UMode" "bit (c_mstatus (sret c')) MSTATUS_SIE_BIT"
    using st by (simp_all add: sret_def Let_def bit_simps)
  have all: "(ucast (push_bit MIE_STIE_BIT 1 OR push_bit MIE_SEIE_BIT 1 OR push_bit MIE_SSIE_BIT 1 :: u32) :: regsize) = SIE_ALL"
    by code_simp
  show "get_ie_csr c' AND SIE_ALL = c_mideleg c AND SIE_ALL"
    unfolding get_ie_csr_def mie all by (rule bit_word_eqI) (auto simp: bit_simps)
  show "c_mip c' AND (c_mideleg c AND SIP_SSIP) = 0"
    unfolding mie by (rule bit_word_eqI) (auto simp: bit_simps)
qed

lemma handler_masked: "\<not> bit (c_mstatus (disable_interrupts c)) MSTATUS_SIE_BIT"
  by (simp add: disable_interrupts_def set_ie_csr_def clear_status_interrupt_enable_def bit_set_status bit_simps)

section \<open>The message about an unknown call\<close>

lemma signed_str_len:
  assumes "\<bar>x\<bar> < 10 ^ 10"
  shows "length (signed_str 10 x) \<le> 11"
proof -
  have "nat \<bar>x\<bar> < 10 ^ 10" using assms by (simp add: nat_less_iff)
  then have "length (radix_str 10 (nat \<bar>x\<bar>)) \<le> 10" by (intro radix_str_length) simp_all
  then show ?thesis by (cases "x < 0") (simp_all add: signed_str_def)
qed

lemma signed_str_len32: "length (signed_str 10 (sint (x :: u32))) \<le> 11"
  using sint_greater_eq [of x] sint_less [of x] by (intro signed_str_len) (simp add: abs_less_iff)

lemma kprintf_ref:
  assumes "format_ref (read_cstr str_bound (k_mem k)) fmt args = Some out" "length args = 7" "length out < 4096"
  shows "kprintf fmt args k = Inr (k\<lparr>k_console := rev out @ k_console k\<rparr>)"
  using console_sink.printf_holds [where console = "k_console k" and w = "[]" and s = "k_console k",
    of "read_cstr str_bound (k_mem k)" fmt 0 args out] assms
  by (simp add: kprintf_def kprintfvec_def PRINTF_IMPL_def)

definition bad_msg :: "u32 \<Rightarrow> int \<Rightarrow> string" where
  "bad_msg pid nr = ''BAD pid:syscall '' @ signed_str 10 (sint pid) @ '':'' @ signed_str 10 nr @ [NL]"

lemma sint32: "- (2 ^ 31) \<le> sint (x :: u32)" "sint (x :: u32) < 2 ^ 31"
  using sint_greater_eq [of x] sint_less [of x] by simp_all

lemma sint_wide: "sint (scast (x :: u32) :: regsize) = sint x"
  by (simp add: sint_up_scast is_up)

lemma bad_printed:
  fixes pid nr :: u32
  shows "kprintf (''BAD pid:syscall %d:%d'' @ [NL]) (vec7 [scast pid, scast nr]) k = Inr (k\<lparr>k_console := rev (bad_msg pid (sint nr)) @ k_console k\<rparr>)"
proof -
  let ?args = "vec7 [scast pid, scast nr]"
  have w: "sint (scast pid :: regsize) \<noteq> - (2 ^ 63)" "sint (scast nr :: regsize) \<noteq> - (2 ^ 63)"
    using sint32 [of pid] sint32 [of nr] by (simp_all add: sint_wide)
  have f: "format_ref rd (''BAD pid:syscall %d:%d'' @ [NL]) ?args = Some (bad_msg pid (sint nr))" for rd
    using w by (simp add: vec7_def verb_ref_def sint_wide bad_msg_def NL_def)
  have "length (bad_msg pid (sint nr)) < 4096"
    using signed_str_len32 [of pid] signed_str_len32 [of nr] by (simp add: bad_msg_def)
  moreover have "length ?args = 7" by (simp add: vec7_def)
  ultimately show ?thesis by (rule kprintf_ref [OF f, rotated])
qed

section \<open>Properties\<close>

text \<open>
  C4: no system call breaks the kernel's tables. Called from a state in which every
  table has its size and every stored pointer points to an entry, with one
  process running, it ends in such a state again, whatever its number and
  arguments; the process still runs unless the call has put it aside, and then
  none does.
\<close>

theorem syscall_keeps_tables:
  assumes "kwf k" "k_cpu_proc k = Some i" "i < MAX_PROCS" "running k = only i" "syscall sp k = Inr (e, k')"
  shows "kwf k' \<and> k_cpu_proc k' = Some i \<and> running k' = (if e = ToScheduler then idle else only i)"
proof -
  have "kinv (Some i) (only i) k" using assms by (simp add: kinv_def lt_opt_def)
  from postD [OF syscall_ends [OF this] assms(5)] show ?thesis by (simp add: kinv_def)
qed

text \<open>
  C7: a system call whose handler returns a value gives exactly that value,
  extended to the width of the register, in a0, and continues behind the \<open>ecall\<close>
  unless the handler has chosen another place, provided the sentinel of the
  kernel stack is intact. The handler runs with supervisor interrupts disabled;
  after the call the hart's \<open>sret\<close> goes to user mode with them enabled again, all
  delegated ones of the three are enabled individually, no delegated software
  interrupt is left pending, and the process's entry differs only in the
  kernel stack pointer.
\<close>

theorem syscall_returns:
  assumes "k_cpu_proc k = Some i" "i < length (procs k)" "0 \<le> sint (arg32 k REG_A7)" "sint (arg32 k REG_A7) \<le> SYSCALL_VECTOR_LEN"
    "syscall_vector (sint (arg32 k REG_A7)) = Some f" "ke = syscall_enter i (upd_csr disable_interrupts k)"
    "p_stack_page (proc_of k i) \<le> va2pa_k i (tf_reg k REG_SP) ke" "f ke = Inr (Some v, k1)"
    "load32 (k_mem k1) (p_magic (proc_of k1 i)) = PROC_MAGIC_STACK_SENTINEL"
  shows "\<exists>k'. syscall sp k = Inr (ToUser, k') \<and> k_trap_frame k' = set_reg REG_A0 (of_int v) (k_trap_frame k1) \<and>
    k_mem k' = k_mem k1 \<and> procs k' = (procs k1)[i := (proc_of k1 i)\<lparr>p_ctx := (p_ctx (proc_of k1 i))[REG_SP := sp]\<rparr>] \<and>
    tf_pc (k_trap_frame ke) = tf_pc (k_trap_frame k) + 4 \<and> errno_of i ke = 0 \<and>
    \<not> bit (c_mstatus (k_csr ke)) MSTATUS_SIE_BIT \<and>
    c_priv (sret (k_csr k')) = UMode \<and> bit (c_mstatus (sret (k_csr k'))) MSTATUS_SIE_BIT \<and>
    get_ie_csr (k_csr k') AND SIE_ALL = c_mideleg (k_csr k1) AND SIE_ALL \<and>
    c_mip (k_csr k') AND (c_mideleg (k_csr k1) AND SIP_SSIP) = 0"
proof -
  have sp: "\<not> va2pa_k i (tf_reg ke REG_SP) ke < p_stack_page (proc_of ke i)"
    using assms(7) by (simp add: assms(6) tf_reg_def not_less)
  have d: "dispatch i (sint (arg32 k REG_A7)) sp ke = finish i sp (Some v, k1)"
    unfolding dispatch_def Let_def if_not_P [OF sp] using assms(3-5,8) by simp
  obtain k' where k': "syscall_exit i sp (set_a0 v k1) = Inr (ToUser, k')"
    using exit_ok [of "set_a0 v k1" i sp] assms(9) by (auto simp: set_a0_def set_tf_reg_def)
  then show ?thesis
    using d exit_simps [OF k'] assms(6) syscall_eq [OF assms(1), of sp] user_entry [of "k_csr k1"] handler_masked [of "k_csr k"]
    by (simp add: finish_def set_a0_def set_tf_reg_def errno_of_def set_reg_def upd_csr_def)
qed

text \<open>
  A call with a number that has no handler, negative or too large numbers
  included, changes nothing but the console, where it is reported: the process
  gets -1 in a0 and \<open>ENOSYS\<close> in \<open>errno\<close> and continues behind the \<open>ecall\<close>.
\<close>

theorem unknown_syscall:
  assumes "k_cpu_proc k = Some i" "i < length (procs k)" "nr = arg32 k REG_A7"
    "sint nr < 0 \<or> SYSCALL_VECTOR_LEN < sint nr \<or> syscall_vector (sint nr) = None"
    "p_stack_page (proc_of k i) \<le> va2pa_k i (tf_reg k REG_SP) (syscall_enter i (upd_csr disable_interrupts k))"
    "load32 (k_mem k) (p_magic (proc_of k i)) = PROC_MAGIC_STACK_SENTINEL"
    "apart (p_perrno (proc_of k i)) 8 (p_magic (proc_of k i)) 4" "length (tf_regs (k_trap_frame k)) = 31"
  shows "\<exists>k'. syscall sp k = Inr (ToUser, k') \<and> tf_reg k' REG_A0 = -1 \<and> errno_of i k' = of_int ENOSYS \<and>
    (\<forall>r. r \<noteq> REG_A0 \<longrightarrow> tf_reg k' r = tf_reg k r) \<and> tf_pc (k_trap_frame k') = tf_pc (k_trap_frame k) + 4 \<and>
    k_console k' = rev (bad_msg (p_pid (proc_of k i)) (sint nr)) @ k_console k \<and>
    procs k' = (procs k)[i := (proc_of k i)\<lparr>p_ctx := (p_ctx (proc_of k i))[REG_SP := sp]\<rparr>]"
proof -
  let ?ke = "syscall_enter i (upd_csr disable_interrupts k)"
  define k1 where "k1 = ?ke\<lparr>k_console := rev (bad_msg (p_pid (proc_of k i)) (sint nr)) @ k_console ?ke\<rparr>"
  define k2 where "k2 = set_errno i ENOSYS (set_a0 (-1) k1)"
  have v: "(if 0 \<le> sint nr \<and> sint nr \<le> SYSCALL_VECTOR_LEN then syscall_vector (sint nr) else None) = None"
    using assms(4) by auto
  have sp: "\<not> va2pa_k i (tf_reg ?ke REG_SP) ?ke < p_stack_page (proc_of ?ke i)"
    using assms(5) by (simp add: tf_reg_def not_less)
  have d: "dispatch i (sint nr) sp ?ke = syscall_exit i sp k2"
    unfolding dispatch_def Let_def v if_not_P [OF sp]
    using bad_printed [of "p_pid (proc_of k i)" nr ?ke] by (simp add: k1_def k2_def del: append.simps)
  have mem: "k_mem k2 = store64 (store64 (k_mem k) (p_perrno (proc_of k i)) 0) (p_perrno (proc_of k i)) (of_int ENOSYS)"
    by (simp add: k2_def k1_def set_errno_def set_a0_def set_tf_reg_def)
  then obtain k' where k': "syscall_exit i sp k2 = Inr (ToUser, k')"
    using exit_ok [of k2 i sp] assms(6,7) by (auto simp: load_apart k2_def k1_def set_errno_def set_a0_def set_tf_reg_def)
  have frame: "k_trap_frame k2 = (k_trap_frame k)\<lparr>tf_regs := (tf_regs (k_trap_frame k))[REG_A0 := -1], tf_pc := tf_pc (k_trap_frame k) + 4\<rparr>"
    by (simp add: k2_def k1_def set_errno_def set_a0_def set_tf_reg_def set_reg_def)
  have other: "procs k2 = procs k" "k_console k2 = rev (bad_msg (p_pid (proc_of k i)) (sint nr)) @ k_console k"
    by (simp_all add: k2_def k1_def set_errno_def set_a0_def set_tf_reg_def)
  have "errno_of i k' = of_int ENOSYS"
    using exit_simps [OF k'] assms(2) other by (simp add: errno_of_def mem)
  then show ?thesis
    using d k' exit_simps [OF k'] syscall_eq [OF assms(1), of sp] assms(3,8)
    by (auto simp: frame other tf_reg_def)
qed

section \<open>Two calls\<close>

text \<open>
  A process in user mode about to make the call with the given number; its kernel
  stack sentinel is at address 0.
\<close>

definition caller :: "regsize \<Rightarrow> kernel" where
  "caller nr = (bss_kernel (store32 (\<lambda>_. 0) 0 PROC_MAGIC_STACK_SENTINEL))\<lparr>k_proc_table := \<lparr>pt_lock = 0,
     pt_procs = (replicate MAX_PROCS zero_proc)[1 := zero_proc\<lparr>p_state := RUNNING, p_pid := 5, p_perrno := 64\<rparr>],
     pt_num_procs = 1, pt_pid_counter = 6\<rparr>, k_cpu_proc := Some 1,
     k_trap_frame := \<lparr>tf_regs = (replicate 31 0)[REG_A7 := nr], tf_pc = 4096\<rparr>\<rparr>"

lemma caller_simps [simp]:
  "k_cpu_proc (caller nr) = Some 1" "length (procs (caller nr)) = 8" "tf_reg (caller nr) 16 = nr"
  "proc_of (caller nr) (Suc 0) = zero_proc\<lparr>p_state := RUNNING, p_pid := 5, p_perrno := 64\<rparr>"
  "k_mem (caller nr) = store32 (\<lambda>_. 0) 0 PROC_MAGIC_STACK_SENTINEL" "tf_pc (k_trap_frame (caller nr)) = 4096"
  "length (tf_regs (k_trap_frame (caller nr))) = 31" "k_console (caller nr) = []"
  by (simp_all add: caller_def tf_reg_def bss_kernel_def eval_nat_numeral)

lemma apart64: "apart 64 8 0 4"
  by (simp add: apart_def)

theorem unknown_syscall_witness:
  "\<exists>k'. syscall 0 (caller 99) = Inr (ToUser, k') \<and> tf_reg k' REG_A0 = -1 \<and> errno_of 1 k' = of_int ENOSYS"
  using unknown_syscall [of "caller 99" 1 99 0] apart64
  by (auto simp: zero_proc_def)

lemma caller_wf: "kwf (caller nr)"
proof -
  have "proc_ok zero_proc" by (simp add: proc_ok_def zero_proc_def zero_trap_def lt_opt_def kont_ok_def chan_ok_def)
  then have "list_all proc_ok (procs (caller nr))"
    by (simp add: caller_def proc_ok_def eval_nat_numeral)
  then show ?thesis
    using bss_kwf [of "store32 (\<lambda>_. 0) 0 PROC_MAGIC_STACK_SENTINEL"] by (simp add: kwf_def caller_def)
qed

lemma pid_call: "\<exists>k'. syscall 0 (caller 20) = Inr (ToUser, k')"
proof -
  let ?ke = "syscall_enter 1 (upd_csr disable_interrupts (caller 20))"
  have "sys_getpid ?ke = Inr (Some 5, ?ke)"
    by (simp add: sys_getpid_def now_def proc_getpid_def myproc_def)
  moreover have "syscall_vector 20 = Some sys_getpid" by (simp add: syscall_vector_def)
  ultimately have "syscall 0 (caller 20) = syscall_exit 1 0 (set_a0 5 ?ke)"
    using syscall_eq [of "caller 20" 1 0] by (simp add: dispatch_def zero_proc_def finish_def)
  then show ?thesis using exit_ok [of "set_a0 5 ?ke" 1 0] apart64
    by (simp add: load_apart set_a0_def set_tf_reg_def zero_proc_def)
qed

theorem syscall_returns_witness:
  "\<exists>k'. syscall 0 (caller 20) = Inr (ToUser, k') \<and> tf_reg k' REG_A0 = 5 \<and> tf_pc (k_trap_frame k') = 4100 \<and>
     c_priv (sret (k_csr k')) = UMode"
proof -
  let ?ke = "syscall_enter 1 (upd_csr disable_interrupts (caller 20))"
  have "sys_getpid ?ke = Inr (Some 5, ?ke)"
    by (simp add: sys_getpid_def now_def proc_getpid_def myproc_def)
  moreover have "load32 (k_mem ?ke) 0 = PROC_MAGIC_STACK_SENTINEL" using apart64 by (simp add: load_apart)
  moreover have "syscall_vector 20 = Some sys_getpid" by (simp add: syscall_vector_def)
  ultimately obtain k' where "syscall 0 (caller 20) = Inr (ToUser, k')"
    "k_trap_frame k' = set_reg REG_A0 (of_int 5) (k_trap_frame ?ke)" "c_priv (sret (k_csr k')) = UMode"
    using syscall_returns [of "caller 20" 1 sys_getpid ?ke 5 ?ke 0] by (auto simp: zero_proc_def)
  then show ?thesis by (auto simp: tf_reg_def set_reg_def)
qed

theorem syscall_keeps_tables_witness:
  "\<exists>k'. syscall 0 (caller 20) = Inr (ToUser, k') \<and> kwf k' \<and> running k' = only 1"
proof -
  obtain k' where k': "syscall 0 (caller 20) = Inr (ToUser, k')" using pid_call by blast
  have "running (caller 20) = only 1"
    by (simp add: running_def caller_def only_def zero_proc_def eval_nat_numeral)
  then show ?thesis using syscall_keeps_tables [OF caller_wf _ _ _ k', of 1] k' by simp
qed

end
