(* ===== verification/Lifecycle.thy ===== *)
theory Lifecycle
  imports Sched Traps
begin

text \<open>
  The life of a process between \<open>fork\<close> and \<open>wait\<close>: which descriptors it gets and
  shares, who is reaped, and three places where the kernel loses track of it.
\<close>

section \<open>Descriptors\<close>

lemma copy_loop_files:
  assumes "dst \<noteq> src" "dst < length (procs k)" "src < length (procs k)" "distinct fds"
    "\<forall>fd \<in> set fds. fd < length (p_files (proc_of k dst))"
  shows "procs (copy_files_loop fds dst src k) = (procs k)[dst := (proc_of k dst)
      \<lparr>p_files := map (\<lambda>fd. if fd \<in> set fds then p_files (proc_of k src) ! fd else p_files (proc_of k dst) ! fd)
         [0..<length (p_files (proc_of k dst))]\<rparr>]"
  using assms
proof (induction fds arbitrary: k)
  case Nil
  then show ?case by (simp add: map_nth)
next
  case (Cons fd fds)
  define pf where "pf = p_files (proc_of k src) ! fd"
  define k1 where "k1 = upd_proc dst (\<lambda>p. p\<lparr>p_files := (p_files p)[fd := pf]\<rparr>)
    (case pf of Some f \<Rightarrow> upd_file f (\<lambda>x. x\<lparr>f_refcount := f_refcount x + 1\<rparr>) k | None \<Rightarrow> k)"
  have pfile: "procs (upd_file f g k) = procs k" for f g by (cases f) (simp_all add: upd_file_def)
  have p1: "procs k1 = (procs k)[dst := (proc_of k dst)\<lparr>p_files := (p_files (proc_of k dst))[fd := pf]\<rparr>]"
    by (simp add: k1_def pfile split: option.split)
  have "procs (copy_files_loop fds dst src k1) = (procs k1)[dst := (proc_of k1 dst)
      \<lparr>p_files := map (\<lambda>fd. if fd \<in> set fds then p_files (proc_of k1 src) ! fd else p_files (proc_of k1 dst) ! fd)
         [0..<length (p_files (proc_of k1 dst))]\<rparr>]"
    using Cons.prems by (intro Cons.IH) (simp_all add: p1)
  moreover have "copy_files_loop (fd # fds) dst src k = copy_files_loop fds dst src k1"
    by (simp add: k1_def pf_def Let_def)
  ultimately show ?case
    using Cons.prems by (auto simp: p1 pf_def nth_list_update intro!: arg_cong2 [where f = "list_update (procs k)"])
qed

lemma copy_files_procs:
  assumes "dst \<noteq> src" "dst < length (procs k)" "src < length (procs k)"
    "length (p_files (proc_of k dst)) = MAX_PROC_FDS" "length (p_files (proc_of k src)) = MAX_PROC_FDS"
  shows "procs (copy_files dst src k) = (procs k)[dst := (proc_of k dst)\<lparr>p_files := p_files (proc_of k src)\<rparr>]"
proof -
  have "map (\<lambda>fd. if fd \<in> set [0..<MAX_PROC_FDS] then p_files (proc_of k src) ! fd else p_files (proc_of k dst) ! fd)
      [0..<length (p_files (proc_of k dst))] = p_files (proc_of k src)"
    using assms(4,5) by (intro nth_equalityI) simp_all
  then show ?thesis
    using copy_loop_files [OF assms(1-3), of "[0..<MAX_PROC_FDS]"] assms(4) by (simp add: copy_files_def del: upt_Suc)
qed

text \<open>How many descriptors of a list refer to a file.\<close>

definition uses :: "file_ref \<Rightarrow> file_ref option list \<Rightarrow> nat" where
  "uses f fs = length (filter (\<lambda>x. x = Some f) fs)"

lemma upd_file_get:
  assumes "fref_ok f" "fref_ok g" "length (ft_files (k_ftable k)) = MAX_FILES"
  shows "file_of (upd_file f h k) g = (if g = f then h (file_of k g) else file_of k g)"
  using assms by (cases f; cases g) (auto simp: file_of_def upd_file_def fref_ok_def nth_list_update)

lemma upd_file_len: "length (ft_files (k_ftable (upd_file f h k))) = length (ft_files (k_ftable k))"
  by (cases f) (simp_all add: upd_file_def)

lemma file_of_upd_proc [simp]: "file_of (upd_proc i h k) f = file_of k f" "k_ftable (upd_proc i h k) = k_ftable k"
  by (cases f; simp add: file_of_def upd_proc_def) (simp add: upd_proc_def)

lemma copy_loop_refs:
  assumes "dst \<noteq> src" "length (ft_files (k_ftable k)) = MAX_FILES" "fref_ok g"
    "\<forall>fd \<in> set fds. \<forall>f. p_files (proc_of k src) ! fd = Some f \<longrightarrow> fref_ok f"
  shows "file_of (copy_files_loop fds dst src k) g = (file_of k g)\<lparr>f_refcount := f_refcount (file_of k g) +
      of_nat (uses g (map (\<lambda>fd. p_files (proc_of k src) ! fd) fds))\<rparr>"
  using assms
proof (induction fds arbitrary: k)
  case Nil
  then show ?case by (simp add: uses_def)
next
  case (Cons fd fds)
  define pf where "pf = p_files (proc_of k src) ! fd"
  define k1 where "k1 = upd_proc dst (\<lambda>p. p\<lparr>p_files := (p_files p)[fd := pf]\<rparr>)
    (case pf of Some f \<Rightarrow> upd_file f (\<lambda>x. x\<lparr>f_refcount := f_refcount x + 1\<rparr>) k | None \<Rightarrow> k)"
  have pfile: "procs (upd_file f h k) = procs k" for f h by (cases f) (simp_all add: upd_file_def)
  have src: "proc_of k1 src = proc_of k src" using Cons.prems(1) by (simp add: k1_def pfile split: option.split)
  have len: "length (ft_files (k_ftable k1)) = MAX_FILES" using Cons.prems(2) by (simp add: k1_def upd_file_len split: option.split)
  have g: "file_of k1 g = (file_of k g)\<lparr>f_refcount := f_refcount (file_of k g) + (if pf = Some g then 1 else 0)\<rparr>"
    using Cons.prems upd_file_get [of _ g k] by (auto simp: k1_def pf_def split: option.split)
  have "copy_files_loop (fd # fds) dst src k = copy_files_loop fds dst src k1"
    by (simp add: k1_def pf_def Let_def)
  then show ?case
    using Cons.IH [of k1] Cons.prems len by (simp add: src g uses_def pf_def)
qed

section \<open>Reaping\<close>

lemma reap_skip:
  assumes "length (procs k) = MAX_PROCS" "j < MAX_PROCS" "p_lock (proc_of k j) = 0 \<or> p_parent (proc_of k j) \<noteq> Some i"
    "p_parent (proc_of k j) = Some i \<longrightarrow> p_state (proc_of k j) \<noteq> ZOMBIE"
  shows "exited_loop (j # js) i k = exited_loop js i k"
proof (cases "p_parent (proc_of k j) = Some i")
  case True
  let ?k = "upd_proc j (\<lambda>p. p\<lparr>p_lock := 1\<rparr>) k"
  have "acquire_proc j k = Inr ?k" using assms True by (simp add: acquire_proc_def)
  moreover have "release_proc j ?k = k"
    using assms True unfolding release_proc_def by (subst upd_proc_upd_proc) (auto intro!: upd_proc_id)
  ultimately show ?thesis using assms True by simp
next
  case False
  then show ?thesis by simp
qed

lemma reap_skips:
  assumes "length (procs k) = MAX_PROCS"
    "\<forall>j \<in> set js. j < MAX_PROCS \<and> (p_parent (proc_of k j) = Some i \<longrightarrow> p_lock (proc_of k j) = 0 \<and> p_state (proc_of k j) \<noteq> ZOMBIE)"
  shows "exited_loop (js @ js') i k = exited_loop js' i k"
  using assms(2)
proof (induction js)
  case (Cons j js)
  then show ?case using reap_skip [OF assms(1), of j i "js @ js'"] by auto
qed simp

lemma unlock_id: "p_lock p = 0 \<Longrightarrow> p\<lparr>p_state := s, p_lock := 0\<rparr> = p\<lparr>p_state := s\<rparr>"
  by (cases p) simp

lemma reap_hit:
  assumes "length (procs k) = MAX_PROCS" "j < MAX_PROCS" "p_parent (proc_of k j) = Some i" "p_lock (proc_of k j) = 0"
    "p_state (proc_of k j) = ZOMBIE" "release_page (p_kstack_page (proc_of k j)) (k_pm k) = Inr pm"
  shows "exited_loop (j # js) i k = Inr (sint (p_pid (proc_of k j)), upd_proc j (\<lambda>p. p\<lparr>p_state := AVAILABLE\<rparr>) (k\<lparr>k_pm := pm\<rparr>))"
  using assms by (simp add: acquire_proc_def release_page_k_def upd_proc_def release_proc_def unlock_id)

section \<open>Properties\<close>

text \<open>
  \<open>fork\<close> gives the child exactly the descriptors of its parent, and every file
  counts one more reference for each of them; nothing else in the process table
  or in the files changes.
\<close>

theorem fork_shares_files:
  assumes "dst \<noteq> src" "dst < length (procs k)" "src < length (procs k)"
    "length (p_files (proc_of k dst)) = MAX_PROC_FDS" "length (p_files (proc_of k src)) = MAX_PROC_FDS"
    "length (ft_files (k_ftable k)) = MAX_FILES" "\<forall>f. Some f \<in> set (p_files (proc_of k src)) \<longrightarrow> fref_ok f" "fref_ok g"
  shows "procs (copy_files dst src k) = (procs k)[dst := (proc_of k dst)\<lparr>p_files := p_files (proc_of k src)\<rparr>] \<and>
    file_of (copy_files dst src k) g =
      (file_of k g)\<lparr>f_refcount := f_refcount (file_of k g) + of_nat (uses g (p_files (proc_of k src)))\<rparr>"
proof
  show "procs (copy_files dst src k) = (procs k)[dst := (proc_of k dst)\<lparr>p_files := p_files (proc_of k src)\<rparr>]"
    using copy_files_procs [OF assms(1-5)] .
  have "map (\<lambda>fd. p_files (proc_of k src) ! fd) [0..<MAX_PROC_FDS] = p_files (proc_of k src)"
    using assms(5) map_nth by metis
  moreover have "\<forall>fd \<in> set [0..<MAX_PROC_FDS]. \<forall>f. p_files (proc_of k src) ! fd = Some f \<longrightarrow> fref_ok f"
    using assms(5,7) by (metis atLeastLessThan_iff nth_mem set_upt)
  ultimately show "file_of (copy_files dst src k) g =
      (file_of k g)\<lparr>f_refcount := f_refcount (file_of k g) + of_nat (uses g (p_files (proc_of k src)))\<rparr>"
    using copy_loop_refs [OF assms(1,6,8), of "[0..<MAX_PROC_FDS]"] unfolding copy_files_def by metis
qed

text \<open>Process 0 has a pipe at descriptors 3 and 4.\<close>

definition pipe_holder :: kernel where
  "pipe_holder = upd_proc 0 (\<lambda>p. p\<lparr>p_files := (p_files p)[3 := Some (FTable 5), 4 := Some (FTable 5)]\<rparr>) (bss_kernel (\<lambda>_. 0))"

theorem fork_shares_files_witness:
  "p_files (proc_of (copy_files 2 0 pipe_holder) 2) ! 3 = Some (FTable 5) \<and>
   f_refcount (file_of (copy_files 2 0 pipe_holder) (FTable 5)) = 2"
proof -
  have len: "length (procs pipe_holder) = 8" "length (ft_files (k_ftable pipe_holder)) = 32"
    by (simp_all add: pipe_holder_def upd_proc_def bss_kernel_def)
  have p: "p_files (proc_of pipe_holder 0) = [None, None, None, Some (FTable 5), Some (FTable 5), None, None, None]"
    "p_files (proc_of pipe_holder 2) = replicate 8 None"
    by (simp_all add: pipe_holder_def upd_proc_def bss_kernel_def zero_proc_def eval_nat_numeral)
  have f: "file_of pipe_holder (FTable 5) = zero_file"
    by (simp add: pipe_holder_def upd_proc_def bss_kernel_def file_of_def)
  show ?thesis
    using fork_shares_files [of 2 0 pipe_holder "FTable 5"] len p
    by (simp add: f fref_ok_def uses_def zero_file_def)
qed

text \<open>
  C14: \<open>wait\<close> reaps exactly one child: the first zombie in the table. Its pid is the
  result, its kernel stack page goes back to the allocator, its slot becomes
  available, and no other process changes. Without a zombie the result is -1
  and nothing changes at all.
\<close>

theorem wait_reaps_first_zombie:
  assumes "length (procs k) = MAX_PROCS" "\<forall>j < MAX_PROCS. p_parent (proc_of k j) = Some i \<longrightarrow> p_lock (proc_of k j) = 0" "pm_wf (k_pm k)"
  shows "case find_index (\<lambda>p. p_parent p = Some i \<and> p_state p = ZOMBIE) (procs k) of
      None \<Rightarrow> check_exited_children i k = Inr (-1, k)
    | Some j \<Rightarrow> \<exists>pm. release_page (p_kstack_page (proc_of k j)) (k_pm k) = Inr pm \<and>
        check_exited_children i k =
          Inr (sint (p_pid (proc_of k j)), upd_proc j (\<lambda>p. p\<lparr>p_state := AVAILABLE\<rparr>) (k\<lparr>k_pm := pm\<rparr>))"
proof (cases "find_index (\<lambda>p. p_parent p = Some i \<and> p_state p = ZOMBIE) (procs k)")
  case None
  then have "\<forall>j \<in> set [0..<MAX_PROCS]. j < MAX_PROCS \<and>
      (p_parent (proc_of k j) = Some i \<longrightarrow> p_lock (proc_of k j) = 0 \<and> p_state (proc_of k j) \<noteq> ZOMBIE)"
    using assms(1,2) by (auto simp: find_index_None)
  from reap_skips [OF assms(1) this, of "[]"] show ?thesis
    using None by (simp add: check_exited_children_def del: upt_Suc)
next
  case (Some j)
  then have j: "j < MAX_PROCS" "p_parent (proc_of k j) = Some i" "p_state (proc_of k j) = ZOMBIE"
    "\<forall>l < j. \<not> (p_parent (proc_of k l) = Some i \<and> p_state (proc_of k l) = ZOMBIE)"
    using assms(1) by (auto simp: find_index_Some)
  have rng: "[0..<MAX_PROCS] = [0..<j] @ (j # [Suc j..<MAX_PROCS])"
    using j(1) by (metis less_imp_add_positive upt_add_eq_append upt_conv_Cons zero_le less_imp_le_nat le_add_diff_inverse)
  obtain pm where pm: "release_page (p_kstack_page (proc_of k j)) (k_pm k) = Inr pm"
    using release_page_cases [OF assms(3)] by metis
  have "\<forall>l \<in> set [0..<j]. l < MAX_PROCS \<and>
      (p_parent (proc_of k l) = Some i \<longrightarrow> p_lock (proc_of k l) = 0 \<and> p_state (proc_of k l) \<noteq> ZOMBIE)"
    using j assms(2) by auto
  from reap_skips [OF assms(1) this] have "check_exited_children i k = exited_loop (j # [Suc j..<MAX_PROCS]) i k"
    by (simp add: check_exited_children_def rng del: upt_Suc MAX_PROCS_def)
  then show ?thesis
    using reap_hit [OF assms(1) j(1,2) _ j(3) pm] assms(2) j(1,2) pm Some by simp
qed

text \<open>Process 0 has the children 2 and 4, both gone.\<close>

definition bereaved :: kernel where
  "bereaved = (let z = (\<lambda>pid. zero_proc\<lparr>p_pid := pid, p_parent := Some 0, p_state := ZOMBIE\<rparr>) in
     (bss_kernel (\<lambda>_. 0))\<lparr>k_proc_table := \<lparr>pt_lock = 0,
       pt_procs = [zero_proc, zero_proc, z 7, zero_proc, z 9, zero_proc, zero_proc, zero_proc],
       pt_num_procs = 1, pt_pid_counter = 10\<rparr>\<rparr>)"

theorem wait_reaps_first_zombie_witness:
  "\<exists>k. check_exited_children 0 bereaved = Inr (7, k) \<and> p_state (proc_of k 2) = AVAILABLE \<and> p_state (proc_of k 4) = ZOMBIE"
proof -
  have ps: "procs bereaved = (let z = (\<lambda>pid. zero_proc\<lparr>p_pid := pid, p_parent := Some 0, p_state := ZOMBIE\<rparr>) in
      [zero_proc, zero_proc, z 7, zero_proc, z 9, zero_proc, zero_proc, zero_proc])"
    by (simp add: bereaved_def Let_def)
  have lock: "\<forall>j < 8. p_lock (proc_of bereaved j) = 0"
    by (simp add: ps Let_def nth_Cons' zero_proc_def)
  have "pm_wf (k_pm bereaved)" by (simp add: bereaved_def Let_def bss_kernel_def pm_wf_def pages_in_use_def)
  then show ?thesis
    using wait_reaps_first_zombie [of bereaved 0] lock
    by (auto simp: ps Let_def zero_proc_def numeral_2_eq_2 eval_nat_numeral)
qed

text \<open>
  A descriptor is given out at the lowest free index, and -1 only when all are
  taken; until it is freed again it stands for the file it was opened for, and
  freeing it restores the table.
\<close>

theorem fd_alloc_lowest:
  assumes "i < length (procs k)" "fd_alloc i f k = (fd, k')"
  shows "if None \<in> set (p_files (proc_of k i)) then 0 \<le> fd \<and> nat fd < length (p_files (proc_of k i)) \<and>
      p_files (proc_of k i) ! nat fd = None \<and> (\<forall>j < nat fd. p_files (proc_of k i) ! j \<noteq> None) \<and>
      get_fd i (nat fd) k' = Inr (Some f) \<and> fd_free i (nat fd) k' = k
    else fd = -1 \<and> k' = k"
proof (cases "find_index (\<lambda>x. x = None) (p_files (proc_of k i))")
  case None
  then have "None \<notin> set (p_files (proc_of k i))" by (auto simp: find_index_None)
  then show ?thesis using assms(2) None by (simp add: fd_alloc_def)
next
  case (Some n)
  note n = find_index_SomeD [OF Some]
  have fd: "fd = int n" "k' = upd_proc i (\<lambda>p. p\<lparr>p_files := (p_files p)[n := Some f]\<rparr>) k"
    using assms(2) Some by (simp_all add: fd_alloc_def)
  have "(proc_of k i)\<lparr>p_files := (p_files (proc_of k i))[n := None]\<rparr> = proc_of k i"
    using n(2) list_update_id [of "p_files (proc_of k i)" n] by simp
  then have "fd_free i n k' = k"
    using assms(1) by (simp add: fd fd_free_def upd_proc_def)
  moreover have "None \<in> set (p_files (proc_of k i))" using n(1,2) nth_mem by metis
  ultimately show ?thesis
    using n assms(1) by (auto simp: fd get_fd_def)
qed

theorem fd_alloc_lowest_witness: "fst (fd_alloc 0 Stdin pipe_holder) = 0 \<and> get_fd 0 0 (snd (fd_alloc 0 Stdin pipe_holder)) = Inr (Some Stdin)"
proof -
  have p: "length (procs pipe_holder) = 8" "p_files (proc_of pipe_holder 0) = [None, None, None, Some (FTable 5), Some (FTable 5), None, None, None]"
    by (simp_all add: pipe_holder_def upd_proc_def bss_kernel_def zero_proc_def eval_nat_numeral)
  have e: "fd_alloc 0 Stdin pipe_holder = (fst (fd_alloc 0 Stdin pipe_holder), snd (fd_alloc 0 Stdin pipe_holder))" by simp
  from fd_alloc_lowest [OF _ e] p show ?thesis by (auto simp: fd_alloc_def)
qed

section \<open>Where the kernel loses track\<close>

lemma tick_sched:
  "k_cpu_proc k = Some i \<Longrightarrow> kernel_timer_tick k = upd_proc i (\<lambda>p. p\<lparr>p_state := READY, p_kont := KSched\<rparr>) (upd_csr disable_interrupts k)"
  by (simp add: kernel_timer_tick_def sched_def)

text \<open>
  C27: the registers of a process that a timer tick interrupts are not saved. When
  the scheduler comes back to it, the trap frame is what \<open>trap\<close> of the process
  held before the tick, not what was interrupted, and the way back to user mode
  does not change it.
\<close>

theorem tick_loses_registers:
  assumes "length (procs k) = MAX_PROCS" "i < MAX_PROCS" "k_cpu_proc k = Some i" "pt_lock (k_proc_table k) = 0"
    "pt_num_procs (k_proc_table k) \<noteq> 0" "\<forall>j < MAX_PROCS. p_state (proc_of k j) = SLEEPING \<longrightarrow> p_chan (proc_of k j) \<noteq> ChanProc i"
  shows "\<exists>k1 k2. sched_visit i (sched_back i (kernel_timer_tick k)) = Inr (True, k1) \<and>
    resume i sp k1 = Inr (ToUser, k2) \<and> k_trap_frame k2 = p_trap (proc_of k i)"
proof -
  define p where "p = (proc_of k i)\<lparr>p_state := READY, p_kont := KSched, p_lock := 0\<rparr>"
  define k0 where "k0 = sched_back i (kernel_timer_tick k)"
  have ps: "procs k0 = (procs k)[i := p]"
    using assms(1,2) by (simp add: k0_def p_def sched_back_def release_proc_def tick_sched [OF assms(3)])
  have pt: "pt_lock (k_proc_table k0) = 0" "pt_num_procs (k_proc_table k0) \<noteq> 0"
    using assms(4,5) by (simp_all add: k0_def sched_back_def release_proc_def tick_sched [OF assms(3)] upd_proc_def upd_csr_def)
  have "wakeable (ChanProc i) (procs k0)"
    using assms(1,2,6) unfolding ps wakeable_def waits_on_def
    by (auto simp: in_set_conv_nth nth_list_update p_def)
  then obtain k1 where k1: "sched_visit i k0 = Inr (True, k1)" "procs k1 = chosen i (procs k0)" "k_trap_frame k1 = p_trap (proc_of k0 i)"
    "k_cpu_proc k1 = Some i"
    using visit_switches [of k0 i] assms(1,2) pt by (auto simp: ps p_def)
  have "p_kont (proc_of k1 i) = KSched" using assms(1,2) by (simp add: k1(2) chosen_nth ps p_def)
  then have "resume i sp k1 = Inr (ToUser, kernel_timer_tick_resume sp k1)" by (simp add: resume_def)
  moreover have "k_trap_frame (kernel_timer_tick_resume sp k1) = p_trap (proc_of k i)"
    using k1(3,4) assms(1,2) by (simp add: kernel_timer_tick_resume_def Let_def patch_proc_sp_def upd_proc_def ps p_def)
  ultimately show ?thesis using k1(1) by (auto simp: k0_def)
qed

theorem tick_loses_registers_witness:
  "\<exists>k1 k2. sched_visit 1 (sched_back 1 (kernel_timer_tick (caller 20))) = Inr (True, k1) \<and>
     resume 1 0 k1 = Inr (ToUser, k2) \<and> tf_pc (k_trap_frame k2) = 0 \<and> tf_pc (k_trap_frame (caller 20)) = 4096"
proof -
  have "\<forall>j < 8. p_state (proc_of (caller 20) j) = SLEEPING \<longrightarrow> p_chan (proc_of (caller 20) j) \<noteq> ChanProc 1"
    by (simp add: caller_def nth_list_update zero_proc_def)
  then show ?thesis
    using tick_loses_registers [of "caller 20" 1 0]
    by (auto simp: caller_def [THEN arg_cong [where f = k_proc_table]] zero_proc_def zero_trap_def)
qed

text \<open>
  When a process exits, its parent becomes ready in whatever state it is. A
  parent that has exited itself, or whose slot is free, is scheduled again with
  the page table and the stack that it has given back.
\<close>

theorem exit_revives_parent:
  assumes "i < length (procs k)" "par < length (procs k)" "i \<noteq> par" "p_parent (proc_of k i) = Some par" "p_lock (proc_of k par) = 0"
  shows "exit_notify i k = Inr (upd_proc par (\<lambda>p. p\<lparr>p_state := READY\<rparr>) (k\<lparr>k_trap_frame := p_trap (proc_of k par)\<rparr>))"
  using assms by (simp add: exit_notify_def acquire_proc_def upd_proc_def release_proc_def copy_trap_frame_def Let_def unlock_id)

theorem exit_revives_parent_witness:
  "\<exists>k. exit_notify 2 (upd_proc 0 (\<lambda>p. p\<lparr>p_state := ZOMBIE\<rparr>) bereaved) = Inr k \<and> p_state (proc_of k 0) = READY"
  using exit_revives_parent [of 2 "upd_proc 0 (\<lambda>p. p\<lparr>p_state := ZOMBIE\<rparr>) bereaved" 0]
  by (simp add: bereaved_def Let_def zero_proc_def)

section \<open>A lock that is never given back\<close>

text \<open>
  The scheduler switches to a process with that process's lock taken. Nothing that
  runs on its kernel stack from there to user mode releases it: every operation
  releases only a process lock that it has itself acquired, and to acquire a
  held one does not return.
\<close>

definition held :: "nat \<Rightarrow> kernel \<Rightarrow> bool" where
  "held i k \<longleftrightarrow> p_lock (proc_of k i) = 1"

lemma held_procs: "procs k' = procs k \<Longrightarrow> held i k' = held i k"
  by (simp add: held_def)

lemma held_upd: "(\<And>p. p_lock (g p) = p_lock p) \<Longrightarrow> held i (upd_proc j g k) = held i k"
  unfolding held_def by (cases "j < length (procs k)"; cases "j = i") (simp_all add: upd_proc_def list_update_beyond)

lemma held_acquire: "held i k \<Longrightarrow> post (acquire_proc j k) (\<lambda>k'. held i k' \<and> j \<noteq> i)"
  by (cases "j = i") (simp_all add: acquire_proc_def held_def upd_proc_def)

lemma held_release: "j \<noteq> i \<Longrightarrow> held i (release_proc j k) = held i k"
  by (simp add: held_def release_proc_def upd_proc_def)

lemma held_frame [simp]:
  "held i (k\<lparr>k_mem := m\<rparr>) = held i k" "held i (k\<lparr>k_trap_frame := t\<rparr>) = held i k" "held i (k\<lparr>k_pm := q\<rparr>) = held i k"
  "held i (k\<lparr>k_unsleep_scheduler := b\<rparr>) = held i k" "held i (upd_csr c k) = held i k" "held i (upd_pipe pp h k) = held i k"
  "held i (release_pipe pp k) = held i k" "held i (upd_file f u k) = held i k" "held i (upd_uart v k) = held i k"
  "held i (set_errno j e k) = held i k" "held i (set_a0 r k) = held i k" "held i (release_pt k) = held i k"
  "held i (upd_pt (\<lambda>t. t\<lparr>pt_lock := l\<rparr>) k) = held i k" "held i (k\<lparr>k_cpu_proc := cp\<rparr>) = held i k"
  by (rule held_procs, simp add: upd_csr_def upd_pipe_def release_pipe_def upd_uart_def set_errno_def set_a0_def set_tf_reg_def
    release_pt_def upd_pt_def upd_file_def split: file_ref.split)+

lemma held_own [simp]:
  "held i (proc_yield j ch c k) = held i k" "held i (patch_proc_sp j sp k) = held i k"
  by (simp_all add: proc_yield_def psleep_def patch_proc_sp_def held_upd)

lemma held_update: "held i k \<Longrightarrow> post (update_proc_by_chan j ch k) (held i)"
  by (auto simp: update_proc_by_chan_def Let_def held_upd split: chan.split)

lemma held_wakeup_loop: "held i k \<Longrightarrow> post (wakeup_loop js ch k) (held i)"
proof (induction js arbitrary: k)
  case (Cons j js)
  then show ?case
    by (auto intro!: post_mono [OF held_acquire] post_mono [OF held_update] Cons.IH simp: held_release)
qed simp

lemma held_mark: "held i k \<Longrightarrow> post (proc_mark_for_wakeup ch k) (held i)"
  by (auto simp: proc_mark_for_wakeup_def acquire_pt_def simp del: upt_Suc intro!: post_mono [OF held_wakeup_loop])

lemma held_exited_loop: "held i k \<Longrightarrow> post (exited_loop js l k) (\<lambda>(pid, k'). held i k')"
proof (induction js arbitrary: k)
  case (Cons j js)
  then show ?case
    by (auto intro!: post_mono [OF held_acquire] Cons.IH simp: held_release held_upd release_page_k_def intro: post_any)
qed simp

lemma held_yield_resume: "held i k \<Longrightarrow> post (proc_yield_resume i k) (held i)"
  by (auto simp: proc_yield_resume_def check_exited_children_def simp del: upt_Suc intro!: post_mono [OF held_exited_loop])

lemma held_acquire_pipe: "held i k \<Longrightarrow> post (acquire_pipe pp k) (held i)"
  by (simp add: acquire_pipe_def)

lemma held_pipe_read: "held i k \<Longrightarrow> post (pipe_read_resume i f pp buf sz k) (\<lambda>(r, k'). held i k')"
  by (auto simp: pipe_read_resume_def pipe_read_loop_def Let_def split: prod.split
    intro!: post_mono [OF held_yield_resume] post_mono [OF held_acquire_pipe] post_mono [OF held_mark])

lemma held_pipe_write: "held i k \<Longrightarrow> post (pipe_write_resume i f pp buf n nw k) (\<lambda>(r, k'). held i k')"
  by (auto simp: pipe_write_resume_def pipe_write_loop_def Let_def split: prod.split
    intro!: post_mono [OF held_yield_resume] post_mono [OF held_acquire_pipe] post_mono [OF held_mark])

lemma held_readline: "held i k \<Longrightarrow> readline_loop m buf r w n k = (r', n', k') \<Longrightarrow> held i k'"
  by (induction m buf r w n k rule: readline_loop.induct) (auto simp: Let_def split: if_splits)

lemma held_uart_read: "held i k \<Longrightarrow> post (uart_read_resume i f buf sz k) (\<lambda>(r, k'). held i k')"
  by (auto simp: uart_read_resume_def uart_readline_loop_def uart_readline_copy_def Let_def split: prod.splits
    intro!: post_mono [OF held_yield_resume] dest: held_readline)

lemma held_done: "held i (snd r) \<Longrightarrow> held i (snd (proc_read_done j f r))" "held i (snd r) \<Longrightarrow> held i (snd (proc_write_done j r))"
  by (auto simp: proc_read_done_def proc_write_done_def split: prod.splits option.splits)

lemma held_finish: "held i (snd r) \<Longrightarrow> post (finish j sp r) (\<lambda>(e, k'). held i k')"
  by (auto simp: finish_def syscall_exit_def split: prod.splits option.splits)

lemma held_resume:
  assumes "held i k" "p_kont (proc_of k i) \<noteq> KForkret"
  shows "post (resume i sp k) (\<lambda>(e, k'). held i k')"
  using assms unfolding resume_def
  by (auto simp: kernel_timer_tick_resume_def check_exited_children_def Let_def simp del: upt_Suc
    intro!: held_finish held_done post_mono [OF held_exited_loop] post_mono [OF held_pipe_read] post_mono [OF held_pipe_write]
      post_mono [OF held_uart_read] split: kont.split option.split)

text \<open>A process that is switched to has its lock held, and its continuation as it was.\<close>

abbreviation konts :: "kernel \<Rightarrow> kont list" where
  "konts k \<equiv> map p_kont (procs k)"

lemma konts_upd [simp]: "(\<And>p. p_kont (g p) = p_kont p) \<Longrightarrow> konts (upd_proc j g k) = konts k"
  by (cases "j < length (procs k)") (simp_all add: upd_proc_def map_update list_update_beyond list_update_same_conv)

lemma konts_wakeup_loop: "post (wakeup_loop js ch k) (\<lambda>k'. konts k' = konts k)"
proof (induction js arbitrary: k)
  case (Cons j js)
  have "post (update_proc_by_chan j ch k) (\<lambda>k'. konts k' = konts k)" for k
    by (auto simp: update_proc_by_chan_def Let_def simp del: procs_upd_proc split: chan.split)
  then have upd: "post (update_proc_by_chan j ch k) (\<lambda>k'. post (wakeup_loop js ch (release_proc j k')) (\<lambda>k''. konts k'' = konts k))" for k
    using post_mono [OF Cons] by (rule post_mono) (simp add: release_proc_def del: procs_upd_proc)
  show ?case
    using Cons upd [of "upd_proc j (\<lambda>p. p\<lparr>p_lock := 1\<rparr>) k"] by (auto simp: acquire_proc_def simp del: procs_upd_proc)
qed simp

lemma konts_mark: "post (proc_mark_for_wakeup ch k) (\<lambda>k'. konts k' = konts k)"
  by (auto simp: proc_mark_for_wakeup_def acquire_pt_def upd_pt_def release_pt_def simp del: upt_Suc
    intro!: post_mono [OF konts_wakeup_loop])

lemma held_visit:
  assumes "length (procs k) = MAX_PROCS" "i < MAX_PROCS" "sched_visit i k = Inr (True, k')"
  shows "held i k' \<and> konts k' = konts k"
proof -
  have "post (proc_mark_for_wakeup ch k1) (\<lambda>k2. held i k2 \<and> konts k2 = konts k)" if "held i k1" "konts k1 = konts k" for ch k1
    using held_mark [OF that(1), of ch] konts_mark [of ch k1] that(2) by (auto simp: post_def)
  then have mark: "post (proc_mark_for_wakeup (ChanProc i) (upd_proc i g (k1\<lparr>k_cpu_proc := c\<rparr>))) (\<lambda>k2. held i k2 \<and> konts k2 = konts k)"
    if "held i k1" "konts k1 = konts k" "\<And>p. p_lock (g p) = p_lock p" "\<And>p. p_kont (g p) = p_kont p" for k1 g c
    using that by (simp add: held_upd del: procs_upd_proc)
  have "held i (upd_proc i (\<lambda>p. p\<lparr>p_lock := 1\<rparr>) k)" using assms(1,2) by (simp add: held_def)
  then have "post (sched_visit i k) (\<lambda>(b, k'). b \<longrightarrow> held i k' \<and> konts k' = konts k)"
    by (auto simp: sched_visit_def acquire_proc_def Let_def held_upd simp del: procs_upd_proc upd_proc_upd_proc
      intro!: post_mono [OF mark])
  then show ?thesis using postD [OF _ assms(3)] by auto
qed

lemma own_acquire: "held i k \<Longrightarrow> acquire_proc i k = Inl Deadlock"
  by (simp add: acquire_proc_def acquire_def held_def)

lemma held_alloc_file: "held i k \<Longrightarrow> post (fs_alloc_file k) (\<lambda>(f, k'). held i k')"
  by (auto simp: fs_alloc_file_def held_def split: option.split)

lemma own_lock_calls:
  assumes "k_cpu_proc k = Some i" "held i k"
  shows "proc_execv name argv k = Inl Deadlock" "proc_pipeattch pid fd k = Inl Deadlock"
    "va2pa_k i path k \<noteq> 0 \<Longrightarrow> fs_alloc_file k = Inr (Some f, k') \<Longrightarrow> proc_open path flags k = Inl Deadlock"
  using assms own_acquire held_alloc_file [OF assms(2)]
  by (auto simp: proc_execv_def proc_pipeattch_def proc_open_def myproc_def Let_def post_def)

text \<open>The way from the scheduler back to a process that has run before.\<close>

lemma switch_holds:
  assumes "reachable (Sched i w n, k)" "step (Sched i w n, k) (User i, k')" "p_kont (proc_of k i) \<noteq> KForkret"
  shows "held i k' \<and> k_cpu_proc k' = Some i"
proof -
  obtain k1 sp where k1: "i < MAX_PROCS" "sched_visit i k = Inr (True, k1)" "resume i sp k1 = Inr (ToUser, k')"
    using assms(2) by (auto elim: sched_stepE)
  have len: "length (procs k) = MAX_PROCS"
    using minv_sched_idle [OF minv_reachable [OF assms(1)]] inv_len by blast
  note v = held_visit [OF len k1(1,2)]
  have "konts k1 ! i = konts k ! i" using v by simp
  moreover have "length (procs k1) = length (procs k)" using v by (metis length_map)
  ultimately have "p_kont (proc_of k1 i) \<noteq> KForkret" using assms(3) k1(1) len by simp
  then have "held i k'" using postD [OF held_resume k1(3)] v by simp
  moreover have "kinv (Some i) (only i) k'" using minv_reachable [OF more [OF assms(1,2)]] by simp
  ultimately show ?thesis using inv_current by blast
qed

lemma own_lock_dispatch:
  assumes "k_cpu_proc k = Some i" "held i k" "\<not> va2pa_k i (tf_reg k REG_SP) k < p_stack_page (proc_of k i)"
    "nr = SYS_NR_execv \<or> nr = SYS_NR_pipeattch \<or>
      nr = SYS_NR_open \<and> va2pa_k i (tf_reg k REG_A0) k \<noteq> 0 \<and> (\<exists>f kf. fs_alloc_file k = Inr (Some f, kf))"
  shows "dispatch i nr sp k = Inl Deadlock"
  using assms(3,4) own_lock_calls [OF assms(1,2)]
  by (auto simp: dispatch_def Let_def syscall_vector_def sys_execv_def sys_pipeattch_def sys_open_def now_def)

text \<open>
  C28: a process that the scheduler switches to for any but its first time, so after
  every sleep and every timer tick, comes back to user mode with its own lock
  still held. Whatever it then does with its memory and registers, its next
  system call deadlocks in the handler when it is \<open>execv\<close> or \<open>pipeattch\<close>, or \<open>open\<close>
  of a mapped path while a file is free (the user stack pointer being in range,
  without which the call is refused at once).
\<close>

theorem own_lock_deadlocks:
  assumes "reachable (Sched i w n, k)" "step (Sched i w n, k) (User i, k')" "p_kont (proc_of k i) \<noteq> KForkret"
  shows "p_lock (proc_of k' i) = 1 \<and> k_cpu_proc k' = Some i \<and>
    (\<forall>mem tf. let ku = k'\<lparr>k_mem := mem, k_trap_frame := tf\<rparr>; ke = syscall_enter i (upd_csr disable_interrupts ku);
        nr = sint (arg32 ku REG_A7)
      in \<not> va2pa_k i (tf_reg ke REG_SP) ke < p_stack_page (proc_of ke i) \<longrightarrow>
         nr = SYS_NR_execv \<or> nr = SYS_NR_pipeattch \<or>
           nr = SYS_NR_open \<and> va2pa_k i (tf_reg ke REG_A0) ke \<noteq> 0 \<and> (\<exists>f kf. fs_alloc_file ke = Inr (Some f, kf)) \<longrightarrow>
         syscall sp ku = Inl Deadlock)"
proof -
  note h = switch_holds [OF assms]
  have ke: "held i (syscall_enter i (upd_csr disable_interrupts ku)) \<and> k_cpu_proc (syscall_enter i (upd_csr disable_interrupts ku)) = Some i"
    if "ku = k'\<lparr>k_mem := mem, k_trap_frame := tf\<rparr>" for ku mem tf
    using h by (simp add: that syscall_enter_def Let_def) (simp add: set_errno_def upd_csr_def)
  have "syscall sp ku = dispatch i (sint (arg32 ku REG_A7)) sp (syscall_enter i (upd_csr disable_interrupts ku))"
    if "ku = k'\<lparr>k_mem := mem, k_trap_frame := tf\<rparr>" for ku mem tf
    using h by (simp add: that syscall_def Let_def myproc_def upd_csr_def tf_reg_def)
  then show ?thesis
    using h ke own_lock_dispatch unfolding Let_def held_def by metis
qed

lemma reachable_steps: "step\<^sup>*\<^sup>* s s' \<Longrightarrow> reachable s \<Longrightarrow> reachable s'"
  by (induction rule: rtranclp_induct) (auto intro: more)

text \<open>The process of \<open>one_ready\<close> enters its program, is interrupted by a tick, and is scheduled again.\<close>

lemma one_ready_ticked:
  "\<exists>k. step (Sched 0 (-1) False, one_ready) (User 0, k) \<and> k_cpu_proc k = Some 0 \<and> pt_lock (k_proc_table k) = 0 \<and>
     pt_num_procs (k_proc_table k) = 1 \<and>
     procs k = (replicate MAX_PROCS zero_proc)[0 := zero_proc\<lparr>p_state := RUNNING, p_pid := 1, p_nscheds := 1\<rparr>]"
proof -
  have "\<exists>k' k''. sched_visit 0 one_ready = Inr (True, k') \<and> resume 0 0 k' = Inr (ToUser, k'') \<and>
     k_cpu_proc k'' = Some 0 \<and> pt_lock (k_proc_table k'') = 0 \<and> pt_num_procs (k_proc_table k'') = 1 \<and>
     procs k'' = (replicate MAX_PROCS zero_proc)[0 := zero_proc\<lparr>p_state := RUNNING, p_pid := 1, p_nscheds := 1\<rparr>]"
    by (simp add: sched_visit_def one_ready_def bss_kernel_def zero_proc_def acquire_proc_def upd_proc_def Let_def
      proc_mark_for_wakeup_def acquire_pt_def upd_pt_def upt_rec eval_nat_numeral resume_def forkret_def myproc_def release_pt_def
      release_proc_def upd_csr_def)
  then show ?thesis using sched_switch [of 0 False "-1" one_ready] by auto
qed

lemma one_ready_back:
  "\<exists>k k'. reachable (Sched 0 0 True, k) \<and> step (Sched 0 0 True, k) (User 0, k') \<and> p_kont (proc_of k 0) = KSched \<and>
     p_stack_page (proc_of k' 0) = 0"
proof -
  obtain k where k: "step (Sched 0 (-1) False, one_ready) (User 0, k)" "k_cpu_proc k = Some 0" "pt_lock (k_proc_table k) = 0"
    "pt_num_procs (k_proc_table k) = 1"
    "procs k = (replicate MAX_PROCS zero_proc)[0 := zero_proc\<lparr>p_state := RUNNING, p_pid := 1, p_nscheds := 1\<rparr>]"
    using one_ready_ticked by blast
  define k0 where "k0 = sched_back 0 (kernel_timer_tick k)"
  define p where "p = zero_proc\<lparr>p_state := READY, p_pid := 1, p_nscheds := 1, p_kont := KSched\<rparr>"
  have ps: "procs k0 = (replicate MAX_PROCS zero_proc)[0 := p]"
    by (simp add: k0_def p_def k(5) sched_back_def release_proc_def tick_sched [OF k(2)] zero_proc_def)
  have pt: "pt_lock (k_proc_table k0) = 0" "pt_num_procs (k_proc_table k0) \<noteq> 0"
    using k(3,4) by (simp_all add: k0_def sched_back_def release_proc_def tick_sched [OF k(2)] upd_proc_def upd_csr_def)
  have "step\<^sup>*\<^sup>* (Sched 1 0 False, k0) (Sched MAX_PROCS 0 False, k0)"
    by (rule walk) (auto simp: ps passed_by_def zero_proc_def nth_list_update)
  then have "step\<^sup>*\<^sup>* (Sched 1 0 False, k0) (Sched 0 0 True, k0)" by (rule wraps)
  moreover have "step (User 0, k) (Sched 1 0 False, k0)" using user_tick [of 0 k] by (simp add: k0_def)
  moreover have "reachable (User 0, k)" by (rule more [OF start [OF one_ready_boot] k(1)])
  ultimately have r: "reachable (Sched 0 0 True, k0)" using reachable_steps more by blast
  have "wakeable (ChanProc 0) (procs k0)" by (auto simp: wakeable_def ps p_def waits_on_def zero_proc_def in_set_conv_nth nth_list_update)
  then obtain k1 where k1: "sched_visit 0 k0 = Inr (True, k1)" "procs k1 = chosen 0 (procs k0)" "k_cpu_proc k1 = Some 0"
    using visit_switches [of k0 0] pt by (auto simp: ps p_def zero_proc_def)
  have "proc_of k1 0 = p\<lparr>p_lock := 1, p_state := RUNNING, p_nscheds := 2\<rparr>"
    using chosen_nth [of 0 "procs k0"] by (simp add: k1(2) ps p_def)
  moreover have "0 < length (procs k1)" by (simp add: k1(2) ps chosen_def Let_def)
  ultimately have "resume 0 0 k1 = Inr (ToUser, kernel_timer_tick_resume 0 k1)" "p_stack_page (proc_of (kernel_timer_tick_resume 0 k1) 0) = 0"
    using k1(3) by (simp_all add: resume_def kernel_timer_tick_resume_def Let_def patch_proc_sp_def upd_proc_def p_def zero_proc_def upd_csr_def)
  then show ?thesis
    using r sched_switch [of 0 True 0 k0 k1 0] k1(1)
    by (intro exI [of _ k0] exI [of _ "kernel_timer_tick_resume 0 k1"]) (simp add: ps p_def)
qed

theorem own_lock_deadlocks_witness:
  "\<exists>k'. reachable (User 0, k') \<and> p_lock (proc_of k' 0) = 1 \<and>
     syscall 0 (k'\<lparr>k_mem := \<lambda>_. 0, k_trap_frame := zero_trap\<lparr>tf_regs := (replicate 31 0)[16 := 11]\<rparr>\<rparr>) = Inl Deadlock"
proof -
  obtain k k' where k: "reachable (Sched 0 0 True, k)" "step (Sched 0 0 True, k) (User 0, k')" "p_kont (proc_of k 0) = KSched"
    "p_stack_page (proc_of k' 0) = 0"
    using one_ready_back by blast
  define tf where "tf = zero_trap\<lparr>tf_regs := (replicate 31 0)[16 := 11]\<rparr>"
  let ?ku = "k'\<lparr>k_mem := \<lambda>_. 0, k_trap_frame := tf\<rparr>"
  have "sint (arg32 ?ku REG_A7) = SYS_NR_execv" by (simp add: tf_reg_def tf_def zero_trap_def)
  moreover have "p_stack_page (proc_of (syscall_enter 0 (upd_csr disable_interrupts ?ku)) 0) = 0"
    using k(4) by (simp add: syscall_enter_def Let_def set_errno_def upd_csr_def)
  ultimately show ?thesis
    using own_lock_deadlocks [OF k(1,2), where sp = 0] k(3) more [OF k(1,2)] unfolding tf_def by (auto simp: Let_def)
qed

end
