(* ===== verification/Path.thy ===== *)
theory Path
  imports Bifs
begin

text \<open>
  What \<open>bifs_open\<close> makes of a path: a walk over its components through the tables
  of directories and files. A component matches the first entry of its directory
  whose name it is a prefix of.
\<close>

section \<open>Reference\<close>

text \<open>A component: not empty, without slash and terminator.\<close>

definition is_comp :: "string \<Rightarrow> bool" where
  "is_comp c \<longleftrightarrow> c \<noteq> [] \<and> CHR ''/'' \<notin> set c \<and> NUL \<notin> set c"

definition mkpath :: "string list \<Rightarrow> string" where
  "mkpath cs = concat (map (Cons (CHR ''/'')) cs)"

definition name_of_dir :: "kernel \<Rightarrow> nat \<Rightarrow> string" where
  "name_of_dir k i = (case dir_name k (k_dirs k ! i) of Inr s \<Rightarrow> s | Inl _ \<Rightarrow> [])"

definition sub_dir :: "kernel \<Rightarrow> nat \<Rightarrow> string \<Rightarrow> nat option" where
  "sub_dir k d c = find (\<lambda>i. bd_parent (k_dirs k ! i) = Some d \<and> take (length c) (name_of_dir k i) = c) [1..<BIFS_MAX_DIRS]"

fun walk_dirs :: "kernel \<Rightarrow> nat \<Rightarrow> string list \<Rightarrow> nat option" where
  "walk_dirs k d [] = Some d"
| "walk_dirs k d (c # cs) = (case sub_dir k d c of None \<Rightarrow> None | Some d' \<Rightarrow> walk_dirs k d' cs)"

definition file_in :: "kernel \<Rightarrow> nat \<Rightarrow> string \<Rightarrow> nat option" where
  "file_in k d f = find_index (\<lambda>x. bf_parent x = Some d \<and> take (length f) (bf_name x) = f) (k_files k)"

text \<open>Every directory that has a parent has a name.\<close>

definition dirs_named :: "kernel \<Rightarrow> bool" where
  "dirs_named k \<longleftrightarrow> (\<forall>i < BIFS_MAX_DIRS. bd_parent (k_dirs k ! i) \<noteq> None \<longrightarrow> bd_name (k_dirs k ! i) \<noteq> NoName)"

section \<open>Positions\<close>

lemma mkpath_simps [simp]: "mkpath [] = []" "mkpath (c # cs) = CHR ''/'' # c @ mkpath cs" "mkpath (cs @ ds) = mkpath cs @ mkpath ds"
  by (simp_all add: mkpath_def)

lemma next_slash_comp:
  assumes "CHR ''/'' \<notin> set c" "NUL \<notin> set c" "r = [] \<or> hd r = CHR ''/''"
  shows "next_slash (p @ c @ r) (length p) = Inr (length p + length c)"
  using assms(1,2)
proof (induction c arbitrary: p)
  case Nil
  then show ?case
    using assms(3) by (subst next_slash.simps) (cases r; auto simp: path_at_def nth_append)
next
  case (Cons x c)
  have "next_slash (p @ (x # c) @ r) (length p) = next_slash ((p @ [x]) @ c @ r) (length (p @ [x]))"
    using Cons.prems by (subst next_slash.simps) (auto simp: path_at_def nth_append)
  then show ?case using Cons.IH [of "p @ [x]"] Cons.prems by simp
qed

lemma next_slash_path:
  assumes "is_comp c" "r = [] \<or> hd r = CHR ''/''" "pos = length p + 1"
  shows "next_slash (p @ CHR ''/'' # c @ r) pos = Inr (pos + length c)"
  using next_slash_comp [of c r "p @ [CHR ''/'']"] assms by (simp add: is_comp_def)

section \<open>Names\<close>

lemma take_strncmp:
  assumes "c \<noteq> []" "length c < 2 ^ 31"
  shows "strncmp s (c @ r) (of_int (int (length c))) = 0 \<longleftrightarrow> take (length c) s = c"
proof -
  have u: "unat (of_int (int (length c)) :: u32) = length c" using assms(2) by (simp add: unat_of_nat)
  moreover have "(of_int (int (length c)) :: u32) > 0"
    using assms u by (metis length_0_conv unat_eq_0 word_gt_0)
  ultimately show ?thesis using strncmp_pos [of "of_int (int (length c))" s "c @ r"] by simp
qed

lemma opendir_find:
  assumes "dirs_named k" "c \<noteq> []" "length c < 2 ^ 31" "\<forall>i \<in> set is. i < BIFS_MAX_DIRS"
  shows "opendir_loop is d (c @ r) (of_int (int (length c))) k =
    Inr (find (\<lambda>i. bd_parent (k_dirs k ! i) = Some d \<and> take (length c) (name_of_dir k i) = c) is)"
  using assms(4)
proof (induction "is")
  case Nil
  then show ?case by simp
next
  case (Cons i js)
  show ?case
  proof (cases "bd_parent (k_dirs k ! i) = Some d")
    case True
    then have "bd_name (k_dirs k ! i) \<noteq> NoName" using assms(1) Cons.prems by (auto simp: dirs_named_def)
    then have "dir_name k (k_dirs k ! i) = Inr (name_of_dir k i)" by (auto simp: dir_name_def name_of_dir_def split: name_ref.split)
    then show ?thesis using True Cons take_strncmp [OF assms(2,3)] by simp
  next
    case False
    then show ?thesis using Cons by simp
  qed
qed

lemma opendir_sub:
  assumes "dirs_named k" "is_comp c" "length c < 2 ^ 31" "start = length p + 1" "fin = start + length c"
  shows "bifs_opendir (Some d) (p @ CHR ''/'' # c @ r) start fin k = Inr (sub_dir k d c)"
  using opendir_find [OF assms(1) _ assms(3), of "[1..<BIFS_MAX_DIRS]" d r] assms(2,4,5)
  by (simp add: bifs_opendir_def sub_dir_def is_comp_def)

lemma openfile_in:
  assumes "is_comp f" "length f < 2 ^ 31" "start = length p + 1" "fin = start + length f"
  shows "bifs_openfile (Some d) (p @ CHR ''/'' # f) start fin k =
    (case file_in k d f of Some i \<Rightarrow> (sint (bf_flags (k_files k ! i)), Some i) | None \<Rightarrow> (- ENOENT, None))"
proof -
  have "strncmp s f (of_int (int (length f))) = 0 \<longleftrightarrow> take (length f) s = f" for s
    using take_strncmp [of f s "[]"] assms(1,2) by (simp add: is_comp_def)
  then show ?thesis
    using assms(3,4) by (simp add: bifs_openfile_def Let_def file_in_def)
qed

section \<open>Directories\<close>

lemma hd_tail [simp]: "hd (mkpath cs @ CHR ''/'' # f) = CHR ''/''"
  by (cases cs) simp_all

text \<open>The loop opens every component but the last.\<close>

lemma opendirpath_walk:
  assumes "dirs_named k" "\<forall>c \<in> set (cs @ [l]). is_comp c \<and> length c < 2 ^ 31" "is_comp f"
    "path = p @ mkpath (cs @ [l]) @ CHR ''/'' # f" "fin = int (length (p @ mkpath (cs @ [l])))"
  shows "opendirpath_loop path fin (Some d) (length p) (length p + 1 + length (hd (cs @ [l]))) k =
    Inr (map_option (\<lambda>d'. (Some d', length (p @ mkpath cs), length (p @ mkpath (cs @ [l])))) (walk_dirs k d cs))"
  using assms(2,4,5)
proof (induction cs arbitrary: p d)
  case Nil
  then show ?case by (subst opendirpath_loop.simps) simp
next
  case (Cons c cs)
  let ?r = "mkpath (cs @ [l]) @ CHR ''/'' # f"
  have c: "is_comp c" "length c < 2 ^ 31" using Cons.prems by simp_all
  have path: "path = p @ CHR ''/'' # c @ ?r" using Cons.prems by simp
  have opn: "bifs_opendir (Some d) path (length p + 1) (length p + 1 + length c) k = Inr (sub_dir k d c)"
    unfolding path using assms(1) c by (intro opendir_sub) simp_all
  have nxt: "next_slash path (length p + 1 + length c + 1) = Inr (length p + 1 + length c + 1 + length (hd (cs @ [l])))"
  proof -
    have "path = (p @ CHR ''/'' # c) @ CHR ''/'' # hd (cs @ [l]) @ (mkpath (tl (cs @ [l])) @ CHR ''/'' # f)"
      using path by (cases cs) simp_all
    moreover have "is_comp (hd (cs @ [l]))" using Cons.prems(1) by (cases cs) simp_all
    moreover have "hd (mkpath (tl (cs @ [l])) @ CHR ''/'' # f) = CHR ''/''" by (cases cs; cases "tl cs") simp_all
    ultimately show ?thesis by (simp only:) (rule next_slash_path, auto)
  qed
  have "slash < length path \<and> int slash < fin" if "slash = length p + 1 + length c" for slash
    using that Cons.prems(3) by (simp add: path)
  then have "opendirpath_loop path fin (Some d) (length p) (length p + 1 + length c) k =
    (case sub_dir k d c of None \<Rightarrow> Inr None | Some d' \<Rightarrow>
       opendirpath_loop path fin (Some d') (length p + 1 + length c) (length p + 1 + length c + 1 + length (hd (cs @ [l]))) k)"
    using opn nxt by (subst opendirpath_loop.simps) (simp split: option.split)
  moreover have "opendirpath_loop path fin (Some d') (length (p @ CHR ''/'' # c)) (length (p @ CHR ''/'' # c) + 1 + length (hd (cs @ [l]))) k =
    Inr (map_option (\<lambda>d'. (Some d', length ((p @ CHR ''/'' # c) @ mkpath cs), length ((p @ CHR ''/'' # c) @ mkpath (cs @ [l])))) (walk_dirs k d' cs))" for d'
    using Cons.prems by (intro Cons.IH) simp_all
  ultimately show ?case by (auto split: option.split)
qed

lemma char_before: "c \<noteq> [] \<Longrightarrow> CHR ''/'' \<notin> set c \<Longrightarrow> \<exists>x. path_at (p @ c @ r) (length p + length c - 1) = Inr x \<and> x \<noteq> CHR ''/''"
  by (cases c rule: rev_cases) (auto simp: path_at_def nth_append)

lemma opendirpath_dirs:
  assumes "dirs_named k" "\<forall>c \<in> set cs. is_comp c \<and> length c < 2 ^ 31" "is_comp f" "k_bifs_root k = Some root"
  shows "bifs_opendirpath (mkpath (cs @ [f])) (int (length (mkpath cs))) k =
    Inr (case walk_dirs k root cs of None \<Rightarrow> (- ENOENT, None) | Some d \<Rightarrow> (0, Some d))"
proof (cases cs rule: rev_cases)
  case Nil
  have "next_slash (CHR ''/'' # f) 1 = Inr (1 + length f)"
    using next_slash_path [of f "[]" 1 "[]"] assms(3) by simp
  moreover obtain x where "path_at (CHR ''/'' # f) (length f) = Inr x"
    using char_before [of f "''/''" "[]"] assms(3) by (auto simp: is_comp_def)
  ultimately show ?thesis
    using Nil assms(4) by (simp add: bifs_opendirpath_def) (subst opendirpath_loop.simps, simp)
next
  case (snoc ds l)
  let ?path = "mkpath (cs @ [f])" and ?e = "length (mkpath cs)"
  have path: "?path = [] @ mkpath (ds @ [l]) @ CHR ''/'' # f" using snoc by simp
  have hd: "is_comp (hd (ds @ [l]))" using assms(2) snoc by (cases ds) simp_all
  have l: "is_comp l" "length l < 2 ^ 31" using assms(2) snoc by simp_all
  have "?path = [] @ CHR ''/'' # hd (ds @ [l]) @ (mkpath (tl (ds @ [l]) @ [f]))"
    using snoc by (cases ds) simp_all
  then have nxt: "next_slash ?path 1 = Inr (1 + length (hd (ds @ [l])))"
    using next_slash_path [OF hd, of "mkpath (tl (ds @ [l]) @ [f])" 1 "[]"] by simp
  have loop: "opendirpath_loop ?path (int ?e) (Some root) 0 (1 + length (hd (ds @ [l]))) k =
      Inr (map_option (\<lambda>d'. (Some d', length (mkpath ds), ?e)) (walk_dirs k root ds))"
    using opendirpath_walk [OF assms(1) _ assms(3) path, of "int ?e" root] assms(2) snoc by simp
  obtain x where x: "path_at ?path (?e - 1) = Inr x" "x \<noteq> CHR ''/''"
    using char_before [of l "mkpath ds @ ''/''" "CHR ''/'' # f"] l(1) snoc by (auto simp: is_comp_def)
  have opn: "bifs_opendir (Some d) ?path (length (mkpath ds) + 1) ?e k = Inr (sub_dir k d l)" for d
    using opendir_sub [OF assms(1) l, of "length (mkpath ds) + 1" "mkpath ds" ?e d "CHR ''/'' # f"] snoc by simp
  have walk: "walk_dirs k d (ds @ [l]) = (case walk_dirs k d ds of None \<Rightarrow> None | Some d' \<Rightarrow> sub_dir k d' l)" for d
    by (induction ds arbitrary: d) (simp_all split: option.split)
  have "walk_dirs k root cs = (case walk_dirs k root ds of None \<Rightarrow> None | Some d' \<Rightarrow> sub_dir k d' l)"
    using walk snoc by simp
  then show ?thesis
    unfolding bifs_opendirpath_def nxt bnd_Inr assms(4) loop
    by (cases "walk_dirs k root ds") (simp_all add: x opn del: mkpath_simps One_nat_def Suc_eq_plus1 add_Suc_right split: option.split)
qed

lemma last_slash:
  assumes "\<forall>c \<in> set cs. is_comp c" "is_comp f"
  shows "last_slash_loop (p @ mkpath (cs @ [f])) lst (length p) =
    Inr (length (p @ mkpath cs), length (p @ mkpath (cs @ [f])))"
  using assms(1)
proof (induction cs arbitrary: p lst)
  case Nil
  have "next_slash (p @ CHR ''/'' # f) (length p + 1) = Inr (length p + 1 + length f)"
    using next_slash_path [OF assms(2), of "[]" "length p + 1" p] by simp
  then show ?case by (subst last_slash_loop.simps, simp) (subst last_slash_loop.simps, simp)
next
  case (Cons c cs)
  have "next_slash (p @ CHR ''/'' # c @ mkpath (cs @ [f])) (length p + 1) = Inr (length p + 1 + length c)"
    using Cons.prems by (intro next_slash_path) simp_all
  moreover have "last_slash_loop ((p @ CHR ''/'' # c) @ mkpath (cs @ [f])) (length p) (length (p @ CHR ''/'' # c)) =
      Inr (length ((p @ CHR ''/'' # c) @ mkpath cs), length ((p @ CHR ''/'' # c) @ mkpath (cs @ [f])))"
    using Cons.IH [of "p @ CHR ''/'' # c" "length p"] Cons.prems by simp
  ultimately show ?case by (subst last_slash_loop.simps) simp
qed

lemma open_walk:
  assumes "dirs_named k" "\<forall>c \<in> set (cs @ [f]). is_comp c \<and> length c < 2 ^ 31" "k_bifs_root k = Some root"
  shows "bifs_open (mkpath (cs @ [f])) flags k = Inr (case walk_dirs k root cs of
      None \<Rightarrow> (- ENOENT, None)
    | Some d \<Rightarrow> (case file_in k d f of None \<Rightarrow> (- ENOENT, None) | Some i \<Rightarrow> (sint (bf_flags (k_files k ! i)), Some i)))"
proof -
  have f: "is_comp f" "length f < 2 ^ 31" using assms(2) by simp_all
  have c: "path_at (mkpath (cs @ [f])) 0 = Inr (CHR ''/'')" by (cases cs) (simp_all add: path_at_def)
  have ls: "last_slash_loop (mkpath (cs @ [f])) 0 0 = Inr (length (mkpath cs), length (mkpath (cs @ [f])))"
    using last_slash [of cs f "[]" 0] assms(2) by simp
  have dirs: "bifs_opendirpath (mkpath (cs @ [f])) (int (length (mkpath cs))) k =
      Inr (case walk_dirs k root cs of None \<Rightarrow> (- ENOENT, None) | Some d \<Rightarrow> (0, Some d))"
    using assms by (intro opendirpath_dirs) simp_all
  have fin: "bifs_openfile (Some d) (mkpath (cs @ [f])) (length (mkpath cs) + 1) (length (mkpath (cs @ [f]))) k =
      (case file_in k d f of Some i \<Rightarrow> (sint (bf_flags (k_files k ! i)), Some i) | None \<Rightarrow> (- ENOENT, None))" for d
    using openfile_in [OF f, of "length (mkpath cs) + 1" "mkpath cs"] by simp
  show ?thesis
    unfolding bifs_open_def c ls bnd_Inr split dirs
    by (cases "walk_dirs k root cs") (simp_all add: fin [simplified] split: option.split)
qed

section \<open>Reading\<close>

lemma of_char_zero: "(of_char c :: byte) = 0 \<longleftrightarrow> c = NUL"
proof -
  have "(of_char c :: byte) = of_nat (of_char c)" by (simp only: of_nat_of_char)
  moreover have "(of_char c :: nat) < 256" by simp
  ultimately have "(of_char c :: byte) = 0 \<longleftrightarrow> (of_char c :: nat) = 0"
    using nat_dvd_not_less [of "of_char c" 256] by (auto simp: word_of_nat_eq_0_iff)
  also have "\<dots> \<longleftrightarrow> (of_char c :: nat) = of_char NUL" by (simp add: NUL_def)
  also have "\<dots> \<longleftrightarrow> c = NUL" by (simp only: of_char_eq_iff)
  finally show ?thesis .
qed

lemma read_loop_lit:
  assumes "NUL \<notin> set s" "unat pos \<le> length s" "length s < 2 ^ 32 - 1"
  shows "bifs_read_loop n (LitData s) pos buf i k =
    Inr (i + min n (length s - unat pos), k\<lparr>k_mem := store_bytes (k_mem k) (buf + of_nat i) (map of_char (take n (drop (unat pos) s)))\<rparr>)"
  using assms(2)
proof (induction n arbitrary: pos i k)
  case 0
  then show ?case by simp
next
  case (Suc n)
  show ?case
  proof (cases "unat pos = length s")
    case True
    then show ?thesis by (simp add: data_at_def)
  next
    case False
    then have lt: "unat pos < length s" using Suc.prems by simp
    have p1: "unat (1 + pos) = Suc (unat pos)"
      using lt assms(3) unat_plus_if' [of 1 pos] by simp
    have nz: "(of_char (s ! unat pos) :: byte) \<noteq> 0"
      using assms(1) lt nth_mem of_char_zero by metis
    have "drop (unat pos) s = s ! unat pos # drop (unat pos + 1) s" using lt by (simp add: Cons_nth_drop_Suc)
    then show ?thesis
      using Suc.IH [of "pos + 1" "i + 1"] lt nz by (simp add: data_at_def p1 ac_simps)
  qed
qed

section \<open>Properties\<close>

text \<open>
  C29: opening an absolute path is a walk over its components: each one leads from
  a directory to its first subdirectory whose name starts with the component,
  the last one to the first file of the directory reached whose name starts with
  it. The result is the file and its flags, or \<open>-ENOENT\<close> when a step finds nothing;
  a path that does not start with a slash gives \<open>-ENOSYS\<close>.
\<close>

theorem bifs_open_walks:
  assumes "dirs_named k" "\<forall>c \<in> set (cs @ [f]). is_comp c \<and> length c < 2 ^ 31" "k_bifs_root k = Some root"
  shows "bifs_open (mkpath (cs @ [f])) flags k = Inr (case walk_dirs k root cs of
      None \<Rightarrow> (- ENOENT, None)
    | Some d \<Rightarrow> (case file_in k d f of None \<Rightarrow> (- ENOENT, None) | Some i \<Rightarrow> (sint (bf_flags (k_files k ! i)), Some i))) \<and>
    bifs_open (f @ rel) flags k = Inr (- ENOSYS, None)"
  using open_walk [OF assms] assms(2) by (cases f) (auto simp: bifs_open_def path_at_def is_comp_def)

text \<open>The file system as \<open>bifs_init\<close> makes it, with the directories and the first three files.\<close>

definition small_fs :: kernel where
  "small_fs = (bss_kernel (\<lambda>_. 0))\<lparr>k_bifs_root := Some 0,
     k_dirs := [\<lparr>bd_flags = 1, bd_name = LitName ''/'', bd_parent = None, bd_lsdir = BifsLs\<rparr>,
       \<lparr>bd_flags = 1, bd_name = LitName ''proc'', bd_parent = Some 0, bd_lsdir = BifsLs\<rparr>,
       \<lparr>bd_flags = 1, bd_name = LitName ''home'', bd_parent = Some 0, bd_lsdir = BifsLs\<rparr>] @ replicate 5 zero_dir,
     k_files := [raw_file 5 (Some 0) ''readme.txt'' (LitData ''Hello'') NoQuery, raw_file 5 (Some 0) ''file'' (LitData ''A'') NoQuery,
       raw_file 5 (Some 2) ''read.me'' (LitData ''This'') NoQuery] @ replicate 29 zero_bfile\<rparr>"

lemma small_named: "dirs_named small_fs"
  by (simp add: dirs_named_def small_fs_def nth_append nth_Cons' zero_dir_def)

theorem bifs_open_walks_witness:
  "bifs_open ''/home/read.me'' 0 small_fs = Inr (5, Some 2) \<and> bifs_open ''/ho/re'' 0 small_fs = Inr (5, Some 2) \<and>
   bifs_open ''read'' 0 small_fs = Inr (- ENOSYS, None)"
proof -
  have comps: "\<forall>c \<in> set ([''home''] @ [''read.me'']). is_comp c \<and> length c < 2 ^ 31"
    "\<forall>c \<in> set ([''ho''] @ [''re'']). is_comp c \<and> length c < 2 ^ 31" "\<forall>c \<in> set ([] @ [''read'']). is_comp c \<and> length c < 2 ^ 31"
    by (simp_all add: is_comp_def NUL_def)
  have root: "k_bifs_root small_fs = Some 0" by (simp add: small_fs_def)
  have "walk_dirs small_fs 0 [''home''] = Some 2" "walk_dirs small_fs 0 [''ho''] = Some 2"
    by (simp_all add: sub_dir_def small_fs_def name_of_dir_def dir_name_def upt_rec nth_append zero_dir_def)
  moreover have "file_in small_fs 2 ''read.me'' = Some 2" "file_in small_fs 2 ''re'' = Some 2"
    by (simp_all add: file_in_def small_fs_def raw_file_def)
  ultimately show ?thesis
    using bifs_open_walks [OF small_named comps(1) root, of 0] bifs_open_walks [OF small_named comps(2) root, of 0]
      bifs_open_walks [OF small_named comps(3) root, of 0 "[]"]
    by (simp add: small_fs_def raw_file_def)
qed

text \<open>
  Reading a file delivers exactly its characters from the given position, as
  many as were asked for or as there are before its end, returns their number,
  and changes no other byte of memory and nothing else in the kernel.
\<close>

theorem bifs_read_correct:
  assumes "f_fs_file (file_of k f) = BifsObj b" "bf_data (k_files k ! b) = LitData s" "NUL \<notin> set s" "length s < 2 ^ 31"
    "unat pos \<le> length s"
  shows "bifs_read f pos buf sz k = Inr (int (min (unat sz) (length s - unat pos)),
    k\<lparr>k_mem := store_bytes (k_mem k) buf (map of_char (take (unat sz) (drop (unat pos) s)))\<rparr>)"
proof -
  have "sint (of_nat n :: u32) = int n" if "n \<le> length s" for n
    using that assms(4) by (simp add: signed_of_nat signed_take_bit_int_eq_self)
  then show ?thesis
    using read_loop_lit [OF assms(3,5), of "unat sz" buf 0] assms(1,2,4) by (simp add: bifs_read_def)
qed

theorem bifs_read_correct_witness:
  "\<exists>k. bifs_read (FTable 0) 1 100 64 (upd_file (FTable 0) (\<lambda>f. f\<lparr>f_fs_file := BifsObj 0\<rparr>) small_fs) = Inr (4, k) \<and>
     load_bytes (k_mem k) 100 4 = map of_char ''ello''"
proof -
  let ?k = "upd_file (FTable 0) (\<lambda>f. f\<lparr>f_fs_file := BifsObj 0\<rparr>) small_fs"
  have f: "f_fs_file (file_of ?k (FTable 0)) = BifsObj 0" "bf_data (k_files ?k ! 0) = LitData ''Hello''"
    by (simp_all add: upd_file_def file_of_def small_fs_def raw_file_def bss_kernel_def)
  let ?b = "map of_char ''ello'' :: byte list"
  let ?m = "store_bytes (k_mem ?k) 100 ?b"
  have r: "bifs_read (FTable 0) 1 100 64 ?k = Inr (4, ?k\<lparr>k_mem := ?m\<rparr>)"
    using bifs_read_correct [OF f, of 1 100 64] by (simp add: NUL_def drop_Suc_Cons take_Cons' del: store_bytes.simps of_char_Char)
  have "length ?b = 4" by simp
  then have "load_bytes ?m 100 4 = ?b" using load_bytes_store_bytes [of ?b "k_mem ?k" 100] by (simp only:) simp
  moreover have "k_mem (K\<lparr>k_mem := M\<rparr>) = M" for K :: kernel and M by simp
  ultimately show ?thesis using r by metis
qed

end
