(* ===== verification/Uprog.thy ===== *)
theory Uprog
  imports Kprintf
begin

text \<open>
  User programs as seen from the kernel: a program is a function from the
  answers it gets to the system calls it makes (\<^verbatim>\<open>user/inc/usyscalls.h\<close>) and
  the way it ends. The answers are free, so a statement about a program holds
  for every kernel; the kernel's side of the calls is in the theories \<open>Proc\<close>
  and \<open>Syscall\<close>. The theory also holds the output functions of
  \<^verbatim>\<open>user/src/user-printf.c\<close>.
\<close>

section \<open>System calls and their answers\<close>

text \<open>\<open>sysinfo_t\<close>, \<open>pinfo_t\<close>, \<open>dirent_t\<close> and \<open>wait_cond_t\<close> of \<^verbatim>\<open>include/syscalls.h\<close>.\<close>

record sysinfo_t =
  si_totalram :: u32
  si_freeram :: u32
  si_procs :: u32
  si_unclaimed_start :: regsize
  si_unclaimed_end :: regsize

record pinfo_t =
  pi_pid :: u32
  pi_name :: string
  pi_state :: u32
  pi_nscheds :: regsize

record dirent_t =
  de_flags :: u32
  de_name :: string

record wait_cond_u =
  wc_type :: u32
  wc_target_pid :: u32
  wc_want_nscheds :: regsize

text \<open>
  A call with its arguments; for a pointer the object it points to (a null
  pointer is \<open>None\<close>). The objects that a call fills in are in the answer.
\<close>

datatype ucall =
    UExit u32
  | UFork
  | URead u32 u32
  | UWrite u32 string u32
  | UOpen "string option" u32
  | UClose u32
  | UWait "wait_cond_u option"
  | UExecv "string option" "string list"
  | UGetpid
  | UDup u32
  | UPipe
  | USysinfo
  | USleep regsize
  | UPlist u32
  | UPinfo u32
  | UPgalloc
  | UPgfree regsize
  | UGpio u32 u32 u32
  | UDetach
  | UIsopen u32
  | UPipeattch u32 u32
  | ULsdir string u32

text \<open>
  The answer: the value in register a0, the error number, and the contents of
  the object whose address was passed (for \<open>pgalloc\<close> of the new page) when the
  call returns.
\<close>

datatype udata =
    NoData
  | Bytes string
  | Words "u32 list"
  | Sysinfo sysinfo_t
  | Pinfo pinfo_t
  | Dirents "dirent_t list"

record uans =
  a_ret :: regsize
  a_errno :: u32
  a_data :: udata

section \<open>Programs\<close>

text \<open>
  How a program stops: it returns a value, it has called \<open>exit\<close>, it waits for
  the answer to its last call, or it goes wrong (or loops without a call).
\<close>

datatype 'a uout = Val 'a | Exited | Waiting | Crash fault

type_synonym 'a uprog = "uans list \<Rightarrow> ucall list \<times> 'a uout \<times> uans list"

definition ret :: "'a \<Rightarrow> 'a uprog" where
  "ret v as = ([], Val v, as)"

definition crash :: "fault \<Rightarrow> 'a uprog" where
  "crash e as = ([], Crash e, as)"

fun after :: "ucall list \<Rightarrow> ucall list \<times> 'a uout \<times> uans list \<Rightarrow> ucall list \<times> 'a uout \<times> uans list" where
  "after l (l', r, as) = (l @ l', r, as)"

definition ubind :: "'a uprog \<Rightarrow> ('a \<Rightarrow> 'b uprog) \<Rightarrow> 'b uprog" where
  "ubind m f as = (case m as of
       (l, Val v, as) \<Rightarrow> after l (f v as)
     | (l, Exited, as) \<Rightarrow> (l, Exited, as)
     | (l, Waiting, as) \<Rightarrow> (l, Waiting, as)
     | (l, Crash e, as) \<Rightarrow> (l, Crash e, as))"

definition useq :: "'a uprog \<Rightarrow> 'b uprog \<Rightarrow> 'b uprog" where
  "useq m n = ubind m (\<lambda>_. n)"

definition lift :: "'a res \<Rightarrow> 'a uprog" where
  "lift r = (case r of Inl e \<Rightarrow> crash e | Inr v \<Rightarrow> ret v)"

fun ecall :: "ucall \<Rightarrow> uans uprog" where
  "ecall c [] = ([c], Waiting, [])"
| "ecall c (a # as) = ([c], Val a, as)"

definition uexit :: "int \<Rightarrow> 'a uprog" where
  "uexit status as = ([UExit (of_int status)], Exited, as)"

text \<open>
  A loop whose rounds make a system call: \<open>Inl\<close> is the state of the next round,
  \<open>Inr\<close> leaves the loop. A round that takes no answer would be repeated for ever.
\<close>

function uloop :: "('s \<Rightarrow> ('s + 'a) uprog) \<Rightarrow> 's \<Rightarrow> 'a uprog" where
  "uloop body s as = (case body s as of
       (l, Val (Inl s'), as') \<Rightarrow>
         if length as' < length as then after l (uloop body s' as') else (l, Crash Diverges, as')
     | (l, Val (Inr v), as') \<Rightarrow> (l, Val v, as')
     | (l, Exited, as') \<Rightarrow> (l, Exited, as')
     | (l, Waiting, as') \<Rightarrow> (l, Waiting, as')
     | (l, Crash e, as') \<Rightarrow> (l, Crash e, as'))"
  by pat_completeness auto
termination
  by (relation "measure (\<lambda>(body, s, as). length as)") auto

declare uloop.simps [simp del]

text \<open>Register values as the C types of the variables that receive them.\<close>

definition ret32 :: "uans \<Rightarrow> u32" where
  "ret32 a = ucast (a_ret a)"

definition bytes_of :: "uans \<Rightarrow> string res" where
  "bytes_of a = (case a_data a of Bytes s \<Rightarrow> Inr s | _ \<Rightarrow> Inl BadCast)"

definition words_of :: "uans \<Rightarrow> u32 list res" where
  "words_of a = (case a_data a of Words ws \<Rightarrow> Inr ws | _ \<Rightarrow> Inl BadCast)"

definition elem :: "'a list \<Rightarrow> nat \<Rightarrow> 'a res" where
  "elem xs i = (if i < length xs then Inr (xs ! i) else Inl OutOfBounds)"

text \<open>\<open>s[i]\<close> of a zero-terminated string.\<close>

definition sat :: "string \<Rightarrow> nat \<Rightarrow> char res" where
  "sat s i = elem (s @ [NUL]) i"

section \<open>Output\<close>

abbreviation LF :: string where "LF \<equiv> [CHR 0x0A]"

definition prints :: "string \<Rightarrow> u32 uprog" where
  "prints str = ubind (ecall (UWrite 1 str (- 1))) (\<lambda>a. ret (ret32 a))"

text \<open>An argument of \<open>printf\<close>: a register value or a pointer to a string.\<close>

datatype uarg = Num regsize | Str "string option"

definition arg_reg :: "nat \<Rightarrow> uarg \<Rightarrow> regsize" where
  "arg_reg i x = (case x of Num v \<Rightarrow> v | Str _ \<Rightarrow> of_nat i)"

definition arg_regs :: "uarg list \<Rightarrow> regsize list" where
  "arg_regs xs = take 7 (map (\<lambda>i. arg_reg i (xs ! i)) [0..<length xs] @ replicate 7 0)"

definition arg_str :: "uarg list \<Rightarrow> regsize \<Rightarrow> string res" where
  "arg_str xs p = bnd (elem xs (unat p)) (\<lambda>x. case x of
       Num _ \<Rightarrow> Inl BadCast | Str None \<Rightarrow> Inl NullDeref | Str (Some s) \<Rightarrow> Inr s)"

definition USER_PAGE_SIZE :: nat where [simp, kconsts]: "USER_PAGE_SIZE = 4096"

definition printfvec :: "(regsize \<Rightarrow> string res) \<Rightarrow> string \<Rightarrow> regsize list \<Rightarrow> u32 uprog" where
  "printfvec rd fmt args =
     ubind (ecall UPgalloc) (\<lambda>pg.
     if a_ret pg = 0 then useq (prints (''OOM'' @ LF)) (ret (- 1))
     else
       ubind (lift (bytes_of pg)) (\<lambda>buf.
       ubind (lift (printfvecbuf rd fmt args 7 buf (int USER_PAGE_SIZE - 1))) (\<lambda>(buf_written, buf).
       ubind (lift (put buf (nat buf_written) NUL)) (\<lambda>buf.
       ubind (ecall (UWrite 1 buf (of_int buf_written))) (\<lambda>w.
       useq (ecall (UPgfree (a_ret pg))) (ret (ret32 w)))))))"

text \<open>\<open>printf\<close> of \<^verbatim>\<open>user/src/user-printf.S\<close> passes on the seven argument registers; those without an argument are 0.\<close>

definition printf :: "string \<Rightarrow> uarg list \<Rightarrow> u32 uprog" where
  "printf fmt xs = printfvec (arg_str xs) fmt (arg_regs xs)"

section \<open>Laws of the program combinators\<close>

lemma after_after [simp]: "after l (after l' r) = after (l @ l') r"
  by (cases r) simp

lemma after_Nil [simp]: "after [] r = r"
  by (cases r) simp

lemma ubind_ret [simp]: "ubind (ret v) f = f v"
  by (rule ext) (simp add: ubind_def ret_def)

lemma ubind_crash [simp]: "ubind (crash e) f = crash e"
  by (rule ext) (simp add: ubind_def crash_def)

lemma ubind_uexit [simp]: "ubind (uexit c) f = uexit c"
  by (rule ext) (simp add: ubind_def uexit_def)

lemma ubind_assoc [simp]: "ubind (ubind m f) g = ubind m (\<lambda>x. ubind (f x) g)"
proof
  fix as
  have "ubind m (\<lambda>x. ubind (f x) g) as = ubind (ubind m f) g as"
  proof (cases "m as")
    case (fields l r as')
    show ?thesis
    proof (cases r)
      case (Val v)
      show ?thesis
        by (cases "f v as'"; cases "fst (snd (f v as'))") (auto simp: ubind_def fields Val)
    qed (auto simp: ubind_def fields)
  qed
  then show "ubind (ubind m f) g as = ubind m (\<lambda>x. ubind (f x) g) as" by simp
qed

lemma lift_Inr [simp]: "lift (Inr v) = ret v"
  by (simp add: lift_def)

lemma lift_Inl [simp]: "lift (Inl e) = crash e"
  by (simp add: lift_def)

lemma ubind_ecall [simp]:
  "ubind (ecall c) f (a # as) = after [c] (f a as)"
  "ubind (ecall c) f [] = ([c], Waiting, [])"
  by (simp_all add: ubind_def)

lemma ubind_val: "m as = (l, Val v, as') \<Longrightarrow> ubind m f as = after l (f v as')"
  by (simp add: ubind_def)

lemma ubind_if: "ubind (if b then m else n) f = (if b then ubind m f else ubind n f)"
  by simp

lemma uloop_more:
  "body s as = (l, Val (Inl s'), as') \<Longrightarrow> length as' < length as \<Longrightarrow> uloop body s as = after l (uloop body s' as')"
  by (subst uloop.simps) simp

lemma uloop_done: "body s as = (l, Val (Inr v), as') \<Longrightarrow> uloop body s as = (l, Val v, as')"
  by (subst uloop.simps) simp

lemma uloop_exit: "body s as = (l, Exited, as') \<Longrightarrow> uloop body s as = (l, Exited, as')"
  by (subst uloop.simps) simp

lemma uloop_waits: "body s as = (l, Waiting, as') \<Longrightarrow> uloop body s as = (l, Waiting, as')"
  by (subst uloop.simps) simp

end
