(* ===== verification/Userland.thy ===== *)
theory Userland
  imports Uprog
begin

text \<open>
  The user programs of \<^verbatim>\<open>user/src/userland.c\<close>, one definition per program and
  one per loop. \<open>argv\<close> is the list of arguments, \<open>argc\<close> its length; the pointer
  behind the last argument is null.
\<close>

section \<open>Arguments\<close>

definition argv_at :: "string list \<Rightarrow> nat \<Rightarrow> string option res" where
  "argv_at argv i = elem (map Some argv @ [None]) i"

definition argc :: "string list \<Rightarrow> int" where
  "argc argv = int (length argv)"

text \<open>\<open>argv[1][0] == '-' && argv[1][1] == c\<close>, the second test only after the first.\<close>

definition is_flag :: "char \<Rightarrow> string \<Rightarrow> bool res" where
  "is_flag c arg =
     bnd (sat arg 0) (\<lambda>x. if x = CHR ''-'' then bnd (sat arg 1) (\<lambda>y. Inr (y = c)) else Inr False)"

section \<open>Small programs\<close>

definition u_main_hello :: "int uprog" where
  "u_main_hello =
     useq (prints (''Hello from hellosayer 1'' @ LF)) (
     ubind (ecall UPgalloc) (\<lambda>mem.
     if a_ret mem = 0 then crash NullDeref else
     useq (prints (''yo!'' @ LF)) (
     useq (ecall (UPgfree (a_ret mem))) (uexit 0))))"

definition fmt :: string where
  "fmt = ''formatted string: num=%d, zero=%d, char=%c, hex=0x%x, str=%s'' @ LF"

definition fmt2 :: string where
  "fmt2 = ''only groks 7 args: %d %d %d %d %d %d %d %d %d'' @ LF"

definition u_main_fmt :: "int uprog" where
  "u_main_fmt =
     useq (printf fmt [Num 387, Num 0, Num (of_char CHR ''X''), Num 0xaddbeef, Str (Some ''foo'')]) (
     useq (printf fmt2 [Num 11, Num 12, Num 13, Num 14, Num 15, Num 16, Num 17, Num 18, Num 19]) (uexit 0))"

definition sysinfo_fmt :: string where
  "sysinfo_fmt = ''Total RAM: %d'' @ LF @ ''Free RAM: %d'' @ LF @ ''Num procs: %d'' @ LF"

definition unclaimed_mem_fmt :: string where
  "unclaimed_mem_fmt = ''Unclaimed mem: 0x%x-0x%x (%d bytes)'' @ LF"

text \<open>A 32-bit value in a 64-bit argument register is sign-extended.\<close>

definition u_main_sysinfo :: "string list \<Rightarrow> int uprog" where
  "u_main_sysinfo argv =
     ubind (ecall USysinfo) (\<lambda>a.
     ubind (case a_data a of Sysinfo i \<Rightarrow> ret i | _ \<Rightarrow> crash BadCast) (\<lambda>info.
     useq (printf sysinfo_fmt [Num (scast (si_totalram info)), Num (scast (si_freeram info)), Num (scast (si_procs info))]) (
     useq (if argc argv > 1 \<and> ustrncmp (argv ! 1) ''-f'' 2 = 0
           then printf unclaimed_mem_fmt [Num (si_unclaimed_start info), Num (si_unclaimed_end info),
                  Num (si_unclaimed_end info - si_unclaimed_start info)]
           else ret 0) (uexit 0))))"

definition u_main_hanger :: "int uprog" where
  "u_main_hanger = useq (prints (''I will hang now, bye'' @ LF)) (useq (ecall (UWait None)) (ret 0))"

text \<open>An endless loop without a call.\<close>

definition u_main_coma :: "int uprog" where
  "u_main_coma = crash Diverges"

section \<open>ps\<close>

definition ps_header_fmt :: string where "ps_header_fmt = ''ST  PID   NSCH   NAME'' @ LF"
definition ps_process_info_fmt :: string where "ps_process_info_fmt = ''%c   %d     %d      %s'' @ LF"
definition ps_state_lookup_table :: string where "ps_state_lookup_table = ''AGRSZ''"

text \<open>The bound is not tight: state 5 is looked up behind the table.\<close>

definition state_to_char :: "u32 \<Rightarrow> char res" where
  "state_to_char state =
     (if unat state > length ps_state_lookup_table then Inr (CHR ''U'') else elem ps_state_lookup_table (unat state))"

text \<open>The loop over \<open>i < num_pids\<close>, both compared as unsigned numbers; \<open>status < 0\<close> of an unsigned status is false.\<close>

fun ps_loop :: "nat \<Rightarrow> nat \<Rightarrow> u32 list \<Rightarrow> bool \<Rightarrow> u32 \<Rightarrow> unit uprog" where
  "ps_loop 0 i pids skip_self my_pid = ret ()"
| "ps_loop (Suc n) i pids skip_self my_pid =
     ubind (lift (elem pids i)) (\<lambda>pid.
     if skip_self \<and> pid = my_pid then ps_loop n (i + 1) pids skip_self my_pid
     else
       ubind (ecall (UPinfo pid)) (\<lambda>a.
       ubind (case a_data a of Pinfo p \<Rightarrow> ret p | _ \<Rightarrow> crash BadCast) (\<lambda>info.
       ubind (lift (state_to_char (pi_state info))) (\<lambda>c.
       useq (printf ps_process_info_fmt [Num (of_char c), Num (scast (pi_pid info)), Num (pi_nscheds info),
               Str (Some (pi_name info))])
         (ps_loop n (i + 1) pids skip_self my_pid)))))"

definition u_main_ps :: "string list \<Rightarrow> int uprog" where
  "u_main_ps argv =
     ubind (ecall (UPlist 8)) (\<lambda>a.
     ubind (lift (words_of a)) (\<lambda>pids.
     let num_pids = ret32 a; skip_self = (argc argv > 1 \<and> ustrncmp ''-s'' (argv ! 1) 2 = 0) in
     ubind (if skip_self then ubind (ecall UGetpid) (\<lambda>a. ret (ret32 a)) else ret (- 1)) (\<lambda>my_pid.
     useq (printf ps_header_fmt []) (
     useq (ps_loop (unat num_pids) 0 pids skip_self my_pid) (uexit 0)))))"

section \<open>cat and wc\<close>

definition err_fmt :: string where "err_fmt = ''ERROR: open fd=-1, errno=%d'' @ LF"

text \<open>One round of \<open>while (1)\<close>: read up to 64 characters and write them out.\<close>

definition cat_round :: "u32 \<Rightarrow> unit \<Rightarrow> (unit + unit) uprog" where
  "cat_round fd u =
     ubind (ecall (URead fd 64)) (\<lambda>a.
     let nread = ret32 a in
     if nread = - 1 then useq (prints (''ERROR: read=-1'' @ LF)) (uexit (- 1))
     else if nread = 0 then ret (Inr ())
     else
       ubind (lift (bytes_of a)) (\<lambda>fbuf.
       ubind (ecall (UWrite 1 fbuf nread)) (\<lambda>w.
       if ret32 w = - 1 then useq (prints (''ERROR: write=-1'' @ LF)) (uexit (- 1))
       else ret (Inl ()))))"

definition u_main_cat :: "string list \<Rightarrow> int uprog" where
  "u_main_cat argv =
     (if argc argv < 2 then uexit 0
      else
        ubind (lift (is_flag (CHR ''n'') (argv ! 1))) (\<lambda>append_newline.
        ubind (lift (argv_at argv (if append_newline then 2 else 1))) (\<lambda>path.
        ubind (ecall (UOpen path 0)) (\<lambda>a.
        let fd = ret32 a in
        if fd = - 1 then useq (printf err_fmt [Num (scast (a_errno a))]) (uexit (- 1))
        else
          useq (uloop (cat_round fd) ()) (
          useq (if append_newline then prints LF else ret 0) (
          useq (ecall (UClose fd)) (uexit 0)))))))"

definition wc_count_fmt :: string where "wc_count_fmt = ''%d'' @ LF"
definition wc_open_err_fmt :: string where "wc_open_err_fmt = ''ERROR: open=-1, errno=%d'' @ LF"

text \<open>\<open>fbuf[i]\<close> for \<open>i < nread\<close>, as a signed number.\<close>

definition count_newlines :: "string \<Rightarrow> u32 \<Rightarrow> u32 res" where
  "count_newlines fbuf nread =
     (let n = nat (sint nread) in
      if n \<le> length fbuf then Inr (of_nat (count_list (take n fbuf) (CHR 0x0A))) else Inl OutOfBounds)"

definition wc_round :: "u32 \<Rightarrow> u32 \<times> u32 \<Rightarrow> (u32 \<times> u32 + u32 \<times> u32) uprog" where
  "wc_round fd = (\<lambda>(charcount, linecount).
     ubind (ecall (URead fd 64)) (\<lambda>a.
     let nread = ret32 a in
     if nread = 0 then ret (Inr (charcount, linecount))
     else if nread = - 1 then useq (prints (''ERROR: read=-1'' @ LF)) (uexit (- 1))
     else
       ubind (lift (bytes_of a)) (\<lambda>fbuf.
       ubind (lift (count_newlines fbuf nread)) (\<lambda>newlines.
       ret (Inl (charcount + nread, linecount + newlines))))))"

definition u_main_wc :: "string list \<Rightarrow> int uprog" where
  "u_main_wc argv =
     ubind (if argc argv > 1 then lift (is_flag (CHR ''l'') (argv ! 1)) else ret False) (\<lambda>count_lines.
     let i = (if count_lines then 2 else 1) in
     ubind (if argc argv > i then
              ubind (ecall (UOpen (Some (argv ! nat i)) 0)) (\<lambda>a. ret (ret32 a, a_errno a))
            else ret (0, 0)) (\<lambda>(fd, err).
     if fd = - 1 then useq (printf wc_open_err_fmt [Num (scast err)]) (uexit (- 1))
     else
       ubind (uloop (wc_round fd) (0, 0)) (\<lambda>(charcount, linecount).
       useq (if fd \<noteq> 0 then useq (ecall (UClose fd)) (ret ()) else ret ()) (
       useq (printf wc_count_fmt [Num (scast (if count_lines then linecount else charcount))]) (uexit 0)))))"

section \<open>gpio and iter\<close>

definition map_gpio_pin_num :: "int \<Rightarrow> int" where
  "map_gpio_pin_num num =
     (case map_of [(0, 16), (1, 17), (2, 18), (3, 19), (4, 20), (5, 21), (6, 22), (7, 23), (8, 0), (9, 1), (10, 2),
        (11, 3), (12, 4), (13, 5), (14, - 1), (15, 9), (16, 10), (17, 11), (18, 12), (19, 13)] num of
        Some pin \<Rightarrow> pin | None \<Rightarrow> - 1)"

definition gpio_usage :: string where
  "gpio_usage = ''usage:'' @ LF @ ''gpio N e      enable pin N for writing'' @ LF @
     ''gpio N d      disable pin N for writing'' @ LF @ ''gpio N 1      write 1 to pin N'' @ LF @
     ''gpio N 0      write 0 to pin N'' @ LF @ ''gpio N t      toggle the current value of N'' @ LF"

definition gpio_parse_err_fmt :: string where
  "gpio_parse_err_fmt = ''ERROR: parse pin_num '' @ [CHR 0x27] @ ''%s'' @ [CHR 0x27] @ '': %d'' @ LF"

definition gpio_syscall_err_fmt :: string where
  "gpio_syscall_err_fmt = ''ERROR: gpio syscall: %d'' @ LF"

text \<open>The \<open>switch\<close> over the second argument: the arguments \<open>enable\<close> and \<open>value\<close> of the call.\<close>

definition gpio_action :: "char \<Rightarrow> (u32 \<times> u32) option" where
  "gpio_action c = map_of [(CHR ''e'', (1, 0)), (CHR ''d'', (0, 0)), (CHR ''0'', (- 1, 0)), (CHR ''1'', (- 1, 1)),
     (CHR ''t'', (- 1, 2))] c"

definition u_main_gpio :: "string list \<Rightarrow> int uprog" where
  "u_main_gpio argv =
     (if argc argv < 3 then useq (prints gpio_usage) (uexit (- 1))
      else
        let (pin_num, parse_err) = uatoi (argv ! 1) in
        if parse_err then useq (printf gpio_parse_err_fmt [Str (Some (argv ! 1)), Num 1]) (uexit (- 2))
        else
          ubind (lift (sat (argv ! 2) 1)) (\<lambda>c1.
          if c1 \<noteq> NUL then useq (prints (''ERROR: arg 2 must be a single character!'' @ LF)) (uexit (- 3))
          else if map_gpio_pin_num pin_num < 0 then useq (prints (''ERROR: pin mapping error'' @ LF)) (uexit (- 4))
          else
            ubind (lift (sat (argv ! 2) 0)) (\<lambda>c0.
            case gpio_action c0 of
              None \<Rightarrow>
                useq (prints ''ERROR: unrecognized arg 2: '') (useq (prints (argv ! 2)) (useq (prints LF) (uexit (- 5))))
            | Some (enable, value) \<Rightarrow>
                ubind (ecall (UGpio (of_int (map_gpio_pin_num pin_num)) enable value)) (\<lambda>a.
                if ret32 a \<noteq> 0 then useq (printf gpio_syscall_err_fmt [Num (scast (ret32 a))]) (uexit (- 6))
                else uexit 0))))"

definition iter_parse_err_fmt :: string where
  "iter_parse_err_fmt = ''ERROR: parse N '' @ [CHR 0x27] @ ''%s'' @ [CHR 0x27] @ '': %d'' @ LF"

definition iter_i_fmt :: string where "iter_i_fmt = ''%d'' @ LF"

fun iter_loop :: "nat \<Rightarrow> nat \<Rightarrow> unit uprog" where
  "iter_loop 0 i = ret ()"
| "iter_loop (Suc n) i = useq (printf iter_i_fmt [Num (of_nat i)]) (iter_loop n (i + 1))"

definition u_main_iter :: "string list \<Rightarrow> int uprog" where
  "u_main_iter argv =
     (if argc argv < 2 then
        useq (prints (''usage:'' @ LF @ ''iter N        write numbers [0..N) to stdout'' @ LF)) (uexit (- 1))
      else
        let (n, parse_err) = uatoi (argv ! 1) in
        if parse_err then useq (printf iter_parse_err_fmt [Str (Some (argv ! 1)), Num 1]) (uexit (- 2))
        else useq (iter_loop (nat n) 0) (uexit 0))"

definition testprintf_fmt :: string where
  "testprintf_fmt = ''formatted string: num=%d, zero=%d, char=%c, hex=0x%x, str=%s, ptr=%p'' @ LF"

definition u_main_test_printf :: "int uprog" where
  "u_main_test_printf =
     useq (printf testprintf_fmt [Num 387, Num 0, Num (of_char CHR ''X''), Num 0xaddbeef, Str (Some ''foo''), Num 0xaddbeef])
       (uexit 0)"

section \<open>fibd and fib\<close>

definition fibd_print_resp_fmt :: string where "fibd_print_resp_fmt = ''%d, %d'' @ LF"

definition fibd_round :: "regsize \<times> regsize \<times> u32 \<Rightarrow> ((regsize \<times> regsize \<times> u32) + unit) uprog" where
  "fibd_round = (\<lambda>(fib1, fib2, i).
     let fib = fib1 + fib2; i = i + 1 in
     ubind (ecall (UIsopen 1)) (\<lambda>a.
     useq (if a_ret a \<noteq> 0 then
             useq (printf fibd_print_resp_fmt [Num (scast i), Num fib]) (useq (ecall (UClose 1)) (ret ()))
           else ret ()) (
     useq (ecall (USleep 500)) (ret (Inl (fib2, fib, i))))))"

definition u_main_fibd :: "int uprog" where
  "u_main_fibd =
     useq (ecall (UClose 1)) (
     useq (ecall UDetach) (
     useq (uloop fibd_round (1, 1, 2)) (ret 0)))"

definition fib_parse_err_fmt :: string where
  "fib_parse_err_fmt = ''ERROR: parse pid '' @ [CHR 0x27] @ ''%s'' @ [CHR 0x27] @ '': %d'' @ LF"

text \<open>\<open>pipe\<close> and \<open>pipeattch\<close> are compared with -1 as 64-bit values; \<open>fbuf[nread]\<close> is written for a full buffer as well.\<close>

definition u_main_fib :: "string list \<Rightarrow> int uprog" where
  "u_main_fib argv =
     (if argc argv < 2 then useq (prints (''USAGE: fib <pid of fibd>'' @ LF)) (uexit 0)
      else
        let (fibd_pid, parse_err) = uatoi (argv ! 1) in
        if parse_err then useq (printf fib_parse_err_fmt [Str (Some (argv ! 1)), Num 1]) (uexit (- 1))
        else
          ubind (ecall UPipe) (\<lambda>p.
          if a_ret p = - 1 then useq (prints (''ERROR: pipe=-1'' @ LF)) (uexit (- 2))
          else
            ubind (lift (words_of p)) (\<lambda>pipefd.
            ubind (lift (elem pipefd 0)) (\<lambda>rd.
            ubind (lift (elem pipefd 1)) (\<lambda>wr.
            ubind (ecall (UPipeattch (of_int fibd_pid) wr)) (\<lambda>a.
            if a_ret a = - 1 then useq (prints (''ERROR: pipeattch=-1'' @ LF)) (uexit (- 3))
            else
              ubind (ecall (URead rd 64)) (\<lambda>r.
              let nread = ret32 r in
              if nread = - 1 then useq (prints (''ERROR: read=-1'' @ LF)) (uexit (- 4))
              else
                ubind (lift (bytes_of r)) (\<lambda>fbuf.
                ubind (lift (if sint nread < 0 then Inl OutOfBounds else put fbuf (unat nread) NUL)) (\<lambda>fbuf.
                ubind (ecall (UWrite 1 fbuf nread)) (\<lambda>w.
                if ret32 w = - 1 then useq (prints (''ERROR: write=-1'' @ LF)) (uexit (- 5))
                else useq (ecall (UClose rd)) (useq (ecall (UClose wr)) (uexit 0))))))))))))"

section \<open>wait, ls and clock\<close>

definition wait_parse_pid_err_fmt :: string where
  "wait_parse_pid_err_fmt = ''ERROR: parse pid '' @ [CHR 0x27] @ ''%s'' @ [CHR 0x27] @ '': %d'' @ LF"

definition wait_parse_nscheds_err_fmt :: string where
  "wait_parse_nscheds_err_fmt = ''ERROR: parse N schedules '' @ [CHR 0x27] @ ''%s'' @ [CHR 0x27] @ '': %d'' @ LF"

definition WAIT_COND_NSCHEDS_U :: u32 where [simp, kconsts]: "WAIT_COND_NSCHEDS_U = 1"

definition u_main_wait :: "string list \<Rightarrow> int uprog" where
  "u_main_wait argv =
     (if argc argv < 3 then useq (prints (''USAGE: wait <pid> <nscheds>'' @ LF)) (uexit 0)
      else
        let (target_pid, parse_err) = uatoi (argv ! 1) in
        if parse_err then useq (printf wait_parse_pid_err_fmt [Str (Some (argv ! 1)), Num 1]) (uexit (- 1))
        else
          let (want_nscheds, parse_err) = uatoi (argv ! 2) in
          if parse_err then useq (printf wait_parse_nscheds_err_fmt [Str (Some (argv ! 2)), Num 1]) (uexit (- 1))
          else
            useq (ecall (UWait (Some \<lparr>wc_type = WAIT_COND_NSCHEDS_U, wc_target_pid = of_int target_pid,
                   wc_want_nscheds = of_int want_nscheds\<rparr>))) (uexit 0))"

definition lsdir_err_fmt :: string where "lsdir_err_fmt = ''ERROR: lsdir status=%d, errno=%d'' @ LF"
definition list_directory_fmt :: string where "list_directory_fmt = ''<%s>'' @ LF"
definition list_executable_fmt :: string where "list_executable_fmt = ''*%s'' @ LF"
definition DIRENT_EXECUTABLE_U :: u32 where [simp, kconsts]: "DIRENT_EXECUTABLE_U = 4"
definition DIRENT_DIRECTORY_U :: u32 where [simp, kconsts]: "DIRENT_DIRECTORY_U = 0x10000"

text \<open>\<open>sizeof(dirent_t)\<close> is 20.\<close>

definition num_dirents :: nat where "num_dirents = USER_PAGE_SIZE div 20"

fun ls_loop :: "nat \<Rightarrow> nat \<Rightarrow> dirent_t list \<Rightarrow> unit uprog" where
  "ls_loop 0 i dirents = ret ()"
| "ls_loop (Suc n) i dirents =
     ubind (lift (elem dirents i)) (\<lambda>de.
     useq (if de_flags de AND DIRENT_DIRECTORY_U \<noteq> 0 then printf list_directory_fmt [Str (Some (de_name de))]
           else if de_flags de AND DIRENT_EXECUTABLE_U \<noteq> 0 then printf list_executable_fmt [Str (Some (de_name de))]
           else useq (prints (de_name de)) (prints LF)) (
     ls_loop n (i + 1) dirents))"

definition u_main_ls :: "string list \<Rightarrow> int uprog" where
  "u_main_ls argv =
     ubind (ecall UPgalloc) (\<lambda>pg.
     ubind (ecall (ULsdir (if argc argv > 1 then argv ! 1 else ''/'') (of_nat num_dirents))) (\<lambda>a.
     let status = sint (ret32 a) in
     if status < 0 then
       useq (printf lsdir_err_fmt [Num (of_int status), Num (scast (a_errno a))]) (uexit (- 1))
     else
       ubind (if status = 0 then ret [] else case a_data a of Dirents ds \<Rightarrow> ret ds | _ \<Rightarrow> crash BadCast) (\<lambda>dirents.
       useq (ls_loop (nat status) 0 dirents) (
       useq (ecall (UPgfree (a_ret pg))) (uexit 0)))))"

definition clock_parse_err_fmt :: string where
  "clock_parse_err_fmt = ''ERROR: parse n seconds '' @ [CHR 0x27] @ ''%s'' @ [CHR 0x27] @ '': %d'' @ LF"

fun erase_loop :: "nat \<Rightarrow> unit uprog" where
  "erase_loop 0 = ret ()"
| "erase_loop (Suc n) = useq (prints [CHR 0x08, CHR 0x20, CHR 0x08]) (erase_loop n)"

definition clock_round :: "int \<Rightarrow> u32 \<Rightarrow> (u32 + unit) uprog" where
  "clock_round n_secs i =
     (let i = i + 1 in
      ubind (printf ''%d'' [Num (scast i)]) (\<lambda>nwritten.
      if sint i = n_secs then useq (prints LF) (ret (Inr ()))
      else
        useq (ecall (USleep 1000)) (
        useq (erase_loop (nat (sint nwritten))) (ret (Inl i)))))"

definition u_main_clock :: "string list \<Rightarrow> int uprog" where
  "u_main_clock argv =
     (if argc argv < 2 then useq (prints (''USAGE: clock <N seconds>'' @ LF)) (uexit 0)
      else
        let (n_secs, parse_err) = uatoi (argv ! 1) in
        if parse_err then useq (printf clock_parse_err_fmt [Str (Some (argv ! 1)), Num 1]) (uexit (- 1))
        else useq (uloop (clock_round n_secs) 0) (uexit 0))"

section \<open>echo\<close>

text \<open>The arguments from \<open>args_index\<close> on, a space before each but the first.\<close>

fun echo_args :: "bool \<Rightarrow> string list \<Rightarrow> unit uprog" where
  "echo_args first [] = ret ()"
| "echo_args first (arg # args) =
     useq (if first then ret ()
           else ubind (ecall (UWrite 1 '' '' 1)) (\<lambda>w.
             if ret32 w = - 1 then useq (prints (''ERROR: write=-1'' @ LF)) (uexit (- 2)) else ret ())) (
     ubind (ecall (UWrite 1 arg (of_int (ustrlen arg)))) (\<lambda>w.
     if ret32 w = - 1 then useq (prints (''ERROR: write=-1'' @ LF)) (uexit (- 3))
     else echo_args False args))"

definition echo_round :: "unit \<Rightarrow> (unit + unit) uprog" where
  "echo_round u =
     ubind (ecall (URead 0 64)) (\<lambda>a.
     let nread = ret32 a in
     if nread = - 1 then useq (prints (''ERROR: read=-1'' @ LF)) (uexit (- 1))
     else if nread = 0 then ret (Inr ())
     else
       ubind (lift (bytes_of a)) (\<lambda>fbuf.
       ubind (ecall (UWrite 1 fbuf nread)) (\<lambda>w.
       if ret32 w = - 1 then useq (prints (''ERROR: write=-1'' @ LF)) (uexit (- 1))
       else ret (Inl ()))))"

definition u_main_echo :: "string list \<Rightarrow> int uprog" where
  "u_main_echo argv =
     ubind (if argc argv > 1 then lift (is_flag (CHR ''n'') (argv ! 1)) else ret False) (\<lambda>flag.
     let args_index = (if flag then 2 else 1); newline = (if flag then ret 0 else prints LF) in
     if args_index < argc argv then
       useq (echo_args True (drop (nat args_index) argv)) (useq newline (uexit 0))
     else useq (uloop echo_round ()) (useq newline (uexit 0)))"

end
