(* ===== verification/Tools.thy ===== *)
theory Tools
  imports Userland
begin

text \<open>
  What the user programs print: the output of \<open>printf\<close>, the copying loops of
  \<open>cat\<close> and \<open>echo\<close> (one locale with two interpretations), and the counts of
  \<open>wc\<close>. The answers of the kernel are arbitrary as far as a statement does not
  restrict them.
\<close>

section \<open>Standard output\<close>

text \<open>What a call puts on standard output; the size -1 stands for a zero-terminated string.\<close>

fun written :: "ucall \<Rightarrow> string" where
  "written (UWrite fd s n) = (if fd = 1 then (if n = - 1 then cstr s else take (unat n) s) else [])"
| "written _ = []"

definition stdout_of :: "ucall list \<Rightarrow> string" where
  "stdout_of l = concat (map written l)"

lemma stdout_of_simps [simp]:
  "stdout_of [] = []" "stdout_of (c # l) = written c @ stdout_of l" "stdout_of (l @ l') = stdout_of l @ stdout_of l'"
  by (simp_all add: stdout_of_def)

definition page_answer :: "uans \<Rightarrow> bool" where
  "page_answer a \<longleftrightarrow> a_ret a \<noteq> 0 \<and> (\<exists>s. a_data a = Bytes s \<and> length s = USER_PAGE_SIZE)"

lemma length_arg_regs [simp]: "length (arg_regs xs) = 7"
  by (simp add: arg_regs_def)

lemma unat_m1: "unat (- 1 :: u32) = 4294967295"
  by (simp add: unsigned_minus_1_eq_mask mask_eq_exp_minus_1)

lemma printf_prints:
  assumes "page_answer pg" "format_ref (arg_str xs) str (arg_regs xs) = Some out" "length out < 4000"
  shows "\<exists>l. printf str xs (pg # w # f # as) = (l, Val (ret32 w), as) \<and> stdout_of l = out"
proof -
  obtain s where s: "a_data pg = Bytes s" "length s = 4096" "a_ret pg \<noteq> 0" using assms(1) by (auto simp: page_answer_def)
  obtain b where b: "printfvecbuf (arg_str xs) str (arg_regs xs) 7 s 4095 = Inr (int (length out), b)" "buf_holds 4074 out b"
    using user_buf_sink.printf_holds [of 4074 "[]" s "arg_str xs" str 0 "arg_regs xs" out] assms(2,3) s(2)
    by (auto simp: printfvecbuf_def PRINTF_IMPL_def buf_holds_def)
  then have t: "length out < length b" "take (length out) b = out" using assms(3) by (auto simp: buf_holds_def)
  have n: "unat (of_nat (length out) :: u32) = length out" using assms(3) by (simp add: unat_of_nat)
  have m1: "(of_nat (length out) :: u32) \<noteq> - 1"  
  proof
    assume "(of_nat (length out) :: u32) = - 1"
    then show False using n assms(3) unat_m1 by simp
  qed
  show ?thesis
    using s b(1) t n m1 by (simp add: printf_def printfvec_def useq_def bytes_of_def put_def ret_def)
qed

lemma printf_number:
  assumes "page_answer pg" "n < 2 ^ 31"
  shows "\<exists>l. printf (''%d'' @ LF) [Num (scast (of_nat n :: u32))] (pg # w # f # as) = (l, Val (ret32 w), as) \<and>
    stdout_of l = signed_str 10 (int n) @ LF"
proof -
  have "sint (scast (of_nat n :: u32) :: regsize) = int n"
    using sint_of_nat32 [OF assms(2)] by (simp add: sint_up_scast is_up)
  then have "format_ref (arg_str [Num (scast (of_nat n :: u32))]) (''%d'' @ LF) (arg_regs [Num (scast (of_nat n :: u32))]) =
      Some (signed_str 10 (int n) @ LF)"
    by (simp add: arg_regs_def arg_reg_def verb_ref_def)
  moreover have "length (signed_str 10 (int n) @ LF) < 4000"
    using radix_str_length [of 10 12 n] assms(2) by (simp add: signed_str_def)
  ultimately show ?thesis by (rule printf_prints [OF assms(1)])
qed

section \<open>Reading in pieces\<close>

text \<open>An answer to \<open>read(fd, fbuf, 64)\<close> with data, and its text.\<close>

definition read_answer :: "uans \<Rightarrow> bool" where
  "read_answer a \<longleftrightarrow> 0 < unat (ret32 a) \<and> unat (ret32 a) \<le> 64 \<and> (\<exists>s. a_data a = Bytes s \<and> length s = 64)"

definition text_of :: "uans \<Rightarrow> string" where
  "text_of a = (case a_data a of Bytes s \<Rightarrow> take (unat (ret32 a)) s | _ \<Rightarrow> [])"

lemma read_answerD:
  assumes "read_answer a"
  shows "ret32 a \<noteq> 0" "ret32 a \<noteq> - 1" "bytes_of a = Inr s \<Longrightarrow> text_of a = take (unat (ret32 a)) s"
    "\<exists>s. bytes_of a = Inr s \<and> length s = 64" "length (text_of a) = unat (ret32 a)" "sint (ret32 a) = int (unat (ret32 a))"
proof -
  show "sint (ret32 a) = int (unat (ret32 a))"
    using assms sint_of_nat32 [of "unat (ret32 a)"] by (simp add: read_answer_def)
qed (use assms unat_m1 in \<open>auto simp: read_answer_def bytes_of_def text_of_def split: udata.splits\<close>)

text \<open>
  The calls of a copying loop on descriptor \<open>fd\<close>: it reads from \<open>fd\<close>, writes what
  it got to standard output and goes on, until a read answers 0.
\<close>

definition fbuf_of :: "uans \<Rightarrow> string" where
  "fbuf_of a = (case a_data a of Bytes s \<Rightarrow> s | _ \<Rightarrow> [])"

definition copy_calls :: "u32 \<Rightarrow> uans list \<Rightarrow> ucall list" where
  "copy_calls fd rs = concat (map (\<lambda>r. [URead fd 64, UWrite 1 (fbuf_of r) (ret32 r)]) rs) @ [URead fd 64]"

lemma stdout_copy_calls: "list_all read_answer rs \<Longrightarrow> stdout_of (copy_calls fd rs) = concat (map text_of rs)"
  by (induction rs) (auto simp: copy_calls_def fbuf_of_def text_of_def dest: read_answerD(2) split: udata.split)

locale copier =
  fixes fd :: u32
    and round :: "unit \<Rightarrow> (unit + unit) uprog"
  assumes copies: "read_answer r \<Longrightarrow> ret32 w \<noteq> - 1 \<Longrightarrow>
      round () (r # w # as) = ([URead fd 64, UWrite 1 (fbuf_of r) (ret32 r)], Val (Inl ()), as)"
    and ends: "ret32 e = 0 \<Longrightarrow> round () (e # as) = ([URead fd 64], Val (Inr ()), as)"
begin

lemma loop_copies:
  "\<forall>(r, w) \<in> set rws. read_answer r \<and> ret32 w \<noteq> - 1 \<Longrightarrow> ret32 e = 0 \<Longrightarrow>
   uloop round () (concat (map (\<lambda>(r, w). [r, w]) rws) @ e # as) = (copy_calls fd (map fst rws), Val (), as)"
proof (induction rws)
  case Nil
  then show ?case using uloop_done [of round "()" "e # as"] ends [of e as] by (simp add: copy_calls_def)
next
  case (Cons rw rws)
  obtain r w where rw: "rw = (r, w)" by fastforce
  let ?as = "concat (map (\<lambda>(r, w). [r, w]) rws) @ e # as"
  have "round () (r # w # ?as) = ([URead fd 64, UWrite 1 (fbuf_of r) (ret32 r)], Val (Inl ()), ?as)"
    using copies [of r w ?as] Cons.prems rw by auto
  moreover have "uloop round () ?as = (copy_calls fd (map fst rws), Val (), as)" using Cons by auto
  ultimately show ?case using uloop_more [of round "()"] rw by (simp add: copy_calls_def)
qed

end

interpretation cat: copier fd "cat_round fd" for fd
proof
  show "cat_round fd () (r # w # as) = ([URead fd 64, UWrite 1 (fbuf_of r) (ret32 r)], Val (Inl ()), as)"
    if "read_answer r" "ret32 w \<noteq> - 1" for r w as
    using read_answerD(1,2) [OF that(1)] that by (auto simp: cat_round_def ret_def Let_def read_answer_def bytes_of_def fbuf_of_def)
qed (simp add: cat_round_def ret_def)

interpretation echo: copier 0 echo_round
proof
  show "echo_round () (r # w # as) = ([URead 0 64, UWrite 1 (fbuf_of r) (ret32 r)], Val (Inl ()), as)"
    if "read_answer r" "ret32 w \<noteq> - 1" for r w as
    using read_answerD(1,2) [OF that(1)] that by (auto simp: echo_round_def ret_def Let_def read_answer_def bytes_of_def fbuf_of_def)
qed (simp add: echo_round_def ret_def)

section \<open>wc\<close>

lemma wc_round_counts:
  assumes "read_answer r"
  shows "wc_round fd (c, n) (r # as) = ([URead fd 64], Val (Inl (c + of_nat (length (text_of r)),
    n + of_nat (count_list (text_of r) (CHR 0x0A)))), as)"
proof -
  obtain s where s: "bytes_of r = Inr s" "length s = 64" using read_answerD(4) [OF assms] by auto
  have "count_newlines s (ret32 r) = Inr (of_nat (count_list (text_of r) (CHR 0x0A)))"
    using s read_answerD(3,6) [OF assms] assms by (simp add: count_newlines_def read_answer_def)
  then show ?thesis
    using s(1) read_answerD(1,2,5) [OF assms] by (simp add: wc_round_def ret_def)
qed

lemma wc_loop_counts:
  "list_all read_answer rs \<Longrightarrow> ret32 e = 0 \<Longrightarrow>
   \<exists>l. uloop (wc_round fd) (c, n) (rs @ e # as) = (l, Val (c + of_nat (length (concat (map text_of rs))),
     n + of_nat (count_list (concat (map text_of rs)) (CHR 0x0A))), as) \<and> stdout_of l = []"
proof (induction rs arbitrary: c n)
  case Nil
  have "wc_round fd (c, n) (e # as) = ([URead fd 64], Val (Inr (c, n)), as)"
    using Nil by (simp add: wc_round_def ret_def)
  then show ?case using uloop_done by fastforce
next
  case (Cons r rs)
  let ?c = "c + of_nat (length (text_of r))" and ?n = "n + of_nat (count_list (text_of r) (CHR 0x0A))"
  obtain l where "uloop (wc_round fd) (?c, ?n) (rs @ e # as) = (l, Val (?c + of_nat (length (concat (map text_of rs))),
     ?n + of_nat (count_list (concat (map text_of rs)) (CHR 0x0A))), as)" "stdout_of l = []"
    using Cons by fastforce
  moreover have "uloop (wc_round fd) (c, n) (r # rs @ e # as) = after [URead fd 64] (uloop (wc_round fd) (?c, ?n) (rs @ e # as))"
    using Cons.prems by (intro uloop_more wc_round_counts) auto
  ultimately show ?case by (simp add: add.assoc)
qed

section \<open>Properties\<close>

text \<open>
  C30: \<open>cat\<close> copies the named file. When the file opens, the reads answer pieces of
  1 to 64 characters until one answers 0, and no write fails, the calls of
  \<open>cat\<close> are exactly: the open of that path, reads from the descriptor it got, each
  followed by a write of its piece to standard output, the newline under \<open>-n\<close>,
  the close of that descriptor, and exit 0. \<open>echo\<close> without text does the same
  with descriptor 0, its standard input, and writes the newline unless \<open>-n\<close> is
  given. What such reads and writes put on standard output is the
  concatenation of the pieces in order.
\<close>

theorem cat_copies:
  assumes "\<forall>(r, w) \<in> set rws. read_answer r \<and> ret32 w \<noteq> - 1" "ret32 e = 0" "ret32 fd \<noteq> - 1"
    "is_flag (CHR ''n'') path = Inr False"
  defines "ans \<equiv> concat (map (\<lambda>(r, w). [r, w]) rws)" and "rs \<equiv> map fst rws"
  shows "u_main_cat [''cat'', path] (fd # ans @ e # c # as) =
      (UOpen (Some path) 0 # copy_calls (ret32 fd) rs @ [UClose (ret32 fd), UExit 0], Exited, as) \<and>
    u_main_cat [''cat'', ''-n'', path] (fd # ans @ e # p # c # as) =
      (UOpen (Some path) 0 # copy_calls (ret32 fd) rs @ [UWrite 1 LF (- 1), UClose (ret32 fd), UExit 0], Exited, as) \<and>
    u_main_echo [''echo''] (ans @ e # p # as) = (copy_calls 0 rs @ [UWrite 1 LF (- 1), UExit 0], Exited, as) \<and>
    u_main_echo [''echo'', ''-n''] (ans @ e # as) = (copy_calls 0 rs @ [UExit 0], Exited, as) \<and>
    stdout_of (copy_calls d rs) = concat (map text_of rs)"
proof (intro conjI)
  have c: "uloop (cat_round (ret32 fd)) () (ans @ e # bs) = (copy_calls (ret32 fd) rs, Val (), bs)" for bs
    unfolding ans_def rs_def by (rule cat.loop_copies [OF assms(1,2)])
  have ec: "uloop echo_round () (ans @ e # bs) = (copy_calls 0 rs, Val (), bs)" for bs
    unfolding ans_def rs_def by (rule echo.loop_copies [OF assms(1,2)])
  note defs = argc_def argv_at_def elem_def is_flag_def sat_def useq_def Let_def ubind_val uexit_def prints_def ret_def
  show "u_main_cat [''cat'', path] (fd # ans @ e # c # as) =
      (UOpen (Some path) 0 # copy_calls (ret32 fd) rs @ [UClose (ret32 fd), UExit 0], Exited, as)"
    using c [of "c # as"] assms(3,4)
    by (simp add: u_main_cat_def argc_def argv_at_def elem_def useq_def Let_def ubind_val uexit_def)
  show "u_main_cat [''cat'', ''-n'', path] (fd # ans @ e # p # c # as) =
      (UOpen (Some path) 0 # copy_calls (ret32 fd) rs @ [UWrite 1 LF (- 1), UClose (ret32 fd), UExit 0], Exited, as)"
    using c [of "p # c # as"] assms(3) by (simp add: u_main_cat_def defs)
  show "u_main_echo [''echo''] (ans @ e # p # as) = (copy_calls 0 rs @ [UWrite 1 LF (- 1), UExit 0], Exited, as)"
    "u_main_echo [''echo'', ''-n''] (ans @ e # as) = (copy_calls 0 rs @ [UExit 0], Exited, as)"
    using ec [of "p # as"] ec [of as] by (simp_all add: u_main_echo_def defs)
  show "stdout_of (copy_calls d rs) = concat (map text_of rs)"
    using assms(1) by (intro stdout_copy_calls) (auto simp: rs_def list_all_iff)
qed

text \<open>A file of three characters, read in one piece.\<close>

definition three :: uans where
  "three = \<lparr>a_ret = 3, a_errno = 0, a_data = Bytes (''a'' @ LF @ ''b'' @ replicate 61 NUL)\<rparr>"

definition ok :: "regsize \<Rightarrow> uans" where
  "ok v = \<lparr>a_ret = v, a_errno = 0, a_data = NoData\<rparr>"

lemma three_read: "read_answer three" "text_of three = ''a'' @ LF @ ''b''" "ret32 (ok v) = ucast v"
  by (simp_all add: three_def read_answer_def text_of_def ret32_def ok_def)

theorem cat_copies_witness:
  "u_main_cat [''cat'', ''f''] [ok 4, three, ok 3, ok 0, ok 0] =
     ([UOpen (Some ''f'') 0, URead 4 64, UWrite 1 (''a'' @ LF @ ''b'' @ replicate 61 NUL) 3, URead 4 64, UClose 4, UExit 0], Exited, [])"
  using conjunct1 [OF cat_copies [of "[(three, ok 3)]" "ok 0" "ok 4" "''f''" "ok 0" "[]"]]
  by (simp add: three_read is_flag_def sat_def elem_def copy_calls_def fbuf_of_def) (simp add: three_def ret32_def ok_def)

text \<open>
  \<open>wc\<close> counts: when the file opens and is delivered in pieces of at most 64
  characters, it prints the number of characters, or with \<open>-l\<close> of newlines, in
  decimal on a line, and exits, for a file of less than 2^31 characters.
\<close>

theorem wc_counts:
  assumes "list_all read_answer rs" "ret32 e = 0" "ret32 fd \<noteq> - 1" "ret32 fd \<noteq> 0" "page_answer pg"
    "length (concat (map text_of rs)) < 2 ^ 31" "is_flag (CHR ''l'') path = Inr False"
  shows "\<exists>l. u_main_wc (''wc'' # (if lines then [''-l''] else []) @ [path]) (fd # rs @ e # c # pg # w # f # as) =
      (l @ [UExit 0], Exited, as) \<and>
    stdout_of l = signed_str 10 (int (if lines then count_list (concat (map text_of rs)) (CHR 0x0A)
      else length (concat (map text_of rs)))) @ LF"
proof -
  let ?t = "concat (map text_of rs)"
  let ?n = "if lines then count_list ?t (CHR 0x0A) else length ?t"
  obtain l where l: "uloop (wc_round (ret32 fd)) (0, 0) (rs @ e # c # pg # w # f # as) =
      (l, Val (of_nat (length ?t), of_nat (count_list ?t (CHR 0x0A))), c # pg # w # f # as)" "stdout_of l = []"
    using wc_loop_counts [OF assms(1,2), of "ret32 fd" 0 0 "c # pg # w # f # as"] by auto
  have "?n < 2 ^ 31" using count_le_length [of ?t "CHR 0x0A"] assms(6) by auto
  from printf_number [OF assms(5) this] obtain l' where
    l': "printf (''%d'' @ LF) [Num (scast (of_nat ?n :: u32))] (pg # w # f # as) = (l', Val (ret32 w), as)"
      "stdout_of l' = signed_str 10 (int ?n) @ LF" by blast
  show ?thesis
    using l l' assms(3,4,7)
    by (intro exI [of _ "UOpen (Some path) 0 # l @ UClose (ret32 fd) # l'"], cases lines)
      (simp_all add: u_main_wc_def wc_count_fmt_def argc_def is_flag_def sat_def elem_def useq_def Let_def ubind_val uexit_def ret_def)
qed

theorem wc_counts_witness:
  "\<exists>l. u_main_wc [''wc'', ''-l'', ''f''] [ok 4, three, three, ok 0, ok 0, ok 4096\<lparr>a_data := Bytes (replicate 4096 NUL)\<rparr>, ok 2, ok 0] =
     (l @ [UExit 0], Exited, []) \<and> stdout_of l = ''2'' @ LF"
proof -
  have "signed_str 10 2 = ''2''" by (simp add: signed_str_def radix_str.simps digit_char_of_def char_of_def bit_0)
  moreover have "page_answer (ok 4096\<lparr>a_data := Bytes (replicate 4096 NUL)\<rparr>)"
    by (simp add: page_answer_def ok_def)
  ultimately show ?thesis
    using wc_counts [of "[three, three]" "ok 0" "ok 4" _ "''f''" True "ok 0" "ok 2" "ok 0" "[]"]
    by (simp add: three_read is_flag_def sat_def elem_def)
qed

end
