(* ===== verification/Shell.thy ===== *)
theory Shell
  imports Uprog
begin

text \<open>
  The shell (\<^verbatim>\<open>user/src/shell.c\<close>, \<^verbatim>\<open>user/inc/shell.h\<close>): the pool of command
  slots, the splitting of a line into commands and words, the creation of a
  pipeline and the two main loops. A pointer into the pool page is a value of
  \<open>sptr\<close>; the array \<open>args\<close> of a command is followed by its field \<open>next\<close>, so the
  index 4 reaches \<open>next\<close>.
\<close>

section \<open>Commands\<close>

definition ARGV_BUF_SIZE :: nat where [simp, kconsts]: "ARGV_BUF_SIZE = 4"
definition CMD_BUF_SIZE :: nat where [simp, kconsts]: "CMD_BUF_SIZE = 32"

text \<open>A null pointer, a pointer into \<open>buf\<close> of the same command, a pointer to a command of the pool.\<close>

datatype sptr = SNull | SBuf nat | SCmd nat

record cmd_t =
  c_buf :: string
  c_args :: "sptr list"
  c_next :: sptr

record cmdbuf_t =
  cb_pool :: "cmd_t list"
  cb_count :: int

definition set_arg :: "nat \<Rightarrow> sptr \<Rightarrow> cmd_t \<Rightarrow> cmd_t res" where
  "set_arg i p c =
     (if i < ARGV_BUF_SIZE then Inr (c\<lparr>c_args := (c_args c)[i := p]\<rparr>)
      else if i = ARGV_BUF_SIZE then Inr (c\<lparr>c_next := p\<rparr>)
      else Inl OutOfBounds)"

definition get_arg :: "nat \<Rightarrow> cmd_t \<Rightarrow> sptr res" where
  "get_arg i c = elem (c_args c @ [c_next c]) i"

definition set_buf :: "nat \<Rightarrow> char \<Rightarrow> cmd_t \<Rightarrow> cmd_t res" where
  "set_buf i ch c = bnd (put (c_buf c) i ch) (\<lambda>buf. Inr (c\<lparr>c_buf := buf\<rparr>))"

text \<open>The string at a pointer that \<open>execv\<close> and \<open>printf\<close> get.\<close>

definition str_at :: "cmd_t list \<Rightarrow> cmd_t \<Rightarrow> sptr \<Rightarrow> string option" where
  "str_at pool c p = (case p of
       SNull \<Rightarrow> None | SBuf i \<Rightarrow> Some (cstr (drop i (c_buf c))) | SCmd j \<Rightarrow> Some (cstr (c_buf (pool ! j))))"

text \<open>The argument vector that the kernel reads: up to the first null pointer. Without one it runs over the command.\<close>

definition argv_of :: "cmd_t list \<Rightarrow> cmd_t \<Rightarrow> string list res" where
  "argv_of pool c =
     (let ps = takeWhile (\<lambda>p. p \<noteq> SNull) (c_args c @ [c_next c]) in
      if length ps = length (c_args c @ [c_next c]) then Inl OutOfBounds
      else Inr (map (the \<circ> str_at pool c) ps))"

section \<open>Trailing whitespace\<close>

definition is_space :: "char \<Rightarrow> bool" where
  "is_space ch \<longleftrightarrow> \<not> (ch \<noteq> CHR 0x0D \<and> ch \<noteq> CHR 0x0A \<and> ch \<noteq> CHR 0x09 \<and> ch \<noteq> CHR '' '')"

text \<open>The second loop of \<open>trimright\<close>: \<open>i\<close> is the index behind the last character looked at.\<close>

fun trim_loop :: "nat \<Rightarrow> string \<Rightarrow> nat \<times> string" where
  "trim_loop 0 str = (0, str)"
| "trim_loop (Suc i) str =
     (if \<not> is_space (str ! i) then (Suc i, str) else trim_loop i (str[i := NUL]))"

definition trimright :: "string \<Rightarrow> (nat \<times> string) res" where
  "trimright str =
     (if NUL \<in> set str then Inr (trim_loop (length (cstr str)) str) else Inl OutOfBounds)"

section \<open>The pool\<close>

definition sh_init_cmd :: "cmd_t \<Rightarrow> cmd_t" where
  "sh_init_cmd cmd = cmd\<lparr>c_buf := (c_buf cmd)[0 := NUL], c_args := replicate ARGV_BUF_SIZE SNull, c_next := SNull\<rparr>"

definition sh_init_cmd_slots :: "cmd_t list \<Rightarrow> cmdbuf_t" where
  "sh_init_cmd_slots slots = \<lparr>cb_pool = map sh_init_cmd slots, cb_count = int (length slots)\<rparr>"

definition sh_alloc_cmd :: "cmdbuf_t \<Rightarrow> sptr \<times> cmdbuf_t" where
  "sh_alloc_cmd pool =
     (if cb_count pool \<le> 0 then (SNull, pool)
      else (SCmd (nat (cb_count pool - 1)), pool\<lparr>cb_count := cb_count pool - 1\<rparr>))"

definition cmd_at :: "cmdbuf_t \<Rightarrow> sptr \<Rightarrow> (nat \<times> cmd_t) res" where
  "cmd_at pool p = (case p of
       SNull \<Rightarrow> Inl NullDeref
     | SBuf _ \<Rightarrow> Inl BadCast
     | SCmd i \<Rightarrow> bnd (elem (cb_pool pool) i) (\<lambda>c. Inr (i, c)))"

definition put_cmd :: "nat \<Rightarrow> cmd_t \<Rightarrow> cmdbuf_t \<Rightarrow> cmdbuf_t" where
  "put_cmd i c pool = pool\<lparr>cb_pool := (cb_pool pool)[i := c]\<rparr>"

text \<open>A visited command has no successor any more, so the loop ends.\<close>

definition linked :: "cmdbuf_t \<Rightarrow> nat" where
  "linked pool = length (filter (\<lambda>c. c_next c \<noteq> SNull) (cb_pool pool))"

lemma linked_init:
  assumes "i < length (cb_pool pool)"
  shows "linked (put_cmd i (sh_init_cmd (cb_pool pool ! i)) (pool\<lparr>cb_count := n\<rparr>)) =
    (if c_next (cb_pool pool ! i) = SNull then linked pool else linked pool - 1)"
    "c_next (cb_pool pool ! i) \<noteq> SNull \<Longrightarrow> 0 < linked pool"
proof -
  let ?p = "cb_pool pool"
  have s: "?p = take i ?p @ ?p ! i # drop (Suc i) ?p" using assms by (rule id_take_nth_drop)
  have "?p[i := c] = take i ?p @ c # drop (Suc i) ?p" for c using assms by (rule upd_conv_take_nth_drop)
  moreover have l: "linked pool = length (filter (\<lambda>c. c_next c \<noteq> SNull) (take i ?p @ ?p ! i # drop (Suc i) ?p))"
    using s by (simp add: linked_def)
  ultimately show "linked (put_cmd i (sh_init_cmd (cb_pool pool ! i)) (pool\<lparr>cb_count := n\<rparr>)) =
    (if c_next (cb_pool pool ! i) = SNull then linked pool else linked pool - 1)"
    by (simp add: put_cmd_def linked_def sh_init_cmd_def)
  show "c_next (cb_pool pool ! i) \<noteq> SNull \<Longrightarrow> 0 < linked pool" using l by simp
qed

function sh_free_cmd_chain :: "sptr \<Rightarrow> cmdbuf_t \<Rightarrow> cmdbuf_t res" where
  "sh_free_cmd_chain chain pool =
     (if chain = SNull then Inr pool
      else bnd (cmd_at pool chain) (\<lambda>(i, c).
        sh_free_cmd_chain (c_next c) (put_cmd i (sh_init_cmd c) (pool\<lparr>cb_count := cb_count pool + 1\<rparr>))))"
  by pat_completeness auto
termination
proof (relation "measure (\<lambda>(chain, pool). 2 * linked pool + (if chain = SNull then 0 else 1))")
  fix chain pool ic i c
  assume a: "chain \<noteq> SNull" "cmd_at pool chain = Inr ic" "(i, c) = ic"
  then have "i < length (cb_pool pool)" "c = cb_pool pool ! i"
    by (auto simp: cmd_at_def elem_def split: sptr.splits if_splits)
  then show "((c_next c, put_cmd i (sh_init_cmd c) (pool\<lparr>cb_count := cb_count pool + 1\<rparr>)), chain, pool) \<in>
      measure (\<lambda>(chain, pool). 2 * linked pool + (if chain = SNull then 0 else 1))"
    using linked_init(1) [of i pool "cb_count pool + 1"] linked_init(2) [of i pool] a(1) by auto
qed simp

declare sh_free_cmd_chain.simps [simp del]

section \<open>Parsing\<close>

definition is_blank :: "char \<Rightarrow> bool" where
  "is_blank c \<longleftrightarrow> c = CHR '' ''"

text \<open>The loop of \<open>parse_command\<close>: the rest of the input, \<open>argc\<close>, the offset of \<open>buf\<close> and the command.\<close>

function pc_loop :: "string \<Rightarrow> nat \<Rightarrow> nat \<Rightarrow> cmd_t \<Rightarrow> (string \<times> nat \<times> nat \<times> cmd_t) res" where
  "pc_loop [] argc b dst = Inr ([], argc, b, dst)"
| "pc_loop (ch # input) argc b dst =
     (if ch = CHR ''|'' then Inr (ch # input, argc, b, dst)
      else if ch = CHR '' '' then
        bnd (set_buf b NUL dst) (\<lambda>dst.
        let input = dropWhile is_blank input; argc = argc + 1; b = b + 1 in
        bnd (set_arg argc (SBuf b) dst) (\<lambda>dst.
        if argc > ARGV_BUF_SIZE - 1 then Inr (input, argc, b, dst)
        else pc_loop input argc b dst))
      else
        bnd (set_buf b ch dst) (\<lambda>dst.
        if argc > ARGV_BUF_SIZE - 1 then Inr (input, argc, b + 1, dst)
        else pc_loop input argc (b + 1) dst))"
  by pat_completeness auto
termination
  by (relation "measure (\<lambda>(input, argc, b, dst). length input)") (auto simp: le_imp_less_Suc length_dropWhile_le)

text \<open>\<open>args[argc][0]\<close>\<close>

definition first_char :: "nat \<Rightarrow> cmd_t \<Rightarrow> char res" where
  "first_char argc dst =
     bnd (get_arg argc dst) (\<lambda>p. case p of
       SNull \<Rightarrow> Inl NullDeref | SBuf i \<Rightarrow> elem (c_buf dst) i | SCmd _ \<Rightarrow> Inl BadCast)"

definition parse_command :: "string \<Rightarrow> cmd_t \<Rightarrow> (string \<times> cmd_t) res" where
  "parse_command input dst =
     bnd (set_arg 0 (SBuf 0) dst) (\<lambda>dst.
     bnd (pc_loop (dropWhile is_blank input) 0 0 dst) (\<lambda>(input, argc, b, dst).
     bnd (set_buf b NUL dst) (\<lambda>dst.
     bnd (first_char argc dst) (\<lambda>ch.
     bnd (set_arg (if ch \<noteq> NUL then argc + 1 else argc) SNull dst) (\<lambda>dst.
     Inr (input, dst))))))"

lemma pc_loop_length: "pc_loop input argc b dst = Inr (rest, argc', b', dst') \<Longrightarrow> length rest \<le> length input"
proof (induction input argc b dst rule: pc_loop.induct)
  case (2 ch input argc b dst)
  have "length (dropWhile is_blank input) \<le> length input" by (rule length_dropWhile_le)
  with 2 show ?case by (fastforce simp: Let_def split: if_splits)
qed simp

lemma parse_command_length: "parse_command input dst = Inr (rest, dst') \<Longrightarrow> length rest \<le> length input"
  using length_dropWhile_le [of is_blank input] by (auto simp: parse_command_def dest!: pc_loop_length)

text \<open>The loop of \<open>parse\<close>; the command it fills is \<open>tail\<close>.\<close>

function parse_loop :: "string \<Rightarrow> nat \<Rightarrow> cmdbuf_t \<Rightarrow> cmdbuf_t res" where
  "parse_loop input tail pool =
     bnd (elem (cb_pool pool) tail) (\<lambda>c.
     bnd (parse_command input c) (\<lambda>(stopped_at, c).
     if stopped_at = [] then Inr (put_cmd tail c pool)
     else
       (case sh_alloc_cmd (put_cmd tail c pool) of
          (SCmd nxt, pool) \<Rightarrow>
            bnd (elem (cb_pool pool) tail) (\<lambda>c. parse_loop (tl stopped_at) nxt (put_cmd tail (c\<lparr>c_next := SCmd nxt\<rparr>) pool))
        | (_, pool) \<Rightarrow> Inr pool)))"
  by pat_completeness auto
termination
  by (relation "measure (\<lambda>(input, tail, pool). length input)")
    (auto dest!: parse_command_length simp: neq_Nil_conv)

declare parse_loop.simps [simp del]

definition parse :: "cmdbuf_t \<Rightarrow> string \<Rightarrow> (sptr \<times> cmdbuf_t) res" where
  "parse pool input = (case sh_alloc_cmd pool of
       (SCmd tail, pool) \<Rightarrow> bnd (parse_loop input tail pool) (\<lambda>pool. Inr (SCmd tail, pool))
     | (_, pool) \<Rightarrow> Inr (SNull, pool))"

section \<open>Pipelines\<close>

definition sh_exec_err_fmt :: string where
  "sh_exec_err_fmt = ''ERROR: execv %s, status=%d, errno=%d'' @ LF"

definition close_if :: "u32 \<Rightarrow> unit uprog" where
  "close_if fd = (if fd \<noteq> - 1 then useq (ecall (UClose fd)) (ret ()) else ret ())"

text \<open>Replace descriptor \<open>std\<close> by \<open>fd\<close> unless that is -1.\<close>

definition redirect :: "u32 \<Rightarrow> u32 \<Rightarrow> unit uprog" where
  "redirect std fd =
     (if fd \<noteq> - 1 then useq (ecall (UClose std)) (useq (ecall (UDup fd)) (useq (ecall (UClose fd)) (ret ()))) else ret ())"

text \<open>The branch of \<open>traverse\<close> that the child takes.\<close>

definition traverse_child :: "cmd_t list \<Rightarrow> cmd_t \<Rightarrow> u32 \<Rightarrow> u32 \<Rightarrow> u32 \<Rightarrow> unit uprog" where
  "traverse_child pool c pipe_r pipe_w right_pipe_w =
     useq (redirect 0 pipe_r) (
     useq (close_if pipe_w) (
     useq (redirect 1 right_pipe_w) (
     ubind (lift (get_arg 0 c)) (\<lambda>p.
     ubind (lift (argv_of pool c)) (\<lambda>argv.
     ubind (ecall (UExecv (str_at pool c p) argv)) (\<lambda>a.
     useq (printf sh_exec_err_fmt [Str (str_at pool c p), Num (scast (ret32 a)), Num (scast (a_errno a))])
       (uexit (uint (ret32 a)))))))))"

text \<open>\<open>pipefd\<close> when the pipe could be opened.\<close>

definition open_pipe :: "nat \<Rightarrow> (u32 \<times> u32) option uprog" where
  "open_pipe depth =
     (if depth > 0 then
        ubind (ecall UPipe) (\<lambda>p.
        if a_ret p = - 1 then useq (prints (''ERROR: pipe=-1'' @ LF)) (ret None)
        else
          ubind (lift (words_of p)) (\<lambda>pipefd.
          ubind (lift (elem pipefd 0)) (\<lambda>r. ubind (lift (elem pipefd 1)) (\<lambda>w. ret (Some (r, w))))))
      else ret (Some (- 1, - 1)))"

text \<open>\<open>traverse\<close> from the call of \<open>fork\<close> on.\<close>

definition traverse_fork :: "cmd_t list \<Rightarrow> cmd_t \<Rightarrow> u32 \<times> u32 \<Rightarrow> u32 \<Rightarrow> u32 uprog" where
  "traverse_fork pool c pipefd right_pipe_w =
     ubind (ecall UFork) (\<lambda>a.
     useq (if ret32 a = - 1 then useq (prints (''ERROR: fork!'' @ LF)) (ret ())
           else if ret32 a = 0 then traverse_child pool c (fst pipefd) (snd pipefd) right_pipe_w
           else ret ()) (
     useq (close_if (fst pipefd)) (
     useq (close_if right_pipe_w) (ret (snd pipefd)))))"

text \<open>The first argument bounds the recursion; the length of the pool is enough for a chain without a cycle.\<close>

fun traverse :: "nat \<Rightarrow> cmdbuf_t \<Rightarrow> sptr \<Rightarrow> nat \<Rightarrow> u32 uprog" where
  "traverse 0 pool node depth = crash Diverges"
| "traverse (Suc n) pool node depth =
     ubind (lift (cmd_at pool node)) (\<lambda>(_, c).
     ubind (if c_next c \<noteq> SNull then traverse n pool (c_next c) (depth + 1) else ret (- 1)) (\<lambda>right_pipe_w.
     ubind (open_pipe depth) (\<lambda>pipefd.
     case pipefd of
       None \<Rightarrow> ret (- 1)
     | Some pipefd \<Rightarrow> traverse_fork (cb_pool pool) c pipefd right_pipe_w)))"

definition prog_name_hanger :: string where "prog_name_hanger = ''hang''"

text \<open>The length of the array counts the terminating zero.\<close>

definition wait_round :: "cmdbuf_t \<Rightarrow> sptr \<Rightarrow> (sptr + unit) uprog" where
  "wait_round pool node =
     (if node = SNull then ret (Inr ())
      else
        ubind (lift (cmd_at pool node)) (\<lambda>(_, c).
        useq (if ustrncmp (cstr (c_buf c)) prog_name_hanger 5 = 0 then ecall (USleep 1) else ecall (UWait None))
          (ret (Inl (c_next c)))))"

definition sh_wait_for_all_children :: "cmdbuf_t \<Rightarrow> sptr \<Rightarrow> unit uprog" where
  "sh_wait_for_all_children pool cmd_chain = uloop (wait_round pool) cmd_chain"

section \<open>Main loops\<close>

text \<open>The four statements that both main loops end with.\<close>

definition run_line :: "cmdbuf_t \<Rightarrow> string \<Rightarrow> cmdbuf_t uprog" where
  "run_line pool line =
     ubind (lift (parse pool line)) (\<lambda>(cmd_chain, pool).
     useq (traverse (length (cb_pool pool)) pool cmd_chain 0) (
     useq (sh_wait_for_all_children pool cmd_chain) (
     lift (sh_free_cmd_chain cmd_chain pool))))"

text \<open>
  The script and \<open>pbuf\<close>, the buffer for one line, share a page: \<open>pbuf\<close> is its
  last 32 characters.
\<close>

definition PBUF :: nat where [simp]: "PBUF = USER_PAGE_SIZE - 32"

function copy_line :: "string \<Rightarrow> nat \<Rightarrow> nat \<Rightarrow> (string \<times> nat \<times> nat) res" where
  "copy_line page i end =
     bnd (elem page end) (\<lambda>ch.
     if ch \<noteq> NUL \<and> ch \<noteq> CHR 0x0A then
       bnd (put page (PBUF + i) ch) (\<lambda>page. copy_line page (i + 1) (end + 1))
     else Inr (page, i, end))"
  by pat_completeness auto
termination
  by (relation "measure (\<lambda>(page, i, end). length page - (PBUF + i))") (auto simp: put_def split: if_splits)

function skip_newlines :: "string \<Rightarrow> nat \<Rightarrow> nat res" where
  "skip_newlines page end =
     bnd (elem page end) (\<lambda>ch. if ch = CHR 0x0A then skip_newlines page (end + 1) else Inr end)"
  by pat_completeness auto
termination
  by (relation "measure (\<lambda>(page, end). length page - end)") (auto simp: elem_def split: if_splits)

declare copy_line.simps [simp del] skip_newlines.simps [simp del]

definition script_round :: "string \<times> nat \<times> cmdbuf_t \<Rightarrow> ((string \<times> nat \<times> cmdbuf_t) + unit) uprog" where
  "script_round = (\<lambda>(page, end, pool).
     ubind (lift (elem page end)) (\<lambda>ch.
     if ch = NUL then ret (Inr ())
     else
       ubind (lift (put page PBUF NUL)) (\<lambda>page.
       ubind (lift (copy_line page 0 end)) (\<lambda>(page, i, end).
       ubind (lift (skip_newlines page end)) (\<lambda>end.
       ubind (lift (put page (PBUF + i) NUL)) (\<lambda>page.
       ubind (lift (elem page PBUF)) (\<lambda>ch.
       if ch = NUL then ret (Inr ())
       else
         ubind (run_line pool (cstr (drop PBUF page))) (\<lambda>pool.
         ret (Inl (page, end, pool))))))))))"

definition run_shell_script :: "string option \<Rightarrow> cmdbuf_t \<Rightarrow> int uprog" where
  "run_shell_script filepath cmdpool =
     ubind (ecall (UOpen filepath 0)) (\<lambda>h.
     if ret32 h = - 1 then useq (prints (''ERROR: open=-1'' @ LF)) (ret (- 1))
     else
       ubind (ecall UPgalloc) (\<lambda>pg.
       ubind (ecall (URead (ret32 h) (of_nat PBUF))) (\<lambda>r.
       if ret32 r = - 1 then
         useq (ecall (UPgfree (a_ret pg))) (useq (prints (''ERROR: read=-1'' @ LF)) (ret (- 1)))
       else
         useq (ecall (UClose (ret32 h))) (
         if a_ret pg = 0 then crash NullDeref
         else if sint (ret32 r) < 0 then crash OutOfBounds
         else
           ubind (lift (bytes_of r)) (\<lambda>fbuf.
           ubind (lift (put fbuf (unat (ret32 r)) NUL)) (\<lambda>fbuf.
           useq (uloop script_round (fbuf, 0, cmdpool)) (
           useq (ecall (UPgfree (a_ret pg))) (ret 0))))))))"

text \<open>\<open>sizeof(cmd_t)\<close> is 72; the slots lie one after the other in the page.\<close>

definition num_slots :: nat where "num_slots = USER_PAGE_SIZE div 72"

definition slots_of :: "string \<Rightarrow> cmd_t list" where
  "slots_of page = map (\<lambda>i. \<lparr>c_buf = take CMD_BUF_SIZE (drop (72 * i) page), c_args = [], c_next = SNull\<rparr>) [0..<num_slots]"

definition shell_round :: "cmdbuf_t \<Rightarrow> (cmdbuf_t + unit) uprog" where
  "shell_round pool =
     useq (prints ''>'') (
     ubind (ecall (URead 0 31)) (\<lambda>a.
     if sint (ret32 a) < 0 then useq (prints (''ERROR: read'' @ LF)) (ret (Inl pool))
     else
       ubind (lift (bytes_of a)) (\<lambda>buf.
       ubind (lift (put buf (unat (ret32 a)) NUL)) (\<lambda>buf.
       ubind (lift (trimright buf)) (\<lambda>(_, buf).
       if cstr buf = [] then ret (Inl pool)
       else ubind (run_line pool (cstr buf)) (\<lambda>pool. ret (Inl pool)))))))"

definition u_main_shell :: "string list \<Rightarrow> int uprog" where
  "u_main_shell argv =
     ubind (ecall UPgalloc) (\<lambda>pg.
     if a_ret pg = 0 then crash NullDeref else
     ubind (lift (bytes_of pg)) (\<lambda>page.
     let cmdpool = sh_init_cmd_slots (slots_of page) in
     if length argv > 1 then
       ubind (lift (bnd (sat (argv ! 1) 0) (\<lambda>x. if x = CHR ''-'' then bnd (sat (argv ! 1) 1) (\<lambda>y. Inr (y = CHR ''f''))
                                               else Inr False))) (\<lambda>freeze.
       ubind (lift (elem (map Some argv @ [None]) (if freeze then 2 else 1))) (\<lambda>script.
       ubind (run_shell_script script cmdpool) (\<lambda>code.
       if freeze then uloop (\<lambda>u. useq (ecall (USleep 1000)) (ret (Inl u))) ()
       else uexit code)))
     else
       useq (prints (''Welcome to sHELL!'' @ LF)) (
       useq (uloop shell_round cmdpool) (ret 0))))"

end
