(* ===== verification/Lines.thy ===== *)
theory Lines
  imports Shell
begin

text \<open>
  The shell's reading of a command line against a reference tokenizer: a line is
  split at the bars, and each part into its words at the blanks.
\<close>

section \<open>The reference\<close>

text \<open>\<open>p\<close> is the part of the current word that has been read.\<close>

fun words_acc :: "string \<Rightarrow> string \<Rightarrow> string list" where
  "words_acc p [] = (if p = [] then [] else [p])"
| "words_acc p (c # s) =
     (if is_blank c then (if p = [] then words_acc [] s else p # words_acc [] s) else words_acc (p @ [c]) s)"

definition words :: "string \<Rightarrow> string list" where
  "words s = words_acc [] s"

definition is_plain :: "string \<Rightarrow> bool" where
  "is_plain s \<longleftrightarrow> list_all (\<lambda>c. c \<noteq> CHR ''|'' \<and> c \<noteq> NUL) s"

text \<open>The line of a pipeline.\<close>

fun pipeline :: "string list \<Rightarrow> string" where
  "pipeline [] = []"
| "pipeline [s] = s"
| "pipeline (s # ss) = s @ CHR ''|'' # pipeline ss"

text \<open>The words of a command as the buffer holds them.\<close>

definition lay :: "string list \<Rightarrow> string" where
  "lay ws = concat (map (\<lambda>w. w @ [NUL]) ws)"

definition cmd_words :: "cmd_t \<Rightarrow> string list" where
  "cmd_words c = map (\<lambda>p. the (str_at [] c p)) (takeWhile (\<lambda>p. p \<noteq> SNull) (c_args c))"

section \<open>Lemmas on words\<close>

lemma lay_simps [simp]: "lay [] = []" "lay (ws @ [w]) = lay ws @ w @ [NUL]" "lay (w # ws) = w @ NUL # lay ws"
  by (simp_all add: lay_def)

lemma words_skip: "words_acc [] (dropWhile is_blank s) = words_acc [] s"
  by (induction s) auto

lemma words_some: "p \<noteq> [] \<Longrightarrow> words_acc p s \<noteq> []"
  by (induction s arbitrary: p) auto

lemma dropWhile_plain: "rest = [] \<or> hd rest = CHR ''|'' \<Longrightarrow> dropWhile is_blank (s @ rest) = dropWhile is_blank s @ rest"
  by (induction s) (cases rest; auto simp: is_blank_def)+

lemma plain_dropWhile: "is_plain s \<Longrightarrow> is_plain (dropWhile is_blank s)"
  by (induction s) (auto simp: is_plain_def)

lemma takeWhile_split: "list_all P xs \<Longrightarrow> ys = [] \<or> \<not> P (hd ys) \<Longrightarrow> takeWhile P (xs @ ys) = xs"
  by (cases ys) (auto simp: list_all_iff takeWhile_append)

section \<open>The loop of parse_command\<close>

text \<open>
  The state in the middle of a command: the words \<open>ws\<close> are complete, of the next
  one \<open>p\<close> has been read.
\<close>

definition offs :: "string list \<Rightarrow> nat \<Rightarrow> sptr" where
  "offs ws i = SBuf (length (lay (take i ws)))"

definition mid :: "string list \<Rightarrow> string \<Rightarrow> nat \<Rightarrow> nat \<Rightarrow> cmd_t \<Rightarrow> bool" where
  "mid ws p argc b dst \<longleftrightarrow> argc = length ws \<and> b = length (lay ws @ p) \<and> argc \<le> 4 \<and>
     length (c_buf dst) = 32 \<and> take b (c_buf dst) = lay ws @ p \<and> length (c_args dst) = 4 \<and>
     (\<forall>i \<le> argc. (c_args dst @ [c_next dst]) ! i = offs ws i) \<and> (argc < 4 \<longrightarrow> c_next dst = SNull)"

lemma mid_char:
  assumes "mid ws p argc b dst" "b < 32"
  shows "\<exists>dst'. set_buf b c dst = Inr dst' \<and> mid ws (p @ [c]) argc (b + 1) dst'"
  using assms by (auto simp: mid_def set_buf_def put_def take_Suc_conv_app_nth)

lemma mid_blank:
  assumes "mid ws p argc b dst" "b < 32" "argc < 4"
  shows "\<exists>dst' dst''. set_buf b NUL dst = Inr dst' \<and> set_arg (argc + 1) (SBuf (b + 1)) dst' = Inr dst'' \<and>
    mid (ws @ [p]) [] (argc + 1) (b + 1) dst''"
proof -
  obtain dst' where d: "set_buf b NUL dst = Inr dst'" "mid ws (p @ [NUL]) argc (b + 1) dst'"
    using mid_char [OF assms(1,2)] by blast
  obtain dst'' where e: "set_arg (argc + 1) (SBuf (b + 1)) dst' = Inr dst''"
    "c_buf dst'' = c_buf dst'" "length (c_args dst'') = 4"
    "(c_args dst'' @ [c_next dst'']) = (c_args dst' @ [c_next dst'])[argc + 1 := SBuf (b + 1)]"
    "argc + 1 < 4 \<Longrightarrow> c_next dst'' = c_next dst'"
    using d(2) assms(3) by (cases "argc + 1 < 4") (auto simp: set_arg_def mid_def list_update_append)
  have "offs (ws @ [p]) i = offs ws i" if "i \<le> argc" for i
    using that d(2) by (simp add: offs_def mid_def)
  moreover have "offs (ws @ [p]) (argc + 1) = SBuf (b + 1)" using d(2) by (simp add: offs_def mid_def)
  ultimately have "(c_args dst'' @ [c_next dst'']) ! i = offs (ws @ [p]) i" if "i \<le> argc + 1" for i
    using that d(2) assms(3) unfolding e(4) by (cases "i = argc + 1") (auto simp: mid_def)
  then have "mid (ws @ [p]) [] (argc + 1) (b + 1) dst''"
    using d(2) e(2,3,5) assms(3) by (auto simp: mid_def)
  then show ?thesis using d(1) e(1) by blast
qed

text \<open>
  A blank ends a word: the loop goes on behind the blanks with the next argument,
  or stops there when four words have been read.
\<close>

lemma pc_loop_blank:
  assumes "rest = [] \<or> hd rest = CHR ''|''" "mid ws p argc b dst" "argc < 4" "b < 32" "is_blank c"
  shows "\<exists>dst'. mid (ws @ [p]) [] (argc + 1) (b + 1) dst' \<and> pc_loop ((c # t) @ rest) argc b dst =
    (if argc + 1 > 3 then Inr (dropWhile is_blank t @ rest, argc + 1, b + 1, dst')
     else pc_loop (dropWhile is_blank t @ rest) (argc + 1) (b + 1) dst')"
proof -
  obtain dst' dst'' where "set_buf b NUL dst = Inr dst'" "set_arg (argc + 1) (SBuf (b + 1)) dst' = Inr dst''"
    "mid (ws @ [p]) [] (argc + 1) (b + 1) dst''" using mid_blank [OF assms(2,4,3)] by blast
  then show ?thesis
    using assms(5) dropWhile_plain [OF assms(1), of t] by (intro exI [of _ dst'']) (simp add: is_blank_def Let_def)
qed

lemma no_words: "length (words_acc [] (dropWhile is_blank t)) = 0 \<Longrightarrow> dropWhile is_blank t = []"
  using hd_dropWhile [of is_blank t] by (cases "dropWhile is_blank t") (auto simp: words_some)

lemma pc_loop_words:
  assumes "rest = [] \<or> hd rest = CHR ''|''"
  shows "mid ws p argc b dst \<Longrightarrow> argc < 4 \<Longrightarrow> is_plain s \<Longrightarrow> b + length s < 32 \<Longrightarrow> NUL \<notin> set p \<Longrightarrow>
    p = [] \<longrightarrow> s = [] \<or> \<not> is_blank (hd s) \<Longrightarrow> length (ws @ words_acc p s) \<le> 4 \<Longrightarrow>
    \<exists>ws' p' argc' b' dst'. pc_loop (s @ rest) argc b dst = Inr (rest, argc', b', dst') \<and> mid ws' p' argc' b' dst' \<and>
      b' < 32 \<and> NUL \<notin> set p' \<and> (argc' = 4 \<longrightarrow> p' = []) \<and> ws' @ (if p' = [] then [] else [p']) = ws @ words_acc p s"
proof (induction s arbitrary: ws p argc b dst rule: length_induct)
  case (1 s)
  note IH = "1.IH" [rule_format] and mid = "1.prems"(1) and lt = "1.prems"(2) and b = "1.prems"(4)
  show ?case
  proof (cases s)
    case Nil
    have "pc_loop rest argc b dst = Inr (rest, argc, b, dst)" using assms by (cases rest) auto
    then show ?thesis using Nil mid lt b "1.prems"(5) by fastforce
  next
    case (Cons c t)
    have c: "c \<noteq> CHR ''|''" "c \<noteq> NUL" "is_plain t" using "1.prems"(3) Cons by (auto simp: is_plain_def)
    show ?thesis
    proof (cases "is_blank c")
      case True
      then have p: "p \<noteq> []" using "1.prems"(6) Cons by auto
      let ?t = "dropWhile is_blank t"
      obtain dst' where d: "mid (ws @ [p]) [] (argc + 1) (b + 1) dst'"
        and step: "pc_loop (s @ rest) argc b dst =
          (if argc + 1 > 3 then Inr (?t @ rest, argc + 1, b + 1, dst') else pc_loop (?t @ rest) (argc + 1) (b + 1) dst')"
        using pc_loop_blank [OF assms mid lt _ True, of t] b Cons by auto
      have w: "ws @ words_acc p s = (ws @ [p]) @ words_acc [] ?t" using Cons True p by (simp add: words_skip)
      show ?thesis
      proof (cases "argc + 1 > 3")
        case True
        moreover have "length ws + 1 + length (words_acc [] ?t) \<le> 4" using "1.prems"(7) unfolding w by simp
        moreover have "length ws = argc" using mid by (simp add: mid_def)
        ultimately have tn: "?t = []" by (intro no_words) linarith
        have "ws @ words_acc p s = (ws @ [p]) @ []" "pc_loop (s @ rest) argc b dst = Inr (rest, argc + 1, b + 1, dst')"
          using w step True unfolding tn by simp_all
        moreover have "b + 1 < 32" using b Cons by simp
        ultimately show ?thesis using d
          by (intro exI [of _ "ws @ [p]"] exI [of _ "[]"] exI [of _ "argc + 1"] exI [of _ "b + 1"] exI [of _ dst']) simp
      next
        case False
        have "length ?t \<le> length t" "?t = [] \<or> \<not> is_blank (hd ?t)"
          using hd_dropWhile [of is_blank t] by (blast intro: length_dropWhile_le)+
        then show ?thesis
          using IH [of ?t "ws @ [p]" "[]" "argc + 1" "b + 1" dst'] d False plain_dropWhile [OF c(3)] b Cons w "1.prems"(7)
          unfolding step w by auto
      qed
    next
      case False
      obtain dst' where d: "set_buf b c dst = Inr dst'" "mid ws (p @ [c]) argc (b + 1) dst'"
        using mid_char [OF mid] b by auto
      have w: "words_acc p s = words_acc (p @ [c]) t" using Cons False by simp
      have step: "pc_loop (s @ rest) argc b dst = pc_loop (t @ rest) argc (b + 1) dst'"
        using Cons False c(1) d(1) lt by (simp add: is_blank_def)
      show ?thesis
        unfolding step w by (rule IH) (use d(2) lt c(2,3) b Cons w "1.prems"(5,7) in auto)
    qed
  qed
qed

section \<open>parse_command\<close>

lemma cstr_lay:
  assumes "i < length ws" "list_all (\<lambda>w. NUL \<notin> set w) ws" "take (length (lay ws)) buf = lay ws"
  shows "cstr (drop (length (lay (take i ws))) buf) = ws ! i"
proof -
  obtain r where r: "buf = lay ws @ r" using assms(3) append_take_drop_id by metis
  have "lay ws = lay (take i ws) @ ws ! i @ NUL # lay (drop (Suc i) ws)"
    by (subst id_take_nth_drop [OF assms(1)]) (simp add: lay_def)
  then have "drop (length (lay (take i ws))) buf = ws ! i @ NUL # lay (drop (Suc i) ws) @ r" using r by simp
  moreover have "list_all (\<lambda>c. c \<noteq> NUL) (ws ! i)" using assms(1,2) by (auto simp: list_all_length in_set_conv_nth)
  ultimately show ?thesis by (simp add: cstr_append)
qed

text \<open>The state after the last word: it is closed by a zero, and a null pointer follows the last argument.\<close>

definition parsed :: "string list \<Rightarrow> cmd_t \<Rightarrow> bool" where
  "parsed ws c \<longleftrightarrow> length ws \<le> 4 \<and> length (c_buf c) = 32 \<and> take (length (lay ws)) (c_buf c) = lay ws \<and>
     length (c_args c) = 4 \<and> (\<forall>i < length ws. c_args c ! i = offs ws i) \<and>
     (length ws < 4 \<longrightarrow> c_args c ! length ws = SNull) \<and> c_next c = SNull"

lemma parsed_args:
  assumes "parsed ws c"
  shows "takeWhile (\<lambda>p. p \<noteq> SNull) (c_args c) = map (offs ws) [0..<length ws]"
proof -
  have "c_args c = take (length ws) (c_args c) @ drop (length ws) (c_args c)" by simp
  moreover have "take (length ws) (c_args c) = map (offs ws) [0..<length ws]"
    using assms by (intro nth_equalityI) (auto simp: parsed_def)
  moreover have "drop (length ws) (c_args c) = [] \<or> hd (drop (length ws) (c_args c)) = SNull"
    using assms by (cases "length ws < 4") (auto simp: parsed_def hd_drop_conv_nth)
  ultimately show ?thesis
    using takeWhile_split [of "\<lambda>p. p \<noteq> SNull" "map (offs ws) [0..<length ws]" "drop (length ws) (c_args c)"]
    by (simp add: list_all_iff offs_def)
qed

lemma parsed_strings:
  assumes "parsed ws c" "list_all (\<lambda>w. NUL \<notin> set w) ws"
  shows "map (\<lambda>p. the (str_at pool (c\<lparr>c_next := q\<rparr>) p)) (map (offs ws) [0..<length ws]) = ws"
proof (rule nth_equalityI)
  fix i assume "i < length (map (\<lambda>p. the (str_at pool (c\<lparr>c_next := q\<rparr>) p)) (map (offs ws) [0..<length ws]))"
  then have i: "i < length ws" by simp
  then show "map (\<lambda>p. the (str_at pool (c\<lparr>c_next := q\<rparr>) p)) (map (offs ws) [0..<length ws]) ! i = ws ! i"
    using cstr_lay [OF i assms(2)] assms(1) by (simp add: str_at_def offs_def parsed_def)
qed simp

lemma done_words:
  assumes "parsed ws c" "list_all (\<lambda>w. NUL \<notin> set w) ws"
  shows "cmd_words (c\<lparr>c_next := q\<rparr>) = ws"
proof -
  have "str_at [] (c\<lparr>c_next := q\<rparr>) (offs ws i) = str_at [] c (offs ws i)" for i by (simp add: str_at_def offs_def)
  then show ?thesis
    using parsed_strings [OF assms, of "[]" q] by (simp add: cmd_words_def parsed_args [OF assms(1)])
qed

text \<open>
  What \<open>execv\<close> gets: the words, followed by a null pointer, unless the command has
  four words and a successor, whose address then stands where the null pointer
  should be.
\<close>

lemma done_argv:
  assumes "parsed ws c" "list_all (\<lambda>w. NUL \<notin> set w) ws"
  shows "argv_of pool (c\<lparr>c_next := q\<rparr>) = (if length ws < 4 \<or> q = SNull then Inr ws else Inl OutOfBounds)"
proof -
  let ?P = "\<lambda>p. p \<noteq> SNull"
  note args = parsed_args [OF assms(1)] and strs = parsed_strings [OF assms, of pool q]
  have len: "length (c_args c) = 4" "length ws \<le> 4" using assms(1) by (simp_all add: parsed_def)
  show ?thesis
  proof (cases "length ws < 4")
    case True
    then have "c_args c ! length ws = SNull" using assms(1) by (simp add: parsed_def)
    then have "SNull \<in> set (c_args c)" using True len(1) by (metis nth_mem)
    then have "takeWhile ?P (c_args c @ [q]) = map (offs ws) [0..<length ws]"
      using takeWhile_append1 [of SNull "c_args c" ?P "[q]"] args by simp
    then show ?thesis using True strs len(1) by (simp add: argv_of_def Let_def comp_def)
  next
    case False
    then have "length (takeWhile ?P (c_args c)) = 4" using args len(2) by simp
    then have all: "takeWhile ?P (c_args c) = c_args c"
      using takeWhile_eq_take [of ?P "c_args c"] len(1) by simp
    then have "\<forall>p \<in> set (c_args c). p \<noteq> SNull" by (simp add: takeWhile_eq_all_conv)
    then have "takeWhile ?P (c_args c @ [q]) = c_args c @ takeWhile ?P [q]"
      by (simp add: takeWhile_append2)
    moreover have "map (\<lambda>p. the (str_at pool (c\<lparr>c_next := q\<rparr>) p)) (c_args c) = ws" using args all strs by simp
    ultimately show ?thesis using False by (cases "q = SNull") (simp_all add: argv_of_def Let_def comp_def)
  qed
qed

lemma finish_done:
  assumes "mid ws p argc b dst" "b < 32" "NUL \<notin> set p" "argc = 4 \<longrightarrow> p = []"
  shows "\<exists>dst' ch c. set_buf b NUL dst = Inr dst' \<and> first_char argc dst' = Inr ch \<and>
    set_arg (if ch \<noteq> NUL then argc + 1 else argc) SNull dst' = Inr c \<and> parsed (ws @ (if p = [] then [] else [p])) c"
proof -
  obtain dst' where d: "set_buf b NUL dst = Inr dst'" "mid ws (p @ [NUL]) argc (b + 1) dst'"
    using mid_char [OF assms(1,2)] by blast
  let ?w = "ws @ (if p = [] then [] else [p])"
  have m: "length (c_buf dst') = 32" "take (b + 1) (c_buf dst') = lay ws @ p @ [NUL]" "length (c_args dst') = 4"
    "b = length (lay ws) + length p" "argc = length ws" "argc \<le> 4"
    "(\<forall>i \<le> argc. (c_args dst' @ [c_next dst']) ! i = offs ws i)" "argc < 4 \<longrightarrow> c_next dst' = SNull"
    using d(2) by (auto simp: mid_def)
  have "c_buf dst' ! length (lay ws) = (p @ [NUL]) ! 0"
    using arg_cong [OF m(2), of "\<lambda>x. x ! length (lay ws)"] m(4) by (auto simp: nth_append)
  moreover have "length (lay ws) < 32" using m(4) assms(2) by simp
  ultimately have f: "first_char argc dst' = Inr ((p @ [NUL]) ! 0)"
    using m by (simp add: first_char_def get_arg_def elem_def offs_def)
  have ch: "(p @ [NUL]) ! 0 \<noteq> NUL \<longleftrightarrow> p \<noteq> []" using assms(3) by (cases p) auto
  have t: "take (length (lay ?w)) (c_buf dst') = lay ?w"
    using arg_cong [OF m(2), of "take (length (lay ?w))"] m(4) by (auto simp: take_take min_def)
  have ow: "offs ?w i = offs ws i" if "i \<le> argc" for i using that m(5) by (auto simp: offs_def)
  have args: "c_args dst' ! i = offs ?w i" if "i < length ?w" for i
  proof -
    have "i \<le> argc" "i < 4" using that m(5,6) assms(4) by (auto split: if_splits)
    then show ?thesis using m(3,7) ow by (metis nth_append)
  qed
  have n: "length ?w \<le> 4" "length ?w = (if p \<noteq> [] then argc + 1 else argc)" using m(5,6) assms(4) by auto
  show ?thesis
  proof (cases "length ?w < 4")
    case True
    then have "set_arg (length ?w) SNull dst' = Inr (dst'\<lparr>c_args := (c_args dst')[length ?w := SNull]\<rparr>)"
      by (simp add: set_arg_def)
    moreover have "parsed ?w (dst'\<lparr>c_args := (c_args dst')[length ?w := SNull]\<rparr>)"
      using True m(1,3,5,8) t args by (auto simp: parsed_def)
    ultimately show ?thesis using d(1) f ch n(2) by auto
  next
    case False
    then have "set_arg (length ?w) SNull dst' = Inr (dst'\<lparr>c_next := SNull\<rparr>)" using n(1) by (simp add: set_arg_def)
    moreover have "parsed ?w (dst'\<lparr>c_next := SNull\<rparr>)" using n(1) False m(1,3) t args by (auto simp: parsed_def)
    ultimately show ?thesis using d(1) f ch n(2) by auto
  qed
qed

lemma words_acc_no_nul:
  "NUL \<notin> set p \<Longrightarrow> is_plain s \<Longrightarrow> list_all (\<lambda>w. NUL \<notin> set w) (words_acc p s)"
  by (induction p s rule: words_acc.induct) (auto simp: is_plain_def)

text \<open>A slot that holds no command yet.\<close>

definition clean :: "cmd_t \<Rightarrow> bool" where
  "clean c \<longleftrightarrow> length (c_buf c) = 32 \<and> c_buf c ! 0 = NUL \<and> c_args c = replicate 4 SNull \<and> c_next c = SNull"

lemma parse_command_words:
  assumes "rest = [] \<or> hd rest = CHR ''|''" "is_plain s" "length s < 32" "length (words s) \<le> 4" "clean dst"
  shows "\<exists>c. parse_command (s @ rest) dst = Inr (rest, c) \<and> parsed (words s) c"
proof -
  let ?s = "dropWhile is_blank s"
  have w: "words_acc [] ?s = words s" by (simp add: words_def words_skip)
  obtain dst0 where d0: "set_arg 0 (SBuf 0) dst = Inr dst0" "mid [] [] 0 0 dst0"
    using assms(5) by (auto simp: set_arg_def mid_def offs_def clean_def nth_append)
  have "length ?s < 32" using length_dropWhile_le [of is_blank s] assms(3) by linarith
  moreover have "?s = [] \<or> \<not> is_blank (hd ?s)" using hd_dropWhile [of is_blank s] by blast
  ultimately obtain ws p argc b dst1 where l: "pc_loop (?s @ rest) 0 0 dst0 = Inr (rest, argc, b, dst1)"
    "mid ws p argc b dst1" "b < 32" "NUL \<notin> set p" "argc = 4 \<longrightarrow> p = []" "ws @ (if p = [] then [] else [p]) = words s"
    using pc_loop_words [OF assms(1) d0(2), of ?s] plain_dropWhile [OF assms(2)] assms(4) w by auto
  from finish_done [OF l(2-5)] obtain dst2 ch c where "set_buf b NUL dst1 = Inr dst2" "first_char argc dst2 = Inr ch"
    "set_arg (if ch \<noteq> NUL then argc + 1 else argc) SNull dst2 = Inr c" "parsed (words s) c"
    unfolding l(6) by blast
  then show ?thesis
    using l(1) d0(1) by (intro exI [of _ c]) (simp add: parse_command_def dropWhile_plain [OF assms(1)] split del: if_split)
qed

section \<open>parse\<close>

text \<open>
  The chain of a parsed line: the command at \<open>i\<close> holds the first part, its
  successors in the slots below hold the others. The arguments of a command
  are the words of its part, and \<open>execv\<close> gets exactly these, except from a
  command of four words that has a successor: its array has no terminator.
\<close>

fun chain :: "string list list \<Rightarrow> nat \<Rightarrow> cmd_t list \<Rightarrow> bool" where
  "chain [] i pool \<longleftrightarrow> False"
| "chain [ws] i pool \<longleftrightarrow> cmd_words (pool ! i) = ws \<and> argv_of pool (pool ! i) = Inr ws \<and> c_next (pool ! i) = SNull"
| "chain (ws # wss) i pool \<longleftrightarrow> cmd_words (pool ! i) = ws \<and>
     argv_of pool (pool ! i) = (if length ws < 4 then Inr ws else Inl OutOfBounds) \<and>
     0 < i \<and> c_next (pool ! i) = SCmd (i - 1) \<and> chain wss (i - 1) pool"

lemma parse_loop_chain:
  "list_all (\<lambda>s. is_plain s \<and> length s < 32 \<and> length (words s) \<le> 4) ss \<Longrightarrow> ss \<noteq> [] \<Longrightarrow>
   cb_count pool = int t \<Longrightarrow> t < length (cb_pool pool) \<Longrightarrow> length ss \<le> t + 1 \<Longrightarrow> \<forall>i \<le> t. clean (cb_pool pool ! i) \<Longrightarrow>
   \<exists>pool'. parse_loop (pipeline ss) t pool = Inr pool' \<and> chain (map words ss) t (cb_pool pool') \<and>
     cb_count pool' = int (t + 1 - length ss) \<and> length (cb_pool pool') = length (cb_pool pool) \<and>
     (\<forall>i > t. cb_pool pool' ! i = cb_pool pool ! i)"
proof (induction ss arbitrary: t pool)
  case (Cons s ss)
  note IH = Cons.IH and prems = Cons.prems
  have s: "is_plain s" "length s < 32" "length (words s) \<le> 4" "clean (cb_pool pool ! t)" using prems by auto
  have nn: "list_all (\<lambda>w. NUL \<notin> set w) (words s)" using words_acc_no_nul [of "[]" s] s(1) by (simp add: words_def)
  show ?case
  proof (cases ss)
    case Nil
    obtain c where c: "parse_command s (cb_pool pool ! t) = Inr ([], c)" "parsed (words s) c"
      using parse_command_words [of "[]" s, OF _ s] by auto
    then have "c\<lparr>c_next := SNull\<rparr> = c" by (simp add: parsed_def)
    then have "cmd_words c = words s" "argv_of pl c = Inr (words s)" "c_next c = SNull" for pl
      using done_words [OF c(2) nn, of SNull] done_argv [OF c(2) nn, of pl SNull] c(2) by (simp_all add: parsed_def)
    then show ?thesis using Nil c(1) prems by (subst parse_loop.simps) (simp add: elem_def put_cmd_def)
  next
    case (Cons s' ss')
    let ?r = "CHR ''|'' # pipeline ss"
    obtain c where c: "parse_command (s @ ?r) (cb_pool pool ! t) = Inr (?r, c)" "parsed (words s) c"
      using parse_command_words [of ?r s, OF _ s] by auto
    have t: "0 < t" using prems Cons by simp
    let ?c = "c\<lparr>c_next := SCmd (t - 1)\<rparr>"
    let ?pool = "put_cmd t ?c (pool\<lparr>cb_count := int (t - 1)\<rparr>)"
    have step: "parse_loop (pipeline (s # ss)) t pool = parse_loop (pipeline ss) (t - 1) ?pool"
      using Cons c(1) prems t
      by (subst parse_loop.simps) (simp add: elem_def put_cmd_def sh_alloc_cmd_def nat_diff_distrib of_nat_diff)
    have "t - 1 < length (cb_pool pool)" using prems by simp
    then obtain pool' where p: "parse_loop (pipeline ss) (t - 1) ?pool = Inr pool'" "chain (map words ss) (t - 1) (cb_pool pool')"
      "cb_count pool' = int (t - 1 + 1 - length ss)" "length (cb_pool pool') = length (cb_pool ?pool)"
      "\<forall>i > t - 1. cb_pool pool' ! i = cb_pool ?pool ! i"
      using IH [of ?pool "t - 1"] prems Cons t by (auto simp: put_cmd_def)
    have "cmd_words ?c = words s" "argv_of pl ?c = (if length (words s) < 4 then Inr (words s) else Inl OutOfBounds)" for pl
      using done_words [OF c(2) nn] done_argv [OF c(2) nn] by simp_all
    moreover have "cb_pool pool' ! t = ?c" using p(5) t prems by (simp add: put_cmd_def)
    ultimately show ?thesis
      using p t prems Cons unfolding step by (auto simp: put_cmd_def)
  qed
qed simp

section \<open>Properties\<close>

text \<open>
  C31: \<open>parse\<close> implements the reference tokenizer within the shell's limits: for a
  line of at most as many parts as there are free slots, each of less than 32
  characters and at most four words, it returns the head of a chain with one
  command per part, in order, and the arguments of a command are the words of
  its part. The argument vector that \<open>execv\<close> reads is these words and ends
  there, for a command of fewer than four words and for the last command of
  the line; a command of four words that is followed by another has no
  terminator, so that reading its vector runs over the command.
\<close>

theorem parse_splits:
  assumes "list_all (\<lambda>s. is_plain s \<and> length s < 32 \<and> length (words s) \<le> 4) ss" "ss \<noteq> []"
    "cb_count pool = int n" "length ss \<le> n" "n \<le> length (cb_pool pool)" "\<forall>i < n. clean (cb_pool pool ! i)"
  shows "\<exists>pool'. parse pool (pipeline ss) = Inr (SCmd (n - 1), pool') \<and> chain (map words ss) (n - 1) (cb_pool pool')"
proof -
  have n: "0 < n" using assms(2,4) by (cases ss) auto
  let ?pool = "pool\<lparr>cb_count := int (n - 1)\<rparr>"
  have "n - 1 < length (cb_pool pool)" using n assms(5) by simp
  then have "\<exists>pool'. parse_loop (pipeline ss) (n - 1) ?pool = Inr pool' \<and> chain (map words ss) (n - 1) (cb_pool pool')"
    using parse_loop_chain [OF assms(1,2), of ?pool "n - 1"] assms(4-6) n by auto
  then show ?thesis
    using assms(3) n by (auto simp: parse_def sh_alloc_cmd_def of_nat_diff nat_diff_distrib)
qed

definition empty_cmd :: cmd_t where
  "empty_cmd = \<lparr>c_buf = replicate 32 NUL, c_args = replicate 4 SNull, c_next = SNull\<rparr>"

definition two_slots :: cmdbuf_t where
  "two_slots = \<lparr>cb_pool = [empty_cmd, empty_cmd], cb_count = 2\<rparr>"

theorem parse_splits_witness:
  "\<exists>pool'. parse two_slots ''cat  /a |wc -l '' = Inr (SCmd 1, pool') \<and> chain [[''cat'', ''/a''], [''wc'', ''-l'']] 1 (cb_pool pool')"
proof -
  have "list_all (\<lambda>s. is_plain s \<and> length s < 32 \<and> length (words s) \<le> 4) [''cat  /a '', ''wc -l '']"
    by (simp add: is_plain_def words_def is_blank_def NUL_def)
  moreover have "\<forall>i < 2. clean (cb_pool two_slots ! i)"
    by (auto simp: two_slots_def clean_def empty_cmd_def less_Suc_eq numeral_2_eq_2 simp del: replicate.simps)
  moreover have "words ''cat  /a '' = [''cat'', ''/a'']" "words ''wc -l '' = [''wc'', ''-l'']"
    by (simp_all add: words_def is_blank_def)
  ultimately show ?thesis
    using parse_splits [of "[''cat  /a '', ''wc -l '']" two_slots 2] by (simp add: two_slots_def)
qed

text \<open>
  A fifth word is not dropped: parsing goes on behind its first character as if
  that were a bar.
\<close>

lemma fifth_word_is_piped:
  "\<exists>pool'. parse two_slots ''echo a b c xls -s'' = Inr (SCmd 1, pool') \<and>
     chain [[''echo'', ''a'', ''b'', ''c''], [''ls'', ''-s'']] 1 (cb_pool pool')"
  by (simp add: parse_def two_slots_def sh_alloc_cmd_def parse_loop.simps elem_def parse_command_def set_arg_def set_buf_def
      put_def empty_cmd_def is_blank_def first_char_def get_arg_def put_cmd_def cmd_words_def argv_of_def str_at_def cstr_def NUL_def
      eval_nat_numeral)

end
