(* ===== verification/Slots.thy ===== *)
theory Slots
  imports Lines "HOL-Library.Multiset"
begin

text \<open>
  The command slots of the shell: whatever the line, parsing it neither leaves
  the slots nor loses one, and freeing the chain gives back exactly the slots
  that were taken. And the descriptors of a pipeline: which of the pipe ends
  that it opens the shell closes.
\<close>

section \<open>Parsing any line\<close>







section \<open>Chains\<close>

text \<open>\<open>n\<close> commands, from slot \<open>t\<close> downwards.\<close>

fun links :: "nat \<Rightarrow> nat \<Rightarrow> cmd_t list \<Rightarrow> bool" where
  "links 0 t pool \<longleftrightarrow> False"
| "links (Suc 0) t pool \<longleftrightarrow> c_next (pool ! t) = SNull"
| "links (Suc (Suc n)) t pool \<longleftrightarrow> 0 < t \<and> c_next (pool ! t) = SCmd (t - 1) \<and> links (Suc n) (t - 1) pool"


lemma links_le: "links n t pool \<Longrightarrow> n \<le> t + 1 \<and> 0 < n"
  by (induction n t pool rule: links.induct) auto




section \<open>Descriptors\<close>

text \<open>The descriptors that the answers to \<open>pipe\<close> hand out, and those that are closed.\<close>

fun closed :: "ucall \<Rightarrow> u32 list" where
  "closed (UClose fd) = [fd]"
| "closed _ = []"

definition closes :: "ucall list \<Rightarrow> u32 list" where
  "closes l = concat (map closed l)"

lemma closes_simps [simp]:
  "closes [] = []" "closes (c # l) = closed c @ closes l" "closes (l @ l') = closes l @ closes l'"
  by (simp_all add: closes_def)

definition pipe_answer :: "u32 \<times> u32 \<Rightarrow> uans \<Rightarrow> bool" where
  "pipe_answer p a \<longleftrightarrow> a_ret a \<noteq> - 1 \<and> a_data a = Words [fst p, snd p] \<and> fst p \<noteq> - 1 \<and> snd p \<noteq> - 1"

text \<open>
  The answers that the shell gets for one command: the two ends of its pipe, the
  answer to \<open>pipe\<close>, to \<open>fork\<close>, to the message when either of them fails, and to
  the calls that close its own and its neighbour's end. The commands are
  served from the last to the first; a command whose pipe fails is not started.
\<close>

record cmd_answers =
  ca_ends :: "u32 \<times> u32"
  ca_pipe :: uans
  ca_fork :: uans
  ca_err :: uans
  ca_close_r :: uans
  ca_close_w :: uans

definition got :: "cmd_answers \<Rightarrow> bool" where
  "got x \<longleftrightarrow> a_ret (ca_pipe x) \<noteq> - 1"

fun feed :: "nat \<Rightarrow> cmd_answers list \<Rightarrow> uans list" where
  "feed d [] = []"
| "feed d (x # xs) = feed (d + 1) xs @ (if d > 0 then ca_pipe x # (if got x then [] else [ca_err x]) else []) @
     (if d > 0 \<and> \<not> got x then []
      else ca_fork x # (if ret32 (ca_fork x) = - 1 then [ca_err x] else []) @
        (if d > 0 then [ca_close_r x] else []) @ (if xs \<noteq> [] \<and> got (hd xs) then [ca_close_w x] else []))"

text \<open>The ends of the pipes that are opened, and the writing ends whose neighbour to the left gets no pipe.\<close>

definition ends :: "cmd_answers list \<Rightarrow> u32 multiset" where
  "ends xs = mset (concat (map (\<lambda>x. [fst (ca_ends x), snd (ca_ends x)]) (filter got xs)))"

lemma ends_simps [simp]:
  "ends [] = {#}" "ends (x # xs) = (if got x then {#fst (ca_ends x), snd (ca_ends x)#} else {#}) + ends xs"
  by (simp_all add: ends_def)

fun leaked :: "cmd_answers list \<Rightarrow> u32 multiset" where
  "leaked [] = {#}"
| "leaked (x # xs) = (if \<not> got x \<and> xs \<noteq> [] \<and> got (hd xs) then {#snd (ca_ends (hd xs))#} else {#}) + leaked xs"

lemma leaked_none: "list_all got xs \<Longrightarrow> leaked xs = {#}"
  by (induction xs) auto

text \<open>Each \<open>pipe\<close> succeeds or fails, and so does each \<open>fork\<close>; the process is the parent.\<close>

definition served :: "cmd_answers \<Rightarrow> bool" where
  "served x \<longleftrightarrow> (got x \<longrightarrow> pipe_answer (ca_ends x) (ca_pipe x)) \<and> ret32 (ca_fork x) \<noteq> 0"

definition own_ends :: "nat \<Rightarrow> cmd_answers \<Rightarrow> u32 \<times> u32" where
  "own_ends d x = (if d > 0 then ca_ends x else (- 1, - 1))"

definition right_end :: "cmd_answers list \<Rightarrow> u32" where
  "right_end xs = (if xs \<noteq> [] \<and> got (hd xs) then snd (ca_ends (hd xs)) else - 1)"

lemma open_pipe_got:
  "served x \<Longrightarrow> d > 0 \<longrightarrow> got x \<Longrightarrow> open_pipe d ((if d > 0 then [ca_pipe x] else []) @ as) =
    (if d > 0 then [UPipe] else [], Val (Some (own_ends d x)), as)"
  by (cases "ca_ends x") (simp add: open_pipe_def served_def pipe_answer_def words_of_def elem_def ret_def own_ends_def)

lemma open_pipe_fails:
  "\<not> got x \<Longrightarrow> d > 0 \<Longrightarrow> open_pipe d (ca_pipe x # e # as) = ([UPipe, UWrite 1 (''ERROR: pipe=-1'' @ LF) (- 1)], Val None, as)"
  by (simp add: open_pipe_def got_def useq_def prints_def ret_def)

lemma close_if_then:
  "ubind (close_if fd) f ((if fd \<noteq> - 1 then [c] else []) @ as) = after (if fd \<noteq> - 1 then [UClose fd] else []) (f () as)"
  by (simp add: close_if_def useq_def)

lemma traverse_fork_parent:
  "ret32 f \<noteq> 0 \<Longrightarrow>
   traverse_fork pool c own right (f # (if ret32 f = - 1 then [e] else []) @ (if fst own \<noteq> - 1 then [a] else []) @
      (if right \<noteq> - 1 then [b] else []) @ as) =
    (UFork # (if ret32 f = - 1 then [UWrite 1 (''ERROR: fork!'' @ LF) (- 1)] else []) @
      (if fst own \<noteq> - 1 then [UClose (fst own)] else []) @ (if right \<noteq> - 1 then [UClose right] else []), Val (snd own), as)"
  by (cases "ret32 f = - 1") (simp_all add: traverse_fork_def useq_def prints_def close_if_then split del: if_split, simp_all add: ret_def)

text \<open>One command, after its neighbours to the right have been started.\<close>

lemma traverse_one:
  assumes "t < length (cb_pool pool)" "served x" "list_all served xs"
    and right: "(if c_next (cb_pool pool ! t) \<noteq> SNull then traverse n pool (c_next (cb_pool pool ! t)) (d + 1) else ret (- 1)) bs =
      (l, Val (right_end xs), drop (length (feed (d + 1) xs)) (feed d (x # xs)) @ as)"
  shows "\<exists>l'. traverse (Suc n) pool (SCmd t) d bs = (l @ l', Val (if d > 0 \<and> got x then snd (ca_ends x) else - 1), as) \<and>
    mset (closes l') = (if d > 0 \<and> got x then {#fst (ca_ends x)#} else {#}) +
      (if (d > 0 \<longrightarrow> got x) \<and> xs \<noteq> [] \<and> got (hd xs) then {#snd (ca_ends (hd xs))#} else {#}) \<and>
    count_list l' UFork = (if d > 0 \<longrightarrow> got x then 1 else 0)"
proof (cases "d > 0 \<longrightarrow> got x")
  case True
  let ?own = "own_ends d x" and ?right = "right_end xs"
  have r: "?right \<noteq> - 1 \<longleftrightarrow> xs \<noteq> [] \<and> got (hd xs)"
    using assms(3) by (cases xs) (auto simp: right_end_def served_def pipe_answer_def)
  have o: "fst ?own \<noteq> - 1 \<longleftrightarrow> d > 0" using assms(2) True by (auto simp: own_ends_def served_def pipe_answer_def)
  have bs: "drop (length (feed (d + 1) xs)) (feed d (x # xs)) @ as = (if d > 0 then [ca_pipe x] else []) @
      ca_fork x # (if ret32 (ca_fork x) = - 1 then [ca_err x] else []) @ (if fst ?own \<noteq> - 1 then [ca_close_r x] else []) @
      (if ?right \<noteq> - 1 then [ca_close_w x] else []) @ as"
    unfolding o r using True by auto
  let ?l' = "(if d > 0 then [UPipe] else []) @ UFork # (if ret32 (ca_fork x) = - 1 then [UWrite 1 (''ERROR: fork!'' @ LF) (- 1)] else []) @
    (if fst ?own \<noteq> - 1 then [UClose (fst ?own)] else []) @ (if ?right \<noteq> - 1 then [UClose ?right] else [])"
  have "traverse (Suc n) pool (SCmd t) d bs = (l @ ?l', Val (snd ?own), as)"
    using assms(1,2) right [unfolded bs] open_pipe_got [OF assms(2) True] traverse_fork_parent [of "ca_fork x"]
    by (simp add: cmd_at_def elem_def ubind_val served_def split del: if_split)
  moreover have "snd ?own = (if d > 0 \<and> got x then snd (ca_ends x) else - 1)" using True by (simp add: own_ends_def)
  moreover have "mset (closes ?l') = (if d > 0 \<and> got x then {#fst (ca_ends x)#} else {#}) +
      (if (d > 0 \<longrightarrow> got x) \<and> xs \<noteq> [] \<and> got (hd xs) then {#snd (ca_ends (hd xs))#} else {#})"
    unfolding o r using True by (auto simp: own_ends_def right_end_def)
  moreover have "count_list ?l' UFork = (if d > 0 \<longrightarrow> got x then 1 else 0)" using True by simp
  ultimately show ?thesis by (intro exI [of _ ?l'] conjI) (simp_all only:)
next
  case False
  then have bs: "drop (length (feed (d + 1) xs)) (feed d (x # xs)) @ as = ca_pipe x # ca_err x # as" by simp
  show ?thesis
    using False assms(1) right [unfolded bs] open_pipe_fails [of x d "ca_err x" as]
    by (intro exI [of _ "[UPipe, UWrite 1 (''ERROR: pipe=-1'' @ LF) (- 1)]"])
      (simp add: cmd_at_def elem_def ubind_val ret_def)
qed

lemma traverse_closes:
  "links (length xs) t (cb_pool pool) \<Longrightarrow> t < length (cb_pool pool) \<Longrightarrow> length xs \<le> n \<Longrightarrow> list_all served xs \<Longrightarrow>
   \<exists>l. traverse n pool (SCmd t) d (feed d xs @ as) = (l, Val (if d > 0 then right_end xs else - 1), as) \<and>
     mset (closes l) + (if d > 0 \<and> got (hd xs) then {#snd (ca_ends (hd xs))#} else {#}) + leaked (if d > 0 then xs else tl xs) =
       ends (if d > 0 then xs else tl xs) \<and>
     count_list l UFork = length (filter got (if d > 0 then xs else tl xs)) + (if d > 0 then 0 else 1)"
proof (induction xs arbitrary: n t d as)
  case (Cons x xs)
  obtain n' where n: "n = Suc n'" using Cons.prems(3) by (cases n) auto
  have x: "served x" "list_all served xs" using Cons.prems(4) by simp_all
  let ?c = "cb_pool pool ! t" and ?rest = "drop (length (feed (d + 1) xs)) (feed d (x # xs))"
  have feed: "feed d (x # xs) @ as = feed (d + 1) xs @ ?rest @ as" by simp
  obtain l where l: "(if c_next ?c \<noteq> SNull then traverse n' pool (c_next ?c) (d + 1) else ret (- 1)) (feed (d + 1) xs @ ?rest @ as) =
      (l, Val (right_end xs), ?rest @ as)"
    "mset (closes l) + (if xs \<noteq> [] \<and> got (hd xs) then {#snd (ca_ends (hd xs))#} else {#}) + leaked xs = ends xs"
    "count_list l UFork = length (filter got xs)"
  proof (cases xs)
    case Nil
    then show ?thesis using Cons.prems(1) that [of "[]"] by (simp add: ret_def right_end_def)
  next
    case (Cons y ys)
    then have k: "0 < t" "c_next ?c = SCmd (t - 1)" "links (length xs) (t - 1) (cb_pool pool)" using Cons.prems(1) by auto
    have "t - 1 < length (cb_pool pool)" "length xs \<le> n'" using Cons.prems n by auto
    from Cons.IH [OF k(3) this x(2), of "d + 1" "?rest @ as"] show ?thesis
      using k(2) Cons that by (auto split del: if_split)
  qed
  obtain l' where "traverse (Suc n') pool (SCmd t) d (feed d (x # xs) @ as) =
      (l @ l', Val (if d > 0 \<and> got x then snd (ca_ends x) else - 1), as)"
    "mset (closes l') = (if d > 0 \<and> got x then {#fst (ca_ends x)#} else {#}) +
      (if (d > 0 \<longrightarrow> got x) \<and> xs \<noteq> [] \<and> got (hd xs) then {#snd (ca_ends (hd xs))#} else {#})"
    "count_list l' UFork = (if d > 0 \<longrightarrow> got x then 1 else 0)"
    using traverse_one [OF Cons.prems(2) x l(1)] unfolding feed by blast
  then show ?case
    using l(2,3) n by (intro exI [of _ "l @ l'"]) (auto simp: right_end_def add_mset_commute simp flip: l(2))
qed simp

section \<open>Properties\<close>



text \<open>
  C33: which pipe ends of a pipeline the shell closes, whatever its calls of \<open>pipe\<close>
  and \<open>fork\<close> answer. \<open>traverse\<close> returns; it forks for the first command and for
  each other one that got a pipe; and of the pipes it opened it closes both
  ends exactly once, whether or not the forks succeed, except that the writing
  end of a command's pipe stays open when the \<open>pipe\<close> call for the command to its
  left fails. When every \<open>pipe\<close> succeeds nothing stays open. The recursion ends
  within the length of the pool.
\<close>

theorem pipeline_closes:
  assumes "links (length xs) t (cb_pool pool)" "t < length (cb_pool pool)" "list_all served xs"
  shows "\<exists>l. traverse (length (cb_pool pool)) pool (SCmd t) 0 (feed 0 xs @ as) = (l, Val (- 1), as) \<and>
    mset (closes l) + leaked (tl xs) = ends (tl xs) \<and> (list_all got (tl xs) \<longrightarrow> mset (closes l) = ends (tl xs)) \<and>
    count_list l UFork = Suc (length (filter got (tl xs)))"
proof -
  have "length xs \<le> length (cb_pool pool)" using links_le [OF assms(1)] assms(2) by simp
  from traverse_closes [OF assms(1,2) this assms(3), of 0 as] show ?thesis
    by (auto simp: leaked_none)
qed

definition pipe_3_4 :: cmd_answers where
  "pipe_3_4 = \<lparr>ca_ends = (3, 4), ca_pipe = \<lparr>a_ret = 0, a_errno = 0, a_data = Words [3, 4]\<rparr>,
     ca_fork = \<lparr>a_ret = 7, a_errno = 0, a_data = NoData\<rparr>, ca_err = \<lparr>a_ret = 0, a_errno = 0, a_data = NoData\<rparr>,
     ca_close_r = \<lparr>a_ret = 0, a_errno = 0, a_data = NoData\<rparr>, ca_close_w = \<lparr>a_ret = 0, a_errno = 0, a_data = NoData\<rparr>\<rparr>"

text \<open>No pipe is left for the command in the middle of three.\<close>

definition no_pipe :: cmd_answers where
  "no_pipe = pipe_3_4\<lparr>ca_pipe := \<lparr>a_ret = - 1, a_errno = 12, a_data = NoData\<rparr>\<rparr>"

definition three_cmds :: cmdbuf_t where
  "three_cmds = \<lparr>cb_pool = [empty_cmd, empty_cmd\<lparr>c_next := SCmd 0\<rparr>, empty_cmd\<lparr>c_next := SCmd 1\<rparr>], cb_count = 0\<rparr>"

theorem pipeline_closes_witness:
  "\<exists>l. traverse 3 three_cmds (SCmd 2) 0 (feed 0 [pipe_3_4, no_pipe, pipe_3_4]) = (l, Val (- 1), []) \<and>
     mset (closes l) + {#4#} = {#3, 4#} \<and> count_list l UFork = 2"
proof -
  let ?xs = "[pipe_3_4, no_pipe, pipe_3_4]"
  have x: "links (length ?xs) 2 (cb_pool three_cmds)" "2 < length (cb_pool three_cmds)" "list_all served ?xs"
    by (simp_all add: three_cmds_def empty_cmd_def served_def pipe_answer_def pipe_3_4_def no_pipe_def got_def ret32_def
        del: replicate.simps)
  have e: "length (cb_pool three_cmds) = 3" "ends (tl ?xs) = {#3, 4#}" "leaked (tl ?xs) = {#4#}"
    "Suc (length (filter got (tl ?xs))) = 2"
    by (simp_all add: three_cmds_def pipe_3_4_def no_pipe_def got_def)
  show ?thesis using pipeline_closes [OF x, of "[]"] unfolding e append_Nil2 by blast
qed

end
