(* ===== verification/Console.thy ===== *)
theory Console
  imports Uart
begin

text \<open>
  The console's line discipline from the receive interrupt to the reader: what
  is typed, with corrections, arrives as one edited line, wherever in the ring
  the positions stand.
\<close>

section \<open>The reference: editing a line\<close>

text \<open>A delete character removes the last character that is left.\<close>

definition edit1 :: "char \<Rightarrow> string \<Rightarrow> string" where
  "edit1 ch e = (if ch = ASCII_DEL then butlast e else e @ [ch])"

definition edit :: "string \<Rightarrow> string" where
  "edit w = fold edit1 w []"

definition plain_key :: "char \<Rightarrow> bool" where
  "plain_key ch \<longleftrightarrow> ch \<noteq> CR \<and> ch \<noteq> LF"

section \<open>The ring\<close>

text \<open>The ring holds the text \<open>e\<close> between the positions \<open>p\<close> and \<open>wpos\<close>.\<close>

definition holds :: "nat \<Rightarrow> string \<Rightarrow> nat \<Rightarrow> uart_state_t \<Rightarrow> bool" where
  "holds p e wpos u \<longleftrightarrow> p < 64 \<and> length (rxbuf u) = 64 \<and> rx_rpos u = p \<and> wpos = (p + length e) mod 64 \<and> length e < 64 \<and>
     (\<forall>i < length e. rxbuf u ! ((p + i) mod 64) = e ! i)"

lemma mod64: "x < 128 \<Longrightarrow> x mod 64 = (if x < 64 then x else x - 64 :: nat)"
  by (simp add: mod_if)

lemma ring_pos: "p < 64 \<Longrightarrow> i < 64 \<Longrightarrow> j < 64 \<Longrightarrow> (p + i) mod 64 = (p + j) mod 64 \<longleftrightarrow> i = (j :: nat)"
  by (auto simp: mod64)

lemma wrap_Suc: "x < 64 \<Longrightarrow> (if x + 1 \<ge> 64 then 0 else x + 1) = (x + 1) mod (64 :: nat)"
  by (simp add: mod64)

lemma wrap_prev: "p < 64 \<Longrightarrow> n < 63 \<Longrightarrow> (if (p + (n + 1)) mod 64 = 0 then 63 else (p + (n + 1)) mod 64 - 1) = (p + n) mod (64 :: nat)"
  by (auto simp: mod64)

lemma holds_push:
  assumes "holds p e wpos u" "length e < 63"
  shows "holds p (e @ [ch]) ((wpos + 1) mod 64) (u\<lparr>rxbuf := (rxbuf u)[wpos := ch]\<rparr>)" "(wpos + 1) mod 64 \<noteq> p"
proof -
  have w: "wpos = (p + length e) mod 64" "p < 64" "length (rxbuf u) = 64" using assms(1) by (auto simp: holds_def)
  have "wpos \<noteq> (p + i) mod 64" if "i < length e" for i
    using that w assms(2) ring_pos [of p i "length e"] by auto
  moreover have "(rxbuf u)[wpos := ch] ! ((p + length e) mod 64) = ch" unfolding w(1) using w(3) by simp
  ultimately show "holds p (e @ [ch]) ((wpos + 1) mod 64) (u\<lparr>rxbuf := (rxbuf u)[wpos := ch]\<rparr>)"
    using assms w by (auto simp: holds_def nth_append mod_Suc_eq less_Suc_eq)
  show "(wpos + 1) mod 64 \<noteq> p"
    using ring_pos [of p "length e + 1" 0] w assms(2) by (simp add: mod_Suc_eq)
qed

lemma holds_del:
  assumes "holds p e wpos u" "LF \<notin> set e"
  shows "holds p (butlast e) (decrement_wpos wpos u) u" "decrement_wpos wpos u \<noteq> wpos \<longleftrightarrow> e \<noteq> []"
proof -
  have h: "p < 64" "rx_rpos u = p" "wpos = (p + length e) mod 64" "length e < 64" using assms(1) by (auto simp: holds_def)
  have "holds p (butlast e) (decrement_wpos wpos u) u \<and> (decrement_wpos wpos u \<noteq> wpos \<longleftrightarrow> e \<noteq> [])"
  proof (cases e rule: rev_cases)
    case Nil
    then show ?thesis using assms(1) h by (simp add: decrement_wpos_def)
  next
    case (snoc e' c)
    have ne: "wpos \<noteq> p" using ring_pos [of p "length e" 0] h snoc by simp
    have prev: "(if wpos = 0 then 63 else wpos - 1) = (p + length e') mod 64"
    proof -
      have w: "wpos = (p + (length e' + 1)) mod 64" "length e' < 63" using h(3,4) snoc by simp_all
      show ?thesis unfolding w(1) by (rule wrap_prev [OF h(1) w(2)])
    qed
    have "rxbuf u ! ((p + length e') mod 64) = c" using assms(1) snoc by (auto simp: holds_def)
    then have d: "decrement_wpos wpos u = (p + length e') mod 64"
      using ne h(2) prev assms(2) snoc by (auto simp: decrement_wpos_def Let_def split: if_splits)
    have "(p + length e') mod 64 \<noteq> wpos" using ring_pos [of p "length e'" "length e"] h snoc by simp
    moreover have "holds p e' ((p + length e') mod 64) u" using assms(1) snoc by (auto simp: holds_def nth_append)
    ultimately show ?thesis using d snoc by simp
  qed
  then show "holds p (butlast e) (decrement_wpos wpos u) u" "decrement_wpos wpos u \<noteq> wpos \<longleftrightarrow> e \<noteq> []" by auto
qed

section \<open>Typing\<close>

text \<open>The parts of the kernel that typing before the end of the line leaves alone, and the state of the ring.\<close>

definition typing :: "kernel \<Rightarrow> nat \<Rightarrow> string \<Rightarrow> nat \<Rightarrow> kernel \<Rightarrow> bool" where
  "typing k0 p e wpos k \<longleftrightarrow> holds p e wpos (k_uart0 k) \<and> rx_num_newlines (k_uart0 k) = 0 \<and> rx_buff_full (k_uart0 k) = 0 \<and>
     k_mem k = k_mem k0 \<and> k_proc_table k = k_proc_table k0"

lemma enqueue_plain:
  assumes "typing k0 p e wpos k" "plain_key ch" "length (edit1 ch e) < 64" "LF \<notin> set e"
  shows "\<exists>wpos' n' k'. enqueue_char ch wpos n k = Inr (wpos', n', k') \<and> typing k0 p (edit1 ch e) wpos' k'"
proof (cases "ch = ASCII_DEL")
  case True
  have h: "holds p e wpos (k_uart0 k)" using assms(1) by (simp add: typing_def)
  show ?thesis
    using holds_del [OF h assms(4)] assms(1) True
    by (cases "e = []") (auto simp: enqueue_char_def typing_def edit1_def Let_def uart_writechar_def upd_uart_def)
next
  case False
  have h: "holds p e wpos (k_uart0 k)" "length e < 63" using assms(1,3) False by (auto simp: typing_def edit1_def)
  have w: "wpos < 64" "rx_rpos (k_uart0 k) = p" using h(1) by (auto simp: holds_def)
  show ?thesis
    using holds_push(1) [OF h, of ch] holds_push(2) [OF h] assms(1,2) False w wrap_Suc [OF w(1)]
    by (auto simp: enqueue_char_def typing_def edit1_def Let_def uart_writechar_def upd_uart_def plain_key_def)
qed

lemma edit1_set: "ch \<noteq> LF \<Longrightarrow> LF \<notin> set e \<Longrightarrow> LF \<notin> set (edit1 ch e)"
  by (auto simp: edit1_def dest: in_set_butlastD)

text \<open>Every intermediate text fits in the ring with its newline.\<close>

fun fits :: "string \<Rightarrow> string \<Rightarrow> bool" where
  "fits e [] \<longleftrightarrow> length e < 63"
| "fits e (ch # w) \<longleftrightarrow> length (edit1 ch e) < 63 \<and> fits (edit1 ch e) w"

lemma enqueue_typed:
  "typing k0 p e wpos k \<Longrightarrow> list_all plain_key w \<Longrightarrow> fits e w \<Longrightarrow> LF \<notin> set e \<Longrightarrow>
   \<exists>wpos' n' k'. typing k0 p (fold edit1 w e) wpos' k' \<and> LF \<notin> set (fold edit1 w e) \<and> length (fold edit1 w e) < 63 \<and>
     enqueue_loop (w @ rest) wpos n k = enqueue_loop rest wpos' n' k'"
proof (induction w arbitrary: e wpos n k)
  case (Cons ch w)
  have t: "typing k0 p e wpos (k\<lparr>k_rx := w @ rest\<rparr>)" using Cons.prems(1) by (simp add: typing_def)
  obtain wpos' n' k' where s: "enqueue_char ch wpos n (k\<lparr>k_rx := w @ rest\<rparr>) = Inr (wpos', n', k')"
    "typing k0 p (edit1 ch e) wpos' k'"
    using enqueue_plain [OF t, of ch n] Cons.prems by auto
  have "LF \<notin> set (edit1 ch e)" using edit1_set Cons.prems by (simp add: plain_key_def)
  with Cons.IH [OF s(2), of n'] Cons.prems s(1) show ?case by simp
qed auto

section \<open>Reading\<close>

lemma readline_holds:
  "holds p (e @ [LF]) wpos (k_uart0 k) \<Longrightarrow> LF \<notin> set e \<Longrightarrow> i \<le> length e \<Longrightarrow> length e - i < n \<Longrightarrow>
   readline_loop n buf ((p + i) mod 64) wpos i k =
    ((p + length e + 1) mod 64, length e,
     upd_uart (\<lambda>u. u\<lparr>rx_num_newlines := rx_num_newlines u - 1\<rparr>)
       (k\<lparr>k_mem := store_bytes (k_mem k) (buf + of_nat i) (map of_char (drop i e))\<rparr>))"
proof (induction n arbitrary: i k)
  case (Suc n)
  have h: "p < 64" "wpos = (p + length (e @ [LF])) mod 64" "length (e @ [LF]) < 64"
    "rxbuf (k_uart0 k) ! ((p + i) mod 64) = (e @ [LF]) ! i" using Suc.prems by (auto simp: holds_def)
  have ne: "(p + i) mod 64 \<noteq> wpos" using ring_pos [of p i "length (e @ [LF])"] h Suc.prems(3) by simp
  have nx: "(if (p + i) mod 64 + 1 = 64 then 0 else (p + i) mod 64 + 1) = (p + (i + 1)) mod 64"
    using h(1,3) Suc.prems(3) by (auto simp: mod64)
  show ?case
  proof (cases "i = length e")
    case True
    then show ?thesis using h ne nx by (auto simp: add.assoc split: if_splits)
  next
    case False
    then have i: "i < length e" using Suc.prems(3) by simp
    have c: "(e @ [LF]) ! i = e ! i" "e ! i \<noteq> LF" using i Suc.prems(2) by (auto simp: nth_append in_set_conv_nth)
    let ?k = "k\<lparr>k_mem := (k_mem k)(buf + of_nat i := of_char (e ! i))\<rparr>"
    have hk: "holds p (e @ [LF]) wpos (k_uart0 ?k)" "i + 1 \<le> length e" "length e - (i + 1) < n"
      using Suc.prems(1,4) i by simp_all
    have r: "readline_loop n buf ((p + (i + 1)) mod 64) wpos (i + 1) ?k =
      ((p + length e + 1) mod 64, length e, upd_uart (\<lambda>u. u\<lparr>rx_num_newlines := rx_num_newlines u - 1\<rparr>)
       (?k\<lparr>k_mem := store_bytes (k_mem ?k) (buf + of_nat (i + 1)) (map of_char (drop (i + 1) e))\<rparr>))"
      by (rule Suc.IH [OF hk(1) Suc.prems(2) hk(2,3)])
    have step: "readline_loop (Suc n) buf ((p + i) mod 64) wpos i k = readline_loop n buf ((p + (i + 1)) mod 64) wpos (i + 1) ?k"
      unfolding readline_loop.simps Let_def UART_BUF_SZ_def nx h(4) c(1) using c(2) ne by simp
    have "drop i e = e ! i # drop (i + 1) e" using i by (simp add: Cons_nth_drop_Suc)
    then show ?thesis unfolding step r by (simp add: ac_simps)
  qed
qed simp

text \<open>With room for at most the rest of the line the loop stops in front of what it has not copied.\<close>

lemma readline_part:
  "holds p (e @ [LF]) wpos (k_uart0 k) \<Longrightarrow> LF \<notin> set e \<Longrightarrow> i + n \<le> length e \<Longrightarrow>
   readline_loop n buf ((p + i) mod 64) wpos i k =
    ((p + i + n) mod 64, i + n, k\<lparr>k_mem := store_bytes (k_mem k) (buf + of_nat i) (map of_char (take n (drop i e)))\<rparr>)"
proof (induction n arbitrary: i k)
  case (Suc n)
  have i: "i < length e" using Suc.prems(3) by simp
  have h: "p < 64" "wpos = (p + length (e @ [LF])) mod 64" "length (e @ [LF]) < 64"
    "rxbuf (k_uart0 k) ! ((p + i) mod 64) = e ! i" using Suc.prems(1) i by (auto simp: holds_def nth_append)
  have ne: "(p + i) mod 64 \<noteq> wpos" using ring_pos [of p i "length (e @ [LF])"] h i by simp
  have nx: "(if (p + i) mod 64 + 1 = 64 then 0 else (p + i) mod 64 + 1) = (p + (i + 1)) mod 64"
    using h(1,3) i by (auto simp: mod64)
  have c: "e ! i \<noteq> LF" using i Suc.prems(2) by (auto simp: in_set_conv_nth)
  let ?k = "k\<lparr>k_mem := (k_mem k)(buf + of_nat i := of_char (e ! i))\<rparr>"
  have r: "readline_loop n buf ((p + (i + 1)) mod 64) wpos (i + 1) ?k = ((p + (i + 1) + n) mod 64, i + 1 + n,
      ?k\<lparr>k_mem := store_bytes (k_mem ?k) (buf + of_nat (i + 1)) (map of_char (take n (drop (i + 1) e)))\<rparr>)"
    using Suc.prems by (intro Suc.IH) simp_all
  have step: "readline_loop (Suc n) buf ((p + i) mod 64) wpos i k = readline_loop n buf ((p + (i + 1)) mod 64) wpos (i + 1) ?k"
    unfolding readline_loop.simps Let_def UART_BUF_SZ_def nx h(4) using c ne by simp
  have "take (Suc n) (drop i e) = e ! i # take n (drop (i + 1) e)" using i by (simp flip: Cons_nth_drop_Suc)
  then show ?case unfolding step r by (simp add: ac_simps)
qed simp

lemma holds_drop:
  assumes "holds p (e @ [LF]) wpos u" "n \<le> length e" "rx_rpos u' = (p + n) mod 64" "rxbuf u' = rxbuf u"
  shows "holds ((p + n) mod 64) (drop n e @ [LF]) wpos u'"
proof -
  have h: "p < 64" "length (rxbuf u) = 64" "wpos = (p + length (e @ [LF])) mod 64" "length (e @ [LF]) < 64"
    "\<forall>i < length (e @ [LF]). rxbuf u ! ((p + i) mod 64) = (e @ [LF]) ! i" using assms(1) by (auto simp: holds_def)
  have "rxbuf u ! (((p + n) mod 64 + i) mod 64) = (drop n e @ [LF]) ! i" if "i < length (drop n e @ [LF])" for i
  proof -
    have "((p + n) mod 64 + i) mod 64 = (p + (n + i)) mod 64" by (simp add: mod_simps add.assoc)
    moreover have "drop n e @ [LF] = drop n (e @ [LF])" "n \<le> length (e @ [LF])" using assms(2) by simp_all
    then have "(drop n e @ [LF]) ! i = (e @ [LF]) ! (n + i)" by (simp only: nth_drop)
    ultimately show ?thesis using h(5) that assms(2) by simp
  qed
  moreover have "wpos = ((p + n) mod 64 + length (drop n e @ [LF])) mod 64"
  proof -
    have "p + n + length (drop n e @ [LF]) = p + length (e @ [LF])" using assms(2) by simp
    then show ?thesis using h(3) by (simp only: mod_add_left_eq)
  qed
  ultimately show ?thesis using h(2,4) assms(2-4) by (simp add: holds_def)
qed

text \<open>One read: the line up to the size of the buffer; what did not fit, and the end of the line, stay in the ring.\<close>

lemma line_read:
  assumes "holds p (e @ [LF]) (rx_wpos (k_uart0 k)) (k_uart0 k)" "rx_num_newlines (k_uart0 k) = 1" "LF \<notin> set e"
  shows "\<exists>k'. uart_readline_copy buf bufsize k = (int (min (length e) (unat bufsize)), k') \<and>
    k_mem k' = store_bytes (k_mem k) buf (map of_char (take (unat bufsize) e)) \<and>
    (if length e < unat bufsize
     then holds (rx_wpos (k_uart0 k')) [] (rx_wpos (k_uart0 k')) (k_uart0 k') \<and> rx_num_newlines (k_uart0 k') = 0
     else holds ((p + unat bufsize) mod 64) (drop (unat bufsize) e @ [LF]) (rx_wpos (k_uart0 k')) (k_uart0 k') \<and>
       rx_num_newlines (k_uart0 k') = 1)"
proof -
  define n where "n = unat bufsize"
  let ?w = "rx_wpos (k_uart0 k)"
  have p: "p < 64" "p mod 64 = p" "rx_rpos (k_uart0 k) = p" "?w = (p + length e + 1) mod 64" "length (rxbuf (k_uart0 k)) = 64"
    "length e < 64" using assms(1) by (auto simp: holds_def)
  have s: "sint (of_nat m :: u32) = int m" if "m \<le> length e" for m
    using p(6) that by (intro sint_of_nat32) simp
  show ?thesis
  proof (cases "length e < n")
    case True
    have "readline_loop n buf p ?w 0 k = (?w, length e,
        upd_uart (\<lambda>u. u\<lparr>rx_num_newlines := rx_num_newlines u - 1\<rparr>) (k\<lparr>k_mem := store_bytes (k_mem k) buf (map of_char e)\<rparr>))"
      using readline_holds [OF assms(1,3), of 0 n buf] True p by simp
    moreover have "?w < 64" using p(4) by simp
    ultimately show ?thesis
      unfolding uart_readline_copy_def n_def [symmetric] using p(3,5) assms(2) True s by (simp add: upd_uart_def Let_def holds_def)
  next
    case False
    then have n: "n \<le> length e" "min (length e) n = n" by simp_all
    have "readline_loop n buf p ?w 0 k = ((p + n) mod 64, n, k\<lparr>k_mem := store_bytes (k_mem k) buf (map of_char (take n e))\<rparr>)"
      using readline_part [OF assms(1,3), of 0 n buf] n(1) p by simp
    moreover have "holds ((p + n) mod 64) (drop n e @ [LF]) ?w (u\<lparr>rx_rpos := (p + n) mod 64\<rparr>)" if "rxbuf u = rxbuf (k_uart0 k)" for u
      using that by (intro holds_drop [OF assms(1) n(1)]) simp_all
    ultimately show ?thesis
      unfolding uart_readline_copy_def n_def [symmetric] using False n(2) p(2,3) assms(2) s [OF n(1)]
      by (cases "n = 0") (simp_all add: upd_uart_def Let_def)
  qed
qed

lemma return_enqueued:
  assumes "typing k0 p e wpos k" "length e < 63" "pt_lock (k_proc_table k0) = 0" "pt_num_procs (k_proc_table k0) \<noteq> 0"
    "length (procs k0) = MAX_PROCS" "wakeable ChanUart (procs k0)"
  shows "\<exists>wpos' n' k'. enqueue_loop [CR] wpos n k = Inr (wpos', n', k') \<and> procs k' = map (wake1 ChanUart (procs k0)) (procs k0) \<and>
    holds p (e @ [LF]) wpos' (k_uart0 k') \<and> rx_num_newlines (k_uart0 k') = 1 \<and> k_mem k' = k_mem k0"
proof -
  have h: "holds p e wpos (k_uart0 k)" "rx_num_newlines (k_uart0 k) = 0" "rx_buff_full (k_uart0 k) = 0" "k_mem k = k_mem k0"
    "k_proc_table k = k_proc_table k0" using assms(1) by (auto simp: typing_def)
  have w: "wpos < 64" "rx_rpos (k_uart0 k) = p" using h(1) by (auto simp: holds_def)
  let ?u = "\<lambda>u. u\<lparr>rx_num_newlines := rx_num_newlines u + 1\<rparr>"
  let ?kb = "upd_uart ?u (k\<lparr>k_rx := []\<rparr>)"
  have pt: "k_proc_table ?kb = k_proc_table k0" using h(5) by (simp add: upd_uart_def)
  obtain kc where c: "proc_mark_for_wakeup ChanUart ?kb = Inr kc" "procs kc = map (wake1 ChanUart (procs k0)) (procs k0)"
    "kc = ?kb\<lparr>k_proc_table := (k_proc_table ?kb)\<lparr>pt_procs := procs kc\<rparr>, k_unsleep_scheduler := k_unsleep_scheduler kc\<rparr>"
    using mark_wakeup [of ?kb ChanUart] assms(3-6) pt by auto
  have uc: "k_uart0 kc = ?u (k_uart0 k)" "k_mem kc = k_mem k0"
    using h(4) by (subst c(3), simp add: upd_uart_def)+
  let ?k' = "upd_uart (\<lambda>u. u\<lparr>rxbuf := (rxbuf u)[wpos := LF]\<rparr>) (uart_writechar LF kc)"
  have "CR \<noteq> ASCII_DEL" by (simp add: CR_def ASCII_DEL_def)
  then have "enqueue_loop [CR] wpos n k = Inr ((wpos + 1) mod 64, n + 1, ?k')"
    using c(1) uc h(3) w wrap_Suc [OF w(1)] holds_push(2) [OF h(1) assms(2)]
    by (simp add: enqueue_char_def upd_uart_def uart_writechar_def Let_def)
  moreover have "holds p (e @ [LF]) ((wpos + 1) mod 64) (k_uart0 ?k')"
    using holds_push(1) [OF h(1) assms(2), of LF] uc by (simp add: holds_def upd_uart_def uart_writechar_def)
  moreover have "rx_num_newlines (k_uart0 ?k') = 1" "k_mem ?k' = k_mem k0" "procs ?k' = procs kc"
    using uc h(2) by (simp_all add: upd_uart_def uart_writechar_def)
  ultimately show ?thesis using c(2) by auto
qed

section \<open>Properties\<close>

text \<open>
  C34: a typed line reaches its reader: when the ring is empty, at whatever
  position, and the characters \<open>w\<close> (none of them a line end, deletions allowed)
  followed by a carriage return arrive, \<open>uart_enqueue_chars\<close> wakes the processes that
  wait for the console, and a read then returns the line as edited, up to the
  size of its buffer. With a buffer larger than the line that is all of it, and
  the ring is empty; otherwise what did not fit, with the end of the line, stays
  in the ring for the next read. The line must have at most 62 characters at any
  time, and the processes that wait for the console must not be locked.
\<close>

theorem typed_line_is_read:
  assumes "holds p [] (rx_wpos (k_uart0 k)) (k_uart0 k)" "rx_num_newlines (k_uart0 k) = 0" "rx_buff_full (k_uart0 k) = 0"
    "k_rx k = w @ [CR]" "list_all plain_key w" "fits [] w"
    "pt_lock (k_proc_table k) = 0" "pt_num_procs (k_proc_table k) \<noteq> 0" "length (procs k) = MAX_PROCS"
    "wakeable ChanUart (procs k)"
  shows "\<exists>n k1 k2. uart_enqueue_chars k = Inr (n, k1) \<and> procs k1 = map (wake1 ChanUart (procs k)) (procs k) \<and>
    can_read_from (k_uart0 k1) \<and> uart_readline_copy buf bufsize k1 = (int (min (length (edit w)) (unat bufsize)), k2) \<and>
    k_mem k2 = store_bytes (k_mem k) buf (map of_char (take (unat bufsize) (edit w))) \<and>
    (if length (edit w) < unat bufsize
     then holds (rx_wpos (k_uart0 k2)) [] (rx_wpos (k_uart0 k2)) (k_uart0 k2) \<and> rx_num_newlines (k_uart0 k2) = 0
     else holds ((p + unat bufsize) mod 64) (drop (unat bufsize) (edit w) @ [LF]) (rx_wpos (k_uart0 k2)) (k_uart0 k2) \<and>
       rx_num_newlines (k_uart0 k2) = 1 \<and> can_read_from (k_uart0 k2))"
proof -
  have "typing k p [] (rx_wpos (k_uart0 k)) k" using assms(1-3) by (simp add: typing_def)
  from enqueue_typed [OF this assms(5,6), where rest = "[CR]" and n = 0] obtain wpos n ka where
    a: "typing k p (edit w) wpos ka" "LF \<notin> set (edit w)" "length (edit w) < 63"
      "enqueue_loop (w @ [CR]) (rx_wpos (k_uart0 k)) 0 k = enqueue_loop [CR] wpos n ka"
    unfolding edit_def by auto
  obtain wpos' n' kb where b: "enqueue_loop [CR] wpos n ka = Inr (wpos', n', kb)"
    "procs kb = map (wake1 ChanUart (procs k)) (procs k)" "holds p (edit w @ [LF]) wpos' (k_uart0 kb)"
    "rx_num_newlines (k_uart0 kb) = 1" "k_mem kb = k_mem k"
    using return_enqueued [OF a(1,3) assms(7-10)] by blast
  let ?k1 = "upd_uart (\<lambda>u. u\<lparr>rx_wpos := wpos'\<rparr>) kb"
  have "uart_enqueue_chars k = Inr (int n', ?k1)" using a(4) b(1) assms(4) by (simp add: uart_enqueue_chars_def)
  moreover have f: "holds p (edit w @ [LF]) (rx_wpos (k_uart0 ?k1)) (k_uart0 ?k1)" "rx_num_newlines (k_uart0 ?k1) = 1"
    "k_mem ?k1 = k_mem k" "procs ?k1 = procs kb"
    using b(3-5) by (simp_all add: upd_uart_def holds_def)
  moreover obtain k2 where k2: "uart_readline_copy buf bufsize ?k1 = (int (min (length (edit w)) (unat bufsize)), k2)"
    "k_mem k2 = store_bytes (k_mem ?k1) buf (map of_char (take (unat bufsize) (edit w)))"
    "if length (edit w) < unat bufsize
     then holds (rx_wpos (k_uart0 k2)) [] (rx_wpos (k_uart0 k2)) (k_uart0 k2) \<and> rx_num_newlines (k_uart0 k2) = 0
     else holds ((p + unat bufsize) mod 64) (drop (unat bufsize) (edit w) @ [LF]) (rx_wpos (k_uart0 k2)) (k_uart0 k2) \<and>
       rx_num_newlines (k_uart0 k2) = 1"
    using line_read [OF f(1,2) a(2), of buf bufsize] by blast
  moreover have "can_read_from (k_uart0 ?k1)" "rx_num_newlines (k_uart0 k2) = 1 \<Longrightarrow> can_read_from (k_uart0 k2)"
    using f(2) by (simp_all add: can_read_from_def)
  ultimately show ?thesis
    using b(2) by (intro exI [of _ "int n'"] exI [of _ ?k1] exI [of _ k2]) (auto split: if_splits)
qed

text \<open>The keys \<open>l z\<close>, delete, \<open>s\<close>, return on an otherwise quiet system with one process.\<close>

definition typed :: kernel where
  "typed = (bss_kernel (\<lambda>_. 0))\<lparr>k_proc_table := \<lparr>pt_lock = 0, pt_procs = replicate MAX_PROCS zero_proc, pt_num_procs = 1,
     pt_pid_counter = 1\<rparr>, k_rx := [CHR ''l'', CHR ''z'', ASCII_DEL, CHR ''s'', CR]\<rparr>"

theorem typed_line_is_read_witness:
  "\<exists>n k1 k2. uart_enqueue_chars typed = Inr (n, k1) \<and> uart_readline_copy 4096 16 k1 = (2, k2) \<and>
     k_mem k2 = store_bytes (k_mem typed) 4096 (map of_char ''ls'')"
proof -
  let ?w = "[CHR ''l'', CHR ''z'', ASCII_DEL, CHR ''s'']"
  have e: "edit ?w = ''ls''" by (simp add: edit_def edit1_def ASCII_DEL_def)
  have "holds 0 [] (rx_wpos (k_uart0 typed)) (k_uart0 typed)" "rx_num_newlines (k_uart0 typed) = 0"
    "rx_buff_full (k_uart0 typed) = 0" "k_rx typed = ?w @ [CR]"
    by (simp_all add: typed_def bss_kernel_def holds_def)
  moreover have "list_all plain_key ?w" by (simp add: plain_key_def ASCII_DEL_def CR_def LF_def)
  moreover have "fits [] ?w" by (simp add: edit1_def ASCII_DEL_def)
  moreover have "pt_lock (k_proc_table typed) = 0" "pt_num_procs (k_proc_table typed) \<noteq> 0" "length (procs typed) = MAX_PROCS"
    by (simp_all add: typed_def)
  moreover have "wakeable ChanUart (procs typed)" by (simp add: wakeable_def typed_def waits_on_def zero_proc_def)
  ultimately show ?thesis using typed_line_is_read [of 0 typed ?w 4096 16] unfolding e by auto
qed

end
