(* ===== verification/Lcd.thy ===== *)
theory Lcd
  imports Devices
begin

text \<open>
  The driver of the character display (\<^verbatim>\<open>src/drivers/hd44780/hd44780.c\<close>), which
  boards with \<^verbatim>\<open>CONFIG_LCD_ENABLED\<close> have. The display hangs on pins of the GPIO
  block; what the driver does to it is a sequence of events: pins switched to
  output, pin values, and busy waiting. The events refer to the functions of
  \<^verbatim>\<open>src/gpio.c\<close> in theory \<open>Devices\<close> (\<open>play\<close>).
\<close>

section \<open>Commands and data\<close>

definition LCD_CLEARDISPLAY :: byte where [simp, kconsts]: "LCD_CLEARDISPLAY = 0x01"
definition LCD_RETURNHOME :: byte where [simp, kconsts]: "LCD_RETURNHOME = 0x02"
definition LCD_ENTRYMODESET :: byte where [simp, kconsts]: "LCD_ENTRYMODESET = 0x04"
definition LCD_DISPLAYCONTROL :: byte where [simp, kconsts]: "LCD_DISPLAYCONTROL = 0x08"
definition LCD_FUNCTIONSET :: byte where [simp, kconsts]: "LCD_FUNCTIONSET = 0x20"
definition LCD_SETDDRAMADDR :: byte where [simp, kconsts]: "LCD_SETDDRAMADDR = 0x80"
definition LCD_ENTRYLEFT :: byte where [simp, kconsts]: "LCD_ENTRYLEFT = 0x02"
definition LCD_ENTRYSHIFTDECREMENT :: byte where [simp, kconsts]: "LCD_ENTRYSHIFTDECREMENT = 0x00"
definition LCD_DISPLAYON :: byte where [simp, kconsts]: "LCD_DISPLAYON = 0x04"
definition LCD_CURSORON :: byte where [simp, kconsts]: "LCD_CURSORON = 0x02"
definition LCD_CURSOROFF :: byte where [simp, kconsts]: "LCD_CURSOROFF = 0x00"
definition LCD_BLINKON :: byte where [simp, kconsts]: "LCD_BLINKON = 0x01"
definition LCD_BLINKOFF :: byte where [simp, kconsts]: "LCD_BLINKOFF = 0x00"
definition LCD_4BITMODE :: byte where [simp, kconsts]: "LCD_4BITMODE = 0x00"
definition LCD_2LINE :: byte where [simp, kconsts]: "LCD_2LINE = 0x08"
definition LCD_1LINE :: byte where [simp, kconsts]: "LCD_1LINE = 0x00"
definition LCD_5x8DOTS :: byte where [simp, kconsts]: "LCD_5x8DOTS = 0x00"
definition LCD_NUM_ROWS :: nat where [simp, kconsts]: "LCD_NUM_ROWS = 4"
definition LCD_NUM_COLS :: nat where [simp, kconsts]: "LCD_NUM_COLS = 20"

text \<open>\<open>lines\<close> holds pointers into \<open>data\<close>, as offsets.\<close>

record lcd_buffer_t =
  lb_data :: string
  lb_lines :: "nat list"
  lb_curr_line :: byte
  lb_pos :: byte
  lb_screen_is_full :: byte

datatype pin_ev =
    Message string
  | EnableOut byte
  | SetPin byte byte
  | DelayTiny
  | DelayMillis u32

record lcd_t =
  lcd_rs_pin :: byte
  lcd_enable_pin :: byte
  lcd_data_pins :: "byte list"
  lcd_display_function :: byte
  lcd_display_control :: byte
  lcd_display_mode :: byte
  lcd_num_lines :: byte
  lcd_row_offsets :: "byte list"
  lcd_buf :: lcd_buffer_t
  lcd_last_cursor_row :: byte
  lcd_last_cursor_col :: byte
  lcd_events :: "pin_ev list"

section \<open>Events\<close>

definition emit :: "pin_ev list \<Rightarrow> lcd_t \<Rightarrow> lcd_t" where
  "emit es l = l\<lparr>lcd_events := lcd_events l @ es\<rparr>"

text \<open>
  The busy loops read the clock until it has reached the target; \<open>n\<close> is the number
  of ticks from the first reading. The product of \<open>busy_loop_delay_millis\<close> is one of
  32 bits.
\<close>

definition delay_ticks :: "u32 \<Rightarrow> pin_ev \<Rightarrow> regsize" where
  "delay_ticks one_second e = (case e of
       DelayTiny \<Rightarrow> 1 | DelayMillis ms \<Rightarrow> ucast ((one_second * ms) div 1000) | _ \<Rightarrow> 0)"

definition play :: "u32 \<Rightarrow> pin_ev \<Rightarrow> kernel \<Rightarrow> kernel" where
  "play one_second e k = (case e of
       EnableOut p \<Rightarrow> gpio_enable_pin_out (ucast p) k
     | SetPin p v \<Rightarrow> gpio_set_pin (ucast p) (ucast v) k
     | Message s \<Rightarrow> k\<lparr>k_console := rev s @ k_console k\<rparr>
     | _ \<Rightarrow> k\<lparr>k_mtime := k_mtime k + delay_ticks one_second e\<rparr>)"

section \<open>Sending\<close>

definition LOW :: byte where [simp]: "LOW = 0"
definition HIGH :: byte where [simp]: "HIGH = 1"

definition lcd_write_4bits :: "byte \<Rightarrow> lcd_t \<Rightarrow> lcd_t" where
  "lcd_write_4bits value l =
     emit (map (\<lambda>i. SetPin (lcd_data_pins l ! i) (drop_bit i value AND 0x01)) [0..<4] @
       [SetPin (lcd_enable_pin l) LOW, DelayTiny, SetPin (lcd_enable_pin l) HIGH, DelayTiny,
        SetPin (lcd_enable_pin l) LOW, DelayMillis 1]) l"

definition lcd_command :: "byte \<Rightarrow> lcd_t \<Rightarrow> lcd_t" where
  "lcd_command value l =
     lcd_write_4bits value (lcd_write_4bits (drop_bit 4 value) (emit [SetPin (lcd_rs_pin l) LOW] l))"

definition lcd_write :: "byte \<Rightarrow> lcd_t \<Rightarrow> lcd_t" where
  "lcd_write value l =
     lcd_write_4bits value (lcd_write_4bits (drop_bit 4 value) (emit [SetPin (lcd_rs_pin l) HIGH] l))"

definition lcd_write_char :: "char \<Rightarrow> lcd_t \<Rightarrow> lcd_t" where
  "lcd_write_char c = lcd_write (of_char c)"

definition set_display_control :: "(byte \<Rightarrow> byte) \<Rightarrow> lcd_t \<Rightarrow> lcd_t" where
  "set_display_control f l =
     (let l = l\<lparr>lcd_display_control := f (lcd_display_control l)\<rparr> in
      lcd_command (LCD_DISPLAYCONTROL OR lcd_display_control l) l)"

definition lcd_display :: "lcd_t \<Rightarrow> lcd_t" where
  "lcd_display = set_display_control (\<lambda>c. c OR LCD_DISPLAYON)"

definition lcd_no_display :: "lcd_t \<Rightarrow> lcd_t" where
  "lcd_no_display = set_display_control (\<lambda>c. c AND NOT LCD_DISPLAYON)"

definition lcd_cursor :: "lcd_t \<Rightarrow> lcd_t" where
  "lcd_cursor = set_display_control (\<lambda>c. c OR LCD_CURSORON)"

definition lcd_no_cursor :: "lcd_t \<Rightarrow> lcd_t" where
  "lcd_no_cursor = set_display_control (\<lambda>c. c AND NOT LCD_CURSORON)"

definition lcd_blink :: "lcd_t \<Rightarrow> lcd_t" where
  "lcd_blink = set_display_control (\<lambda>c. c OR LCD_BLINKON)"

definition lcd_no_blink :: "lcd_t \<Rightarrow> lcd_t" where
  "lcd_no_blink = set_display_control (\<lambda>c. c AND NOT LCD_BLINKON)"

definition lcd_clear :: "lcd_t \<Rightarrow> lcd_t" where
  "lcd_clear l = emit [DelayMillis 2] (lcd_command LCD_CLEARDISPLAY l)"

definition lcd_home :: "lcd_t \<Rightarrow> lcd_t" where
  "lcd_home l = emit [DelayMillis 2] (lcd_command LCD_RETURNHOME l)"

text \<open>The row that a request is clamped to.\<close>

definition clamp_row :: "byte \<Rightarrow> lcd_t \<Rightarrow> byte" where
  "clamp_row row l =
     (let row = (if unat row \<ge> LCD_NUM_ROWS then of_nat (LCD_NUM_ROWS - 1) else row) in
      if row \<ge> lcd_num_lines l then lcd_num_lines l - 1 else row)"

definition lcd_set_cursor :: "byte \<Rightarrow> byte \<Rightarrow> lcd_t \<Rightarrow> lcd_t res" where
  "lcd_set_cursor col row l =
     (let row = unat (clamp_row row l) in
      if row < length (lcd_row_offsets l) then Inr (lcd_command (LCD_SETDDRAMADDR OR (col + lcd_row_offsets l ! row)) l)
      else Inl OutOfBounds)"

section \<open>Initialisation\<close>

definition lcd_set_row_offsets :: "byte \<Rightarrow> byte \<Rightarrow> byte \<Rightarrow> byte \<Rightarrow> lcd_t \<Rightarrow> lcd_t" where
  "lcd_set_row_offsets row0 row1 row2 row3 l = l\<lparr>lcd_row_offsets := [row0, row1, row2, row3]\<rparr>"

definition init_4_bit_mode :: "lcd_t \<Rightarrow> lcd_t" where
  "init_4_bit_mode l =
     lcd_write_4bits 0x02 (emit [DelayMillis 1] (
     lcd_write_4bits 0x03 (emit [DelayMillis 5] (
     lcd_write_4bits 0x03 (emit [DelayMillis 5] (
     lcd_write_4bits 0x03 l))))))"

definition lcd_begin :: "byte \<Rightarrow> lcd_t \<Rightarrow> lcd_t" where
  "lcd_begin cols l =
     (let l = l\<lparr>lcd_display_function := lcd_display_function l OR LCD_2LINE, lcd_num_lines := 4\<rparr>;
          l = lcd_set_row_offsets 0x00 0x40 (0x00 + cols) (0x40 + cols) l;
          l = emit ([EnableOut (lcd_rs_pin l), EnableOut (lcd_enable_pin l)] @
                map (\<lambda>i. EnableOut (lcd_data_pins l ! i)) [0..<4]) l;
          l = emit [DelayMillis 500, SetPin (lcd_rs_pin l) LOW, SetPin (lcd_enable_pin l) LOW] l;
          l = init_4_bit_mode l;
          l = lcd_command (LCD_FUNCTIONSET OR lcd_display_function l) l;
          l = l\<lparr>lcd_display_control := LCD_DISPLAYON OR LCD_CURSOROFF OR LCD_BLINKOFF\<rparr>;
          l = lcd_cursor (lcd_clear (lcd_display l));
          l = l\<lparr>lcd_display_mode := LCD_ENTRYLEFT OR LCD_ENTRYSHIFTDECREMENT\<rparr>
      in emit [DelayMillis 200] (lcd_command (LCD_ENTRYMODESET OR lcd_display_mode l) l))"

text \<open>The 80 characters of \<open>data\<close> are all written.\<close>

definition lcd_init_buffer :: lcd_buffer_t where
  "lcd_init_buffer = \<lparr>lb_data = replicate (LCD_NUM_ROWS * LCD_NUM_COLS) (CHR '' ''),
     lb_lines = [0, LCD_NUM_COLS, LCD_NUM_COLS * 2, LCD_NUM_COLS * 3],
     lb_curr_line = 0, lb_pos = 0, lb_screen_is_full = 0\<rparr>"

definition lcd_init :: "lcd_t \<Rightarrow> lcd_t" where
  "lcd_init l =
     (let l = emit [Message (''lcd_init'' @ [CHR 0x0A])] l in
      lcd_begin (of_nat LCD_NUM_COLS) (l\<lparr>lcd_rs_pin := 2, lcd_enable_pin := 3, lcd_data_pins := [20, 21, 22, 23],
        lcd_display_function := LCD_4BITMODE OR LCD_1LINE OR LCD_5x8DOTS, lcd_buf := lcd_init_buffer,
        lcd_last_cursor_row := 0, lcd_last_cursor_col := 0\<rparr>))"

section \<open>Printing\<close>

definition lcd_print :: "string \<Rightarrow> lcd_t \<Rightarrow> lcd_t" where
  "lcd_print str l = fold lcd_write_char str l"

text \<open>\<open>b->lines[line][i] = c\<close>\<close>

definition set_line :: "byte \<Rightarrow> nat \<Rightarrow> char \<Rightarrow> lcd_buffer_t \<Rightarrow> lcd_buffer_t res" where
  "set_line line i c b =
     (if unat line < length (lb_lines b) \<and> lb_lines b ! unat line + i < length (lb_data b)
      then Inr (b\<lparr>lb_data := (lb_data b)[lb_lines b ! unat line + i := c]\<rparr>)
      else Inl OutOfBounds)"

definition get_line :: "byte \<Rightarrow> nat \<Rightarrow> lcd_buffer_t \<Rightarrow> char res" where
  "get_line line i b =
     (if unat line < length (lb_lines b) \<and> lb_lines b ! unat line + i < length (lb_data b)
      then Inr (lb_data b ! (lb_lines b ! unat line + i)) else Inl OutOfBounds)"

fun blank_loop :: "nat \<Rightarrow> nat \<Rightarrow> lcd_buffer_t \<Rightarrow> lcd_buffer_t res" where
  "blank_loop 0 i b = Inr b"
| "blank_loop (Suc n) i b = bnd (set_line (lb_curr_line b) i (CHR '' '') b) (blank_loop n (i + 1))"

definition clear_line_if_full :: "lcd_buffer_t \<Rightarrow> lcd_buffer_t res" where
  "clear_line_if_full b = (if lb_screen_is_full b = 0 then Inr b else blank_loop LCD_NUM_COLS 0 b)"

text \<open>One round of the loop of \<open>_printn_to_buf\<close>: the buffer and whether the line has advanced.\<close>

definition buf_char :: "char \<Rightarrow> lcd_buffer_t \<Rightarrow> (bool \<times> lcd_buffer_t) res" where
  "buf_char c b =
     bnd (if c = CHR 0x0A then Inr (True, b\<lparr>lb_curr_line := lb_curr_line b + 1, lb_pos := 0\<rparr>)
          else bnd (set_line (lb_curr_line b) (unat (lb_pos b)) c b) (\<lambda>b. Inr (False, b\<lparr>lb_pos := lb_pos b + 1\<rparr>))) (\<lambda>(adv, b).
     let (adv, b) = (if unat (lb_pos b) = LCD_NUM_COLS then (True, b\<lparr>lb_curr_line := lb_curr_line b + 1, lb_pos := 0\<rparr>)
                     else (adv, b));
         b = (if unat (lb_curr_line b) = LCD_NUM_ROWS then b\<lparr>lb_screen_is_full := 1, lb_curr_line := 0\<rparr> else b)
     in if adv then bnd (clear_line_if_full b) (\<lambda>b. Inr (True, b)) else Inr (False, b))"

fun printn_to_buf :: "string \<Rightarrow> nat \<Rightarrow> lcd_buffer_t \<Rightarrow> (nat \<times> lcd_buffer_t) res" where
  "printn_to_buf [] lines_advanced b = Inr (lines_advanced, b)"
| "printn_to_buf (c # data) lines_advanced b =
     bnd (buf_char c b) (\<lambda>(adv, b). printn_to_buf data (if adv then lines_advanced + 1 else lines_advanced) b)"

definition next_line :: "byte \<Rightarrow> byte" where
  "next_line line = (if unat (line + 1) = LCD_NUM_ROWS then 0 else line + 1)"

fun show_chars :: "nat \<Rightarrow> nat \<Rightarrow> byte \<Rightarrow> lcd_t \<Rightarrow> lcd_t res" where
  "show_chars 0 i line l = Inr l"
| "show_chars (Suc n) i line l =
     bnd (get_line line i (lcd_buf l)) (\<lambda>c. show_chars n (i + 1) line (lcd_write_char c l))"

text \<open>The loop over the lines above the current one; at most all four rows are visited.\<close>

fun scroll_loop :: "nat \<Rightarrow> byte \<Rightarrow> byte \<Rightarrow> lcd_t \<Rightarrow> (byte \<times> lcd_t) res" where
  "scroll_loop 0 buf_line lcd_line l = Inl Diverges"
| "scroll_loop (Suc n) buf_line lcd_line l =
     (if buf_line = lb_curr_line (lcd_buf l) then Inr (lcd_line, l)
      else
        bnd (lcd_set_cursor 0 lcd_line l) (\<lambda>l.
        bnd (show_chars LCD_NUM_COLS 0 buf_line l) (\<lambda>l.
        scroll_loop n (next_line buf_line) (lcd_line + 1) l)))"

definition clear_screen_and_scroll_up :: "lcd_t \<Rightarrow> lcd_t res" where
  "clear_screen_and_scroll_up l =
     (let l = lcd_clear l; cur = lb_curr_line (lcd_buf l); n = unat (lb_pos (lcd_buf l)) in
      bnd (scroll_loop (Suc LCD_NUM_ROWS) (next_line cur) 0 l) (\<lambda>(lcd_line, l).
      bnd (lcd_set_cursor 0 lcd_line l) (\<lambda>l.
      bnd (show_chars n 0 cur (l\<lparr>lcd_last_cursor_row := lcd_line, lcd_last_cursor_col := 0\<rparr>)) (\<lambda>l.
      Inr (l\<lparr>lcd_last_cursor_col := of_nat n\<rparr>)))))"

definition to_next_row :: "lcd_t \<Rightarrow> lcd_t res" where
  "to_next_row l =
     (let l = l\<lparr>lcd_last_cursor_row := lcd_last_cursor_row l + 1, lcd_last_cursor_col := 0\<rparr> in
      lcd_set_cursor (lcd_last_cursor_col l) (lcd_last_cursor_row l) l)"

fun printn_loop :: "string \<Rightarrow> lcd_t \<Rightarrow> lcd_t res" where
  "printn_loop [] l = Inr l"
| "printn_loop (c # data) l =
     (if c = CHR 0x0A then bnd (to_next_row l) (printn_loop data)
      else
        let l = lcd_write_char c l; l = l\<lparr>lcd_last_cursor_col := lcd_last_cursor_col l + 1\<rparr> in
        if unat (lcd_last_cursor_col l) = LCD_NUM_COLS then bnd (to_next_row l) (printn_loop data)
        else printn_loop data l)"

definition lcd_printn :: "string \<Rightarrow> u32 \<Rightarrow> lcd_t \<Rightarrow> lcd_t res" where
  "lcd_printn str sz l =
     (if length str < unat sz then Inl OutOfBounds
      else
        let data = take (unat sz) str in
        bnd (printn_to_buf data 0 (lcd_buf l)) (\<lambda>(lines_advanced, b).
        let l = l\<lparr>lcd_buf := b\<rparr> in
        if lb_screen_is_full b \<noteq> 0 \<and> lines_advanced > 0 then clear_screen_and_scroll_up l
        else printn_loop data l))"

text \<open>The column is unsigned, so the test for a negative one is never true: from column 0 it goes to 255.\<close>

definition lcd_backspace :: "lcd_t \<Rightarrow> lcd_t res" where
  "lcd_backspace l =
     (let l = l\<lparr>lcd_last_cursor_col := lcd_last_cursor_col l - 1\<rparr> in
      bnd (lcd_set_cursor (lcd_last_cursor_col l) (lcd_last_cursor_row l) l) (\<lambda>l.
      lcd_set_cursor (lcd_last_cursor_col l) (lcd_last_cursor_row l) (lcd_write_char (CHR '' '') l)))"

end
