(* ===== verification/Screen.thy ===== *)
theory Screen
  imports Lcd
begin

text \<open>
  The display against two references: the text buffer of the driver is a
  terminal with lines of twenty characters of which the last four are kept, and
  a display controller that latches the data pins on the falling edge of the
  enable pin receives exactly the bytes that the driver sends.
\<close>

section \<open>The terminal\<close>

text \<open>All completed lines and the one being written.\<close>

type_synonym terminal = "string list \<times> string"

definition term_char :: "char \<Rightarrow> terminal \<Rightarrow> terminal" where
  "term_char c t = (case t of (lines, cur) \<Rightarrow>
     if c = CHR 0x0A then (lines @ [cur], [])
     else if length cur + 1 = 20 then (lines @ [cur @ [c]], []) else (lines, cur @ [c]))"

definition pad :: "string \<Rightarrow> string" where
  "pad s = s @ replicate (20 - length s) (CHR '' '')"

definition line_text :: "lcd_buffer_t \<Rightarrow> nat \<Rightarrow> string" where
  "line_text b i = take 20 (drop (20 * i) (lb_data b))"

definition buf_shape :: "lcd_buffer_t \<Rightarrow> bool" where
  "buf_shape b \<longleftrightarrow> length (lb_data b) = 80 \<and> lb_lines b = [0, 20, 40, 60] \<and> unat (lb_curr_line b) < 4"

text \<open>
  The buffer holds the current line and the last three completed ones, each in
  the row of its number modulo four; rows not used yet are blank.
\<close>

definition shows_text :: "lcd_buffer_t \<Rightarrow> terminal \<Rightarrow> bool" where
  "shows_text b t \<longleftrightarrow> (case t of (lines, cur) \<Rightarrow>
     buf_shape b \<and> unat (lb_curr_line b) = length lines mod 4 \<and> (lb_screen_is_full b = 0 \<longleftrightarrow> length lines < 4) \<and>
     length cur \<le> 20 \<and> line_text b (length lines mod 4) = pad cur \<and>
     (\<forall>k < length lines. length lines \<le> k + 3 \<longrightarrow> line_text b (k mod 4) = pad (lines ! k)) \<and>
     (\<forall>i < 4. length lines < i \<longrightarrow> line_text b i = pad []))"

definition screen_ok :: "lcd_buffer_t \<Rightarrow> terminal \<Rightarrow> bool" where
  "screen_ok b t \<longleftrightarrow> shows_text b t \<and> length (snd t) < 20 \<and> unat (lb_pos b) = length (snd t)"

section \<open>Lines of the buffer\<close>

lemma line_offset: "i < 4 \<Longrightarrow> [0, 20, 40, 60] ! i = 20 * (i :: nat)"
  by (auto simp: less_Suc_eq numeral_eq_Suc)

lemma length_line_text: "buf_shape b \<Longrightarrow> i < 4 \<Longrightarrow> length (line_text b i) = 20"
  by (simp add: line_text_def buf_shape_def)

lemma nth_line_text: "buf_shape b \<Longrightarrow> i < 4 \<Longrightarrow> m < 20 \<Longrightarrow> line_text b i ! m = lb_data b ! (20 * i + m)"
  by (simp add: line_text_def buf_shape_def)

lemma row_col:
  assumes "i < 20" "m < 20"
  shows "20 * a + i = 20 * b + m \<longleftrightarrow> a = b \<and> i = (m :: nat)"
proof -
  have "(20 * a + i) div 20 = a" "(20 * b + m) div 20 = b" using assms by simp_all
  then show ?thesis by (metis add_left_cancel)
qed

lemma set_line_text:
  assumes "buf_shape b" "unat line < 4" "i < 20"
  shows "\<exists>b'. set_line line i c b = Inr b' \<and> buf_shape b' \<and> lb_curr_line b' = lb_curr_line b \<and> lb_pos b' = lb_pos b \<and>
    lb_screen_is_full b' = lb_screen_is_full b \<and>
    (\<forall>j < 4. line_text b' j = (if j = unat line then (line_text b j)[i := c] else line_text b j))"
proof -
  let ?b = "b\<lparr>lb_data := (lb_data b)[20 * unat line + i := c]\<rparr>"
  have s: "set_line line i c b = Inr ?b" "buf_shape ?b"
    using assms by (auto simp: set_line_def buf_shape_def line_offset)
  have "line_text ?b j = (if j = unat line then (line_text b j)[i := c] else line_text b j)" if "j < 4" for j
  proof (rule nth_equalityI)
    fix m assume "m < length (line_text ?b j)"
    then have m: "m < 20" using length_line_text [OF s(2) that] by simp
    have lhs: "line_text ?b j ! m = (lb_data b)[20 * unat line + i := c] ! (20 * j + m)"
      using nth_line_text [OF s(2) that m] by simp
    have l: "20 * j + m < length (lb_data b)" using that m assms(1) by (simp add: buf_shape_def)
    show "line_text ?b j ! m = (if j = unat line then (line_text b j)[i := c] else line_text b j) ! m"
    proof (cases "j = unat line \<and> m = i")
      case True
      then show ?thesis unfolding lhs using l length_line_text [OF assms(1) that] m by auto
    next
      case False
      then have "20 * unat line + i \<noteq> 20 * j + m" using m assms(3) row_col [of i m "unat line" j] by auto
      then have "(lb_data b)[20 * unat line + i := c] ! (20 * j + m) = line_text b j ! m"
        using nth_line_text [OF assms(1) that m] by simp
      then show ?thesis unfolding lhs using False by auto
    qed
  qed (use that assms(1) s(2) in \<open>simp add: length_line_text\<close>)
  then show ?thesis using s by auto
qed

lemma blank_loop_text:
  "buf_shape b \<Longrightarrow> i + n \<le> 20 \<Longrightarrow>
   \<exists>b'. blank_loop n i b = Inr b' \<and> buf_shape b' \<and> lb_curr_line b' = lb_curr_line b \<and> lb_pos b' = lb_pos b \<and>
    lb_screen_is_full b' = lb_screen_is_full b \<and>
    (\<forall>j < 4. j \<noteq> unat (lb_curr_line b) \<longrightarrow> line_text b' j = line_text b j) \<and>
    line_text b' (unat (lb_curr_line b)) =
      take i (line_text b (unat (lb_curr_line b))) @ replicate n (CHR '' '') @ drop (i + n) (line_text b (unat (lb_curr_line b)))"
proof (induction n arbitrary: i b)
  case (Suc n)
  have c: "unat (lb_curr_line b) < 4" using Suc.prems(1) by (simp add: buf_shape_def)
  obtain b1 where b1: "set_line (lb_curr_line b) i (CHR '' '') b = Inr b1" "buf_shape b1" "lb_curr_line b1 = lb_curr_line b"
    "lb_pos b1 = lb_pos b" "lb_screen_is_full b1 = lb_screen_is_full b"
    "\<forall>j < 4. line_text b1 j = (if j = unat (lb_curr_line b) then (line_text b j)[i := CHR '' ''] else line_text b j)"
    using set_line_text [OF Suc.prems(1) c, of i "CHR '' ''"] Suc.prems(2) by auto
  obtain b2 where b2: "blank_loop n (i + 1) b1 = Inr b2" "buf_shape b2" "lb_curr_line b2 = lb_curr_line b1"
    "lb_pos b2 = lb_pos b1" "lb_screen_is_full b2 = lb_screen_is_full b1"
    "\<forall>j < 4. j \<noteq> unat (lb_curr_line b1) \<longrightarrow> line_text b2 j = line_text b1 j"
    "line_text b2 (unat (lb_curr_line b1)) = take (i + 1) (line_text b1 (unat (lb_curr_line b1))) @ replicate n (CHR '' '') @
      drop (i + 1 + n) (line_text b1 (unat (lb_curr_line b1)))"
    using Suc.IH [OF b1(2), of "i + 1"] Suc.prems(2) by auto
  have "i < length (line_text b (unat (lb_curr_line b)))" using length_line_text [OF Suc.prems(1) c] Suc.prems(2) by simp
  then have "line_text b2 (unat (lb_curr_line b)) = take i (line_text b (unat (lb_curr_line b))) @
      replicate (Suc n) (CHR '' '') @ drop (i + Suc n) (line_text b (unat (lb_curr_line b)))"
    using b2(7) b1(3,6) c by (simp add: take_Suc_conv_app_nth)
  then show ?case using b1 b2 c by simp
qed simp

section \<open>Advancing\<close>

text \<open>What \<open>_printn_to_buf\<close> does at the end of a line.\<close>

definition advance :: "lcd_buffer_t \<Rightarrow> lcd_buffer_t res" where
  "advance b =
     (let b = b\<lparr>lb_curr_line := lb_curr_line b + 1, lb_pos := 0\<rparr> in
      clear_line_if_full (if unat (lb_curr_line b) = 4 then b\<lparr>lb_screen_is_full := 1, lb_curr_line := 0\<rparr> else b))"

lemma unat_byte_Suc: "unat (x :: byte) < 255 \<Longrightarrow> unat (x + 1) = unat x + 1"
  by (simp add: unat_word_ariths)

lemma buf_char_eq:
  assumes "buf_shape b" "unat (lb_pos b) < 20"
  shows "buf_char c b =
    (if c = CHR 0x0A then bnd (advance b) (\<lambda>b. Inr (True, b))
     else bnd (set_line (lb_curr_line b) (unat (lb_pos b)) c b) (\<lambda>b.
       if unat (lb_pos b) + 1 = 20 then bnd (advance b) (\<lambda>b. Inr (True, b)) else Inr (False, b\<lparr>lb_pos := lb_pos b + 1\<rparr>)))"
proof (cases "c = CHR 0x0A")
  case True
  then show ?thesis by (simp add: buf_char_def advance_def Let_def)
next
  case False
  obtain b' where b': "set_line (lb_curr_line b) (unat (lb_pos b)) c b = Inr b'" "lb_pos b' = lb_pos b" "buf_shape b'"
    using set_line_text [OF assms(1) _ assms(2), of "lb_curr_line b" c] assms(1) by (auto simp: buf_shape_def)
  moreover have "unat (lb_pos b + 1) = unat (lb_pos b) + 1" using assms(2) by (intro unat_byte_Suc) simp
  ultimately show ?thesis
    using False by (auto simp: buf_char_def advance_def Let_def buf_shape_def split: if_splits)
qed

lemma line_text_upd [simp]:
  "line_text (b\<lparr>lb_curr_line := x\<rparr>) i = line_text b i" "line_text (b\<lparr>lb_pos := y\<rparr>) i = line_text b i"
  "line_text (b\<lparr>lb_screen_is_full := z\<rparr>) i = line_text b i"
  by (simp_all add: line_text_def)

lemma mod4_Suc: "Suc n mod 4 = (if n mod 4 + 1 = 4 then 0 else n mod 4 + 1)" for n :: nat
  by presburger

lemma mod4_near:
  assumes "k < n" "n \<le> k + 3"
  shows "k mod 4 \<noteq> n mod (4 :: nat)"
proof
  assume "k mod 4 = n mod 4"
  then have "4 dvd n - k" using mod_eq_dvd_iff_nat [of k n 4] assms(1) by simp
  then show False using nat_dvd_not_less [of "n - k" 4] assms by simp
qed

lemma clear_line_shows:
  assumes "buf_shape b" "lb_screen_is_full b = 0 \<longrightarrow> line_text b (unat (lb_curr_line b)) = pad []"
  shows "\<exists>b'. clear_line_if_full b = Inr b' \<and> buf_shape b' \<and> lb_curr_line b' = lb_curr_line b \<and> lb_pos b' = lb_pos b \<and>
    lb_screen_is_full b' = lb_screen_is_full b \<and> line_text b' (unat (lb_curr_line b)) = pad [] \<and>
    (\<forall>j < 4. j \<noteq> unat (lb_curr_line b) \<longrightarrow> line_text b' j = line_text b j)"
proof (cases "lb_screen_is_full b = 0")
  case True
  then show ?thesis using assms by (simp add: clear_line_if_full_def)
next
  case False
  have "length (line_text b (unat (lb_curr_line b))) = 20"
    using assms(1) by (intro length_line_text) (auto simp: buf_shape_def)
  then show ?thesis
    using blank_loop_text [OF assms(1), of 0 20] False by (auto simp: clear_line_if_full_def pad_def)
qed

lemma advance_shows:
  assumes "shows_text b (lines, cur)"
  shows "\<exists>b'. advance b = Inr b' \<and> screen_ok b' (lines @ [cur], [])"
proof -
  let ?n = "length lines"
  note a = assms [unfolded shows_text_def prod.case]
  let ?b1 = "b\<lparr>lb_curr_line := lb_curr_line b + 1, lb_pos := 0\<rparr>"
  define b2 where "b2 = (if unat (lb_curr_line ?b1) = 4 then ?b1\<lparr>lb_screen_is_full := 1, lb_curr_line := 0\<rparr> else ?b1)"
  have c1: "unat (lb_curr_line b + 1) = ?n mod 4 + 1" using a unat_byte_Suc [of "lb_curr_line b"] by simp
  have c: "unat (lb_curr_line b2) = Suc ?n mod 4" using c1 mod4_Suc [of ?n] by (simp add: b2_def)
  have full: "lb_screen_is_full b2 = 0 \<longleftrightarrow> Suc ?n < 4" 
  proof -
    have "Suc ?n < 4 \<longleftrightarrow> ?n < 4 \<and> ?n mod 4 + 1 \<noteq> 4" by (cases "?n < 4") auto
    then show ?thesis using a c1 by (simp add: b2_def)
  qed
  have shape: "buf_shape b2" using a c by (simp add: buf_shape_def b2_def)
  have same: "line_text b2 j = line_text b j" for j by (simp add: b2_def)
  have p: "lb_pos b2 = 0" by (simp add: b2_def)
  have "lb_screen_is_full b2 = 0 \<longrightarrow> line_text b2 (unat (lb_curr_line b2)) = pad []" using a full same c by auto
  from clear_line_shows [OF shape this] obtain b' where b': "clear_line_if_full b2 = Inr b'" "buf_shape b'"
    "lb_curr_line b' = lb_curr_line b2" "lb_pos b' = 0" "lb_screen_is_full b' = lb_screen_is_full b2"
    "line_text b' (Suc ?n mod 4) = pad []" "\<forall>j < 4. j \<noteq> Suc ?n mod 4 \<longrightarrow> line_text b' j = line_text b j"
    unfolding c p same by blast
  have "advance b = Inr b'" using b'(1) by (simp add: advance_def Let_def b2_def)
  moreover have "screen_ok b' (lines @ [cur], [])"
    unfolding screen_ok_def shows_text_def prod.case
  proof (intro conjI allI impI)
    fix k assume k: "k < length (lines @ [cur])" "length (lines @ [cur]) \<le> k + 3"
    have "k mod 4 \<noteq> Suc ?n mod 4" using k by (intro mod4_near) auto
    then have "line_text b' (k mod 4) = line_text b (k mod 4)" using b'(7) by simp
    then show "line_text b' (k mod 4) = pad ((lines @ [cur]) ! k)" using a k by (cases "k = ?n") (auto simp: nth_append)
  next
    fix i assume i: "i < 4" "length (lines @ [cur]) < (i :: nat)"
    then have "i \<noteq> Suc ?n mod 4" by simp
    then show "line_text b' i = pad []" using b'(7) a i by simp
  qed (use b' c full in \<open>simp_all add: buf_shape_def\<close>)
  ultimately show ?thesis by blast
qed

section \<open>Characters\<close>

lemma pad_snoc:
  assumes "length cur < 20"
  shows "(pad cur)[length cur := c] = pad (cur @ [c])"
proof -
  obtain m where m: "20 - length cur = Suc m" using assms by (cases "20 - length cur") auto
  then have "20 - Suc (length cur) = m" by simp
  then show ?thesis using m by (simp add: pad_def list_update_append)
qed

lemma buf_char_shows:
  assumes "screen_ok b t"
  shows "\<exists>adv b'. buf_char c b = Inr (adv, b') \<and> screen_ok b' (term_char c t) \<and>
    adv = (length (fst t) < length (fst (term_char c t)))"
proof -
  obtain lines cur where t: "t = (lines, cur)" by fastforce
  let ?i = "unat (lb_curr_line b)"
  have a: "shows_text b (lines, cur)" "length cur < 20" "unat (lb_pos b) = length cur" using assms t by (auto simp: screen_ok_def)
  then have shape: "buf_shape b" "?i < 4" "?i = length lines mod 4" by (auto simp: shows_text_def)
  note eq = buf_char_eq [OF shape(1), of c, unfolded a(3), OF a(2)]
  show ?thesis
  proof (cases "c = CHR 0x0A")
    case True
    then show ?thesis using advance_shows [OF a(1)] eq t by (auto simp: term_char_def)
  next
    case False
    obtain b1 where b1: "set_line (lb_curr_line b) (length cur) c b = Inr b1" "buf_shape b1" "lb_curr_line b1 = lb_curr_line b"
      "lb_pos b1 = lb_pos b" "lb_screen_is_full b1 = lb_screen_is_full b"
      "\<forall>j < 4. line_text b1 j = (if j = ?i then (line_text b j)[length cur := c] else line_text b j)"
      using set_line_text [OF shape(1,2) a(2)] by blast
    note pad_snoc [OF a(2), of c]
    moreover have "k mod 4 \<noteq> ?i" if "k < length lines" "length lines \<le> k + 3" for k
      using that shape(3) mod4_near by simp
    ultimately have s1: "shows_text b1 (lines, cur @ [c])"
      using a(1,2) b1 shape by (auto simp: shows_text_def)
    show ?thesis
    proof (cases "length cur + 1 = 20")
      case True
      then show ?thesis using advance_shows [OF s1] eq b1(1,4) a(3) False t by (auto simp: term_char_def)
    next
      case f: False
      have "unat (lb_pos b + 1) = length cur + 1" using unat_byte_Suc [of "lb_pos b"] a(2,3) by simp
      then have "screen_ok (b1\<lparr>lb_pos := lb_pos b + 1\<rparr>) (lines, cur @ [c])"
        using s1 f a(2) by (auto simp: screen_ok_def shows_text_def buf_shape_def)
      then show ?thesis using eq b1(1,4) a(3) False f t by (auto simp: term_char_def)
    qed
  qed
qed

section \<open>The controller\<close>

text \<open>
  The display controller latches the four data pins when the enable pin falls;
  the register select pin says whether it is part of a command or a character.
\<close>

definition nibble :: "lcd_t \<Rightarrow> (byte \<Rightarrow> byte) \<Rightarrow> byte" where
  "nibble l pins = pins (lcd_data_pins l ! 0) OR push_bit 1 (pins (lcd_data_pins l ! 1)) OR
     push_bit 2 (pins (lcd_data_pins l ! 2)) OR push_bit 3 (pins (lcd_data_pins l ! 3))"

definition set_pin :: "pin_ev \<Rightarrow> (byte \<Rightarrow> byte) \<Rightarrow> (byte \<Rightarrow> byte)" where
  "set_pin e pins = (case e of SetPin p v \<Rightarrow> pins(p := v) | _ \<Rightarrow> pins)"

definition edge :: "lcd_t \<Rightarrow> pin_ev \<Rightarrow> (byte \<Rightarrow> byte) \<Rightarrow> (byte \<times> byte) list" where
  "edge l e pins = (case e of
       SetPin p v \<Rightarrow> if p = lcd_enable_pin l \<and> pins p \<noteq> 0 \<and> v = 0 then [(pins (lcd_rs_pin l), nibble l pins)] else []
     | _ \<Rightarrow> [])"

fun latched :: "lcd_t \<Rightarrow> pin_ev list \<Rightarrow> (byte \<Rightarrow> byte) \<Rightarrow> (byte \<times> byte) list" where
  "latched l [] pins = []"
| "latched l (e # es) pins = edge l e pins @ latched l es (set_pin e pins)"

definition wired :: "lcd_t \<Rightarrow> bool" where
  "wired l \<longleftrightarrow> length (lcd_data_pins l) = 4 \<and> distinct (lcd_rs_pin l # lcd_enable_pin l # lcd_data_pins l)"

lemma latched_append: "latched l (es @ es') pins = latched l es pins @ latched l es' (fold set_pin es pins)"
  by (induction es arbitrary: pins) simp_all

definition nibble_events :: "lcd_t \<Rightarrow> byte \<Rightarrow> pin_ev list" where
  "nibble_events l v = map (\<lambda>i. SetPin (lcd_data_pins l ! i) (drop_bit i v AND 0x01)) [0..<4] @
     [SetPin (lcd_enable_pin l) LOW, DelayTiny, SetPin (lcd_enable_pin l) HIGH, DelayTiny, SetPin (lcd_enable_pin l) LOW,
      DelayMillis 1]"

lemma low_nibble: "(v AND 1) OR push_bit 1 (drop_bit 1 v AND 1) OR push_bit 2 (drop_bit 2 v AND 1) OR
    push_bit 3 (drop_bit 3 v AND 1) = take_bit 4 v" for v :: byte
proof (rule bit_word_eqI)
  fix n :: nat
  consider "n = 0" | "n = 1" | "n = 2" | "n = 3" | "n \<ge> 4" by linarith
  then show "bit ((v AND 1) OR push_bit 1 (drop_bit 1 v AND 1) OR push_bit 2 (drop_bit 2 v AND 1) OR
      push_bit 3 (drop_bit 3 v AND 1)) n = bit (take_bit 4 v) n"
    by cases (simp_all only: bit_or_iff bit_push_bit_iff bit_and_iff bit_drop_bit_eq bit_take_bit_iff bit_1_iff, simp_all)
qed

lemma nibble_latched:
  assumes "wired l" "pins (lcd_enable_pin l) = 0"
  shows "latched l (nibble_events l v) pins = [(pins (lcd_rs_pin l), take_bit 4 v)]"
    "fold set_pin (nibble_events l v) pins (lcd_enable_pin l) = 0"
    "fold set_pin (nibble_events l v) pins (lcd_rs_pin l) = pins (lcd_rs_pin l)"
proof -
  obtain a b c d where d: "lcd_data_pins l = [a, b, c, d]"
    using assms(1) by (auto simp: wired_def length_Suc_conv numeral_eq_Suc)
  have i: "[0..<4] = [0, 1, 2, 3 :: nat]" by (simp add: upt_rec)
  define q where "q i = drop_bit i v AND 1" for i
  have e: "nibble_events l v = [SetPin a (q 0), SetPin b (q 1), SetPin c (q 2), SetPin d (q 3), SetPin (lcd_enable_pin l) 0,
      DelayTiny, SetPin (lcd_enable_pin l) 1, DelayTiny, SetPin (lcd_enable_pin l) 0, DelayMillis 1]"
    unfolding nibble_events_def i by (simp add: d q_def)
  have "q 0 OR push_bit 1 (q 1) OR push_bit 2 (q 2) OR push_bit 3 (q 3) = take_bit 4 v"
    using low_nibble [of v] by (simp only: q_def drop_bit_0 id_apply)
  then show "latched l (nibble_events l v) pins = [(pins (lcd_rs_pin l), take_bit 4 v)]"
    "fold set_pin (nibble_events l v) pins (lcd_enable_pin l) = 0"
    "fold set_pin (nibble_events l v) pins (lcd_rs_pin l) = pins (lcd_rs_pin l)"
    using assms unfolding e by (auto simp: wired_def d nibble_def edge_def set_pin_def)
qed

lemma lcd_write_4bits_events: "lcd_write_4bits v l = emit (nibble_events l v) l"
  by (simp add: lcd_write_4bits_def nibble_events_def)

lemma emit_simps [simp]:
  "lcd_events (emit es l) = lcd_events l @ es" "nibble_events (emit es l) v = nibble_events l v" "emit es (emit es' l) = emit (es' @ es) l"
  by (simp_all add: emit_def nibble_events_def)

definition byte_events :: "lcd_t \<Rightarrow> byte \<Rightarrow> byte \<Rightarrow> pin_ev list" where
  "byte_events l x v = SetPin (lcd_rs_pin l) x # nibble_events l (drop_bit 4 v) @ nibble_events l v"

lemma two_nibbles:
  assumes "wired l" "pins (lcd_enable_pin l) = 0"
  shows "latched l (byte_events l x v) pins = [(x, drop_bit 4 v), (x, take_bit 4 v)]" "fold set_pin (byte_events l x v) pins (lcd_enable_pin l) = 0"
proof -
  let ?p = "pins(lcd_rs_pin l := x)"
  have p: "?p (lcd_enable_pin l) = 0" "?p (lcd_rs_pin l) = x" "lcd_rs_pin l \<noteq> lcd_enable_pin l"
    using assms(1,2) by (auto simp: wired_def)
  have h: "take_bit 4 (drop_bit 4 v) = drop_bit 4 v"
    by (rule bit_word_eqI) (auto simp: bit_simps dest: bit_imp_le_length)
  note first = nibble_latched [of l ?p "drop_bit 4 v", OF assms(1) p(1)]
  note second = nibble_latched [of l "fold set_pin (nibble_events l (drop_bit 4 v)) ?p" v, OF assms(1) first(2)]
  show "latched l (byte_events l x v) pins = [(x, drop_bit 4 v), (x, take_bit 4 v)]" "fold set_pin (byte_events l x v) pins (lcd_enable_pin l) = 0"
    using first second p h by (auto simp: byte_events_def latched_append edge_def set_pin_def)
qed

section \<open>Properties\<close>

text \<open>
  C35: the text buffer of the display implements a terminal with lines of twenty
  characters: whatever is printed, \<open>_printn_to_buf\<close> stays within the buffer, ends
  with the current line and the last three completed lines in their rows,
  padded with blanks, and returns the number of lines completed.
\<close>

theorem lcd_buffer_refines:
  assumes "screen_ok b t"
  shows "\<exists>b'. printn_to_buf data 0 b = Inr (length (fst (fold term_char data t)) - length (fst t), b') \<and>
    screen_ok b' (fold term_char data t)"
proof -
  have "length (fst t) \<le> length (fst (fold term_char data t)) \<and>
    (\<exists>b'. printn_to_buf data m b = Inr (m + (length (fst (fold term_char data t)) - length (fst t)), b') \<and>
      screen_ok b' (fold term_char data t))" for m
    using assms
  proof (induction data arbitrary: m b t)
    case (Cons c data)
    obtain adv b1 where b1: "buf_char c b = Inr (adv, b1)" "screen_ok b1 (term_char c t)"
      "adv = (length (fst t) < length (fst (term_char c t)))" using buf_char_shows [OF Cons.prems] by blast
    have "length (fst (term_char c t)) = length (fst t) + (if adv then 1 else 0)"
      using b1(3) by (auto simp: term_char_def split: prod.splits)
    then show ?case using Cons.IH [OF b1(2), of "if adv then m + 1 else m"] b1(1) by (cases adv) auto
  qed simp
  from this [of 0] show ?thesis by simp
qed

lemma init_screen: "screen_ok lcd_init_buffer ([], [])"
  by (simp add: screen_ok_def shows_text_def lcd_init_buffer_def buf_shape_def line_text_def pad_def)

theorem lcd_buffer_refines_witness:
  "\<exists>b'. printn_to_buf (''ab'' @ [CHR 0x0A] @ ''c'') 0 lcd_init_buffer = Inr (1, b') \<and> screen_ok b' ([''ab''], ''c'')"
  using lcd_buffer_refines [OF init_screen, of "''ab'' @ [CHR 0x0A] @ ''c''"] by (simp add: term_char_def)

text \<open>
  C36: a controller that latches its data pins on the falling edge of the enable
  pin receives from \<open>lcd_command\<close> and \<open>lcd_write\<close> the upper and then the lower half of
  the byte, as a command and as a character respectively, when the pins are
  distinct and the enable pin is low before; it is low again afterwards.
\<close>

theorem lcd_byte_arrives:
  assumes "wired l" "pins (lcd_enable_pin l) = 0"
  shows "(\<exists>es. lcd_command v l = emit es l \<and> latched l es pins = [(LOW, drop_bit 4 v), (LOW, take_bit 4 v)] \<and>
      fold set_pin es pins (lcd_enable_pin l) = 0) \<and>
    (\<exists>es. lcd_write v l = emit es l \<and> latched l es pins = [(HIGH, drop_bit 4 v), (HIGH, take_bit 4 v)] \<and>
      fold set_pin es pins (lcd_enable_pin l) = 0)"
  using two_nibbles [of l pins LOW v, OF assms] two_nibbles [of l pins HIGH v, OF assms]
  by (auto simp: lcd_command_def lcd_write_def lcd_write_4bits_events byte_events_def)

definition hello_lcd :: lcd_t where
  "hello_lcd = \<lparr>lcd_rs_pin = 2, lcd_enable_pin = 3, lcd_data_pins = [20, 21, 22, 23], lcd_display_function = 8,
     lcd_display_control = 6, lcd_display_mode = 2, lcd_num_lines = 4, lcd_row_offsets = [0, 64, 20, 84],
     lcd_buf = lcd_init_buffer, lcd_last_cursor_row = 0, lcd_last_cursor_col = 0, lcd_events = []\<rparr>"

theorem lcd_byte_arrives_witness:
  "\<exists>es. lcd_write 0x48 hello_lcd = emit es hello_lcd \<and> latched hello_lcd es (\<lambda>_. 0) = [(1, 4), (1, 8)] \<and>
     fold set_pin es (\<lambda>_. 0) 3 = 0"
  using conjunct2 [OF lcd_byte_arrives [of hello_lcd "\<lambda>_. 0" "0x48"]]
  by (simp add: hello_lcd_def wired_def)

text \<open>From column 0 the cursor moves to column 255, behind every row.\<close>

lemma lcd_backspace_wraps:
  "lcd_last_cursor_col l = 0 \<Longrightarrow> lcd_last_cursor_row l < 4 \<Longrightarrow> lcd_num_lines l = 4 \<Longrightarrow> length (lcd_row_offsets l) = 4 \<Longrightarrow>
   \<exists>l'. lcd_backspace l = Inr l' \<and> lcd_last_cursor_col l' = 255"
  by (auto simp: lcd_backspace_def lcd_set_cursor_def clamp_row_def lcd_command_def lcd_write_def lcd_write_char_def
      lcd_write_4bits_def emit_def Let_def word_less_nat_alt word_le_nat_alt)

end
