(* ===== verification/Boards.thy ===== *)
theory Boards
  imports Kernel
begin

text \<open>
  The machines that the kernel can be built for (\<^verbatim>\<open>include/machine/\<close>), the
  memory-mapped registers of a machine as a parameter of the drivers
  (\<^verbatim>\<open>include/mmreg.h\<close>), and the interrupt controller of every machine
  (\<^verbatim>\<open>src/plic.c\<close> with the addresses of \<^verbatim>\<open>include/plic.h\<close>).
\<close>

section \<open>Machines\<close>

text \<open>
  A machine header as a record; a macro that a header does not define is false
  where the code tests it with \<^verbatim>\<open>#if\<close>. \<open>b_MAX_PROCS\<close> is the override of the default.
\<close>

record board =
  b_BOOT_HART_ID :: nat
  b_BOOT_MODE_M :: bool
  b_HAS_S_MODE :: bool
  b_HAS_BOOTARGS :: bool
  b_CODE_IN_ROM :: bool
  b_CONFIG_MMU :: bool
  b_CONFIG_LCD_ENABLED :: bool
  b_PAGE_SIZE :: nat
  b_TEXT_OFFSET :: addr
  b_ONE_SECOND :: regsize
  b_UART0_IRQ_NUM :: u32
  b_UART_BASE :: addr
  b_GPIO_BASE :: addr
  b_CLINT0_BASE :: addr
  b_NUM_HARTS :: nat
  b_PLIC_BASE :: addr
  b_PLIC_NUM_INTR_SOURCES :: nat
  b_PLIC_MAX_PRIORITY :: u32
  b_MAX_PROCS :: "nat option"

definition d1 :: board where
  "d1 = \<lparr>b_BOOT_HART_ID = 0, b_BOOT_MODE_M = False, b_HAS_S_MODE = True, b_HAS_BOOTARGS = True,
     b_CODE_IN_ROM = False, b_CONFIG_MMU = False, b_CONFIG_LCD_ENABLED = False, b_PAGE_SIZE = 512,
     b_TEXT_OFFSET = 0x40200000, b_ONE_SECOND = 24 * 1000 * 1000, b_UART0_IRQ_NUM = 18,
     b_UART_BASE = 0x02500000, b_GPIO_BASE = 0x02000000, b_CLINT0_BASE = 0x14000000, b_NUM_HARTS = 1,
     b_PLIC_BASE = 0x10000000, b_PLIC_NUM_INTR_SOURCES = 256, b_PLIC_MAX_PRIORITY = 31, b_MAX_PROCS = None\<rparr>"

definition hifive1_revb :: board where
  "hifive1_revb = \<lparr>b_BOOT_HART_ID = 0, b_BOOT_MODE_M = True, b_HAS_S_MODE = False, b_HAS_BOOTARGS = False,
     b_CODE_IN_ROM = True, b_CONFIG_MMU = False, b_CONFIG_LCD_ENABLED = True, b_PAGE_SIZE = 512,
     b_TEXT_OFFSET = 0, b_ONE_SECOND = 32768, b_UART0_IRQ_NUM = 3,
     b_UART_BASE = 0x10013000, b_GPIO_BASE = 0x10012000, b_CLINT0_BASE = 0x2000000, b_NUM_HARTS = 1,
     b_PLIC_BASE = 0x0c000000, b_PLIC_NUM_INTR_SOURCES = 53, b_PLIC_MAX_PRIORITY = 7, b_MAX_PROCS = None\<rparr>"

definition ox64 :: board where
  "ox64 = \<lparr>b_BOOT_HART_ID = 0, b_BOOT_MODE_M = False, b_HAS_S_MODE = True, b_HAS_BOOTARGS = True,
     b_CODE_IN_ROM = False, b_CONFIG_MMU = False, b_CONFIG_LCD_ENABLED = False, b_PAGE_SIZE = 512,
     b_TEXT_OFFSET = 0x200000, b_ONE_SECOND = 1000000, b_UART0_IRQ_NUM = 16 + 4,
     b_UART_BASE = 0x30002000, b_GPIO_BASE = 0x200008c4, b_CLINT0_BASE = 0xe4000000, b_NUM_HARTS = 1,
     b_PLIC_BASE = 0xe0000000, b_PLIC_NUM_INTR_SOURCES = 21, b_PLIC_MAX_PRIORITY = 7, b_MAX_PROCS = None\<rparr>"

definition qemu_e :: board where
  "qemu_e = \<lparr>b_BOOT_HART_ID = 0, b_BOOT_MODE_M = True, b_HAS_S_MODE = False, b_HAS_BOOTARGS = False,
     b_CODE_IN_ROM = True, b_CONFIG_MMU = False, b_CONFIG_LCD_ENABLED = False, b_PAGE_SIZE = 512,
     b_TEXT_OFFSET = 0, b_ONE_SECOND = 10 * 1000 * 1000, b_UART0_IRQ_NUM = 3,
     b_UART_BASE = 0x10013000, b_GPIO_BASE = 0x10012000, b_CLINT0_BASE = 0x2000000, b_NUM_HARTS = 1,
     b_PLIC_BASE = 0x0c000000, b_PLIC_NUM_INTR_SOURCES = 53, b_PLIC_MAX_PRIORITY = 7, b_MAX_PROCS = Some 4\<rparr>"

text \<open>The 32-bit build of this machine has no paging.\<close>

definition qemu_u :: "nat \<Rightarrow> board" where
  "qemu_u xlen = \<lparr>b_BOOT_HART_ID = 1, b_BOOT_MODE_M = True, b_HAS_S_MODE = True, b_HAS_BOOTARGS = True,
     b_CODE_IN_ROM = False, b_CONFIG_MMU = (xlen \<noteq> 32), b_CONFIG_LCD_ENABLED = False,
     b_PAGE_SIZE = (if xlen \<noteq> 32 then 4096 else 512),
     b_TEXT_OFFSET = 0, b_ONE_SECOND = 1 * 1000 * 1000, b_UART0_IRQ_NUM = 4,
     b_UART_BASE = 0x10010000, b_GPIO_BASE = 0x10060000, b_CLINT0_BASE = 0x2000000, b_NUM_HARTS = 2,
     b_PLIC_BASE = 0x0c000000, b_PLIC_NUM_INTR_SOURCES = 53, b_PLIC_MAX_PRIORITY = 7, b_MAX_PROCS = None\<rparr>"

definition qemu_virt :: board where
  "qemu_virt = \<lparr>b_BOOT_HART_ID = 0, b_BOOT_MODE_M = True, b_HAS_S_MODE = True, b_HAS_BOOTARGS = True,
     b_CODE_IN_ROM = False, b_CONFIG_MMU = True, b_CONFIG_LCD_ENABLED = False, b_PAGE_SIZE = 4096,
     b_TEXT_OFFSET = 0, b_ONE_SECOND = 10 * 1000 * 1000, b_UART0_IRQ_NUM = 10,
     b_UART_BASE = 0x10000000, b_GPIO_BASE = 0, b_CLINT0_BASE = 0x2000000, b_NUM_HARTS = 1,
     b_PLIC_BASE = 0x0c000000, b_PLIC_NUM_INTR_SOURCES = 53, b_PLIC_MAX_PRIORITY = 7, b_MAX_PROCS = None\<rparr>"

definition star64 :: board where
  "star64 = \<lparr>b_BOOT_HART_ID = 1, b_BOOT_MODE_M = False, b_HAS_S_MODE = True, b_HAS_BOOTARGS = True,
     b_CODE_IN_ROM = False, b_CONFIG_MMU = True, b_CONFIG_LCD_ENABLED = False, b_PAGE_SIZE = 4096,
     b_TEXT_OFFSET = 0x40200000, b_ONE_SECOND = 4180000, b_UART0_IRQ_NUM = 0x20,
     b_UART_BASE = 0x10000000, b_GPIO_BASE = 0x13040000, b_CLINT0_BASE = 0x2000000, b_NUM_HARTS = 1,
     b_PLIC_BASE = 0x0c000000, b_PLIC_NUM_INTR_SOURCES = 136, b_PLIC_MAX_PRIORITY = 7, b_MAX_PROCS = None\<rparr>"

definition boards :: "board list" where
  "boards = [d1, hifive1_revb, ox64, qemu_e, qemu_u 32, qemu_u 64, qemu_virt, star64]"

lemmas board_defs = d1_def hifive1_revb_def ox64_def qemu_e_def qemu_u_def qemu_virt_def star64_def

section \<open>Memory-mapped registers\<close>

text \<open>
  The machine behind the accesses: a read may change its state, as a read of a
  FIFO does. Accesses are 32 bits wide, those of the NS16550A 8 bits.
\<close>

record 'd bus =
  rd32 :: "addr \<Rightarrow> 'd \<Rightarrow> u32 \<times> 'd"
  wr32 :: "addr \<Rightarrow> u32 \<Rightarrow> 'd \<Rightarrow> 'd"
  rd8 :: "addr \<Rightarrow> 'd \<Rightarrow> byte \<times> 'd"
  wr8 :: "addr \<Rightarrow> byte \<Rightarrow> 'd \<Rightarrow> 'd"

definition set_bitfield :: "u32 \<Rightarrow> u32 \<Rightarrow> u32 \<Rightarrow> nat \<Rightarrow> u32" where
  "set_bitfield reg_val new_val msk shift = (reg_val AND NOT msk) OR push_bit shift new_val"

text \<open>\<^verbatim>\<open>while (!p(read(reg)));\<close> and the value that ends it; \<open>None\<close> when it never does.\<close>

partial_function (option) spin :: "('d \<Rightarrow> u32 \<times> 'd) \<Rightarrow> (u32 \<Rightarrow> bool) \<Rightarrow> 'd \<Rightarrow> (u32 \<times> 'd) option" where
  "spin rd p d = (case rd d of (v, d') \<Rightarrow> if p v then Some (v, d') else spin rd p d')"

declare spin.simps [code]

text \<open>The registers of the \<^verbatim>\<open>virt\<close> machine as the other theories have them.\<close>

definition kernel_bus :: "kernel bus" where
  "kernel_bus = \<lparr>rd32 = (\<lambda>a k. (read32 a k, k)), wr32 = write32,
     rd8 = (\<lambda>a k. (ucast (read32 a k), k)), wr8 = (\<lambda>a v. write32 a (ucast v))\<rparr>"

section \<open>Interrupt controller\<close>

definition S_MODE_HART_MULTIPLIER_OFFS :: "board \<Rightarrow> nat" where
  "S_MODE_HART_MULTIPLIER_OFFS b = (if b_HAS_S_MODE b then 1 else 0)"

definition hart_context :: "board \<Rightarrow> addr" where
  "hart_context b = of_nat (b_BOOT_HART_ID b + S_MODE_HART_MULTIPLIER_OFFS b)"

definition plic_priority :: "board \<Rightarrow> addr" where
  "plic_priority b = b_PLIC_BASE b + 0"

definition plic_enable :: "board \<Rightarrow> addr" where
  "plic_enable b = b_PLIC_BASE b + 0x2000 + 0x80 * hart_context b"

definition plic_threshold :: "board \<Rightarrow> addr" where
  "plic_threshold b = b_PLIC_BASE b + 0x200000 + 0x1000 * hart_context b"

definition plic_claim_rw :: "board \<Rightarrow> addr" where
  "plic_claim_rw b = b_PLIC_BASE b + 0x200004 + 0x1000 * hart_context b"

definition set_intr_priority :: "board \<Rightarrow> 'd bus \<Rightarrow> u32 \<Rightarrow> u32 \<Rightarrow> 'd \<Rightarrow> 'd" where
  "set_intr_priority b bus intr_no priority d = wr32 bus (plic_priority b + 4 * scast intr_no) priority d"

definition init_plic :: "board \<Rightarrow> 'd bus \<Rightarrow> 'd \<Rightarrow> 'd" where
  "init_plic b bus d = fold (\<lambda>i. set_intr_priority b bus (of_nat i) 0) [0..<b_PLIC_NUM_INTR_SOURCES b] d"

definition enable_intr :: "board \<Rightarrow> 'd bus \<Rightarrow> u32 \<Rightarrow> 'd \<Rightarrow> 'd" where
  "enable_intr b bus intr_no d =
     (if sint intr_no \<ge> 32 then wr32 bus (plic_enable b + 4) (shl1 (intr_no - 32)) d
      else wr32 bus (plic_enable b) (shl1 intr_no) d)"

definition set_threshold :: "board \<Rightarrow> 'd bus \<Rightarrow> u32 \<Rightarrow> 'd \<Rightarrow> 'd" where
  "set_threshold b bus threshold d = wr32 bus (plic_threshold b) threshold d"

text \<open>The handler of the console is an argument; it may have no outcome (\<open>None\<close>).\<close>

definition dispatch_interrupts :: "board \<Rightarrow> 'd bus \<Rightarrow> ('d \<Rightarrow> 'd option) \<Rightarrow> 'd \<Rightarrow> 'd option" where
  "dispatch_interrupts b bus handler d =
     (case rd32 bus (plic_claim_rw b) d of (intr_no, d) \<Rightarrow>
        map_option (wr32 bus (plic_claim_rw b) intr_no) (if intr_no = b_UART0_IRQ_NUM b then handler d else Some d))"

text \<open>On the \<^verbatim>\<open>virt\<close> machine these are the operations of the theory of devices.\<close>

lemma virt_plic:
  "set_intr_priority qemu_virt kernel_bus = plic_set_intr_priority"
  "init_plic qemu_virt kernel_bus = plic_init"
  "enable_intr qemu_virt kernel_bus = plic_enable_intr"
  "set_threshold qemu_virt kernel_bus = plic_set_threshold"
proof -
  show p: "set_intr_priority qemu_virt kernel_bus = plic_set_intr_priority"
    by (intro ext) (simp add: set_intr_priority_def plic_priority_def kernel_bus_def qemu_virt_def plic_set_intr_priority_def)
  show "init_plic qemu_virt kernel_bus = plic_init"
    by (intro ext) (simp add: init_plic_def plic_init_def p, simp add: qemu_virt_def)
  show "enable_intr qemu_virt kernel_bus = plic_enable_intr"
    by (intro ext) (simp add: enable_intr_def plic_enable_intr_def plic_enable_def kernel_bus_def hart_context_def
      S_MODE_HART_MULTIPLIER_OFFS_def qemu_virt_def)
  show "set_threshold qemu_virt kernel_bus = plic_set_threshold"
    by (intro ext) (simp add: set_threshold_def plic_set_threshold_def plic_threshold_def kernel_bus_def hart_context_def
      S_MODE_HART_MULTIPLIER_OFFS_def qemu_virt_def)
qed

end
