(* ===== verification/Ports.thy ===== *)
theory Ports
  imports Boards
begin

text \<open>
  The serial ports of the machines: the drivers \<^verbatim>\<open>uart-ns16550a.c\<close>, \<^verbatim>\<open>uart-dw-apb.c\<close>,
  \<^verbatim>\<open>uart-ox64.c\<close> and \<^verbatim>\<open>uart-generic.c\<close> of \<^verbatim>\<open>src/drivers/uart/\<close> over the registers of a
  machine, and the part of \<^verbatim>\<open>uart.c\<close> that calls them.
\<close>

section \<open>Registers\<close>

text \<open>\<^verbatim>\<open>uart-ns16550a.h\<close>, \<^verbatim>\<open>uart-dw-apb.h\<close>, \<^verbatim>\<open>uart-ox64.h\<close> and \<^verbatim>\<open>uart.h\<close>.\<close>

definition NS_RBR :: addr where [simp]: "NS_RBR = 0"
definition NS_THR :: addr where [simp]: "NS_THR = 0"
definition NS_IER :: addr where [simp]: "NS_IER = 1"
definition NS_FCR :: addr where [simp]: "NS_FCR = 2"
definition NS_LCR :: addr where [simp]: "NS_LCR = 3"
definition NS_LSR :: addr where [simp]: "NS_LSR = 5"
definition DW_RBR :: addr where [simp]: "DW_RBR = 0"
definition DW_THR :: addr where [simp]: "DW_THR = 0"
definition DW_IER :: addr where [simp]: "DW_IER = 4"
definition DW_FCR :: addr where [simp]: "DW_FCR = 8"
definition DW_LCR :: addr where [simp]: "DW_LCR = 0xc"
definition DW_LSR :: addr where [simp]: "DW_LSR = 0x14"
definition DW_RFL :: addr where [simp]: "DW_RFL = 0x84"
definition LSR_TX_IDLE :: u32 where "LSR_TX_IDLE = push_bit 5 1"
definition BL808_UART_REG_UTX_CONFIG :: addr where [simp]: "BL808_UART_REG_UTX_CONFIG = 0"
definition BL808_UART_REG_URX_CONFIG :: addr where [simp]: "BL808_UART_REG_URX_CONFIG = 4"
definition BL808_UART_REG_INT_MASK :: addr where [simp]: "BL808_UART_REG_INT_MASK = 0x24"
definition BL808_UART_REG_INT_EN :: addr where [simp]: "BL808_UART_REG_INT_EN = 0x2c"
definition BL808_UART_REG_STATUS :: addr where [simp]: "BL808_UART_REG_STATUS = 0x30"
definition BL808_UART_FIFO_CONFIG_1 :: addr where [simp]: "BL808_UART_FIFO_CONFIG_1 = 0x84"
definition BL808_UART_REG_TXFIFO :: addr where [simp]: "BL808_UART_REG_TXFIFO = 0x88"
definition BL808_UART_REG_RXFIFO :: addr where [simp]: "BL808_UART_REG_RXFIFO = 0x8c"
definition BL808_UART_STATUS_TX_BUSY_MASK :: u32 where "BL808_UART_STATUS_TX_BUSY_MASK = 1"
definition BL808_UART_TX_FIFO_CNT_MSK :: u32 where "BL808_UART_TX_FIFO_CNT_MSK = 0x3f"
definition BL808_UART_RX_FIFO_CNT_MSK :: u32 where "BL808_UART_RX_FIFO_CNT_MSK = push_bit 8 0x3f"
definition BL808_UART_RX_FIFO_THRES_MSK :: u32 where "BL808_UART_RX_FIFO_THRES_MSK = push_bit 24 0x1f"
definition BL808_UART_RX_FIFO_THRES_OFS :: nat where "BL808_UART_RX_FIFO_THRES_OFS = 24"
definition BL808_UART_TX_ENABLE :: u32 where "BL808_UART_TX_ENABLE = push_bit 0 1"
definition BL808_UART_RX_ENABLE :: u32 where "BL808_UART_RX_ENABLE = push_bit 0 1"
definition BL808_UART_ENABLE_FREERUN :: u32 where "BL808_UART_ENABLE_FREERUN = push_bit 2 1"
definition BL808_UART_RX_FIFO_READY :: u32 where "BL808_UART_RX_FIFO_READY = push_bit 3 1"
definition BL808_UART_RX_FIFO_ERROR :: u32 where "BL808_UART_RX_FIFO_ERROR = push_bit 7 1"
definition UART_TXDATA :: addr where [simp]: "UART_TXDATA = 0"
definition UART_RXDATA :: addr where [simp]: "UART_RXDATA = 4"
definition UART_RXCTRL :: addr where [simp]: "UART_RXCTRL = 0xc"
definition UART_IE :: addr where [simp]: "UART_IE = 0x10"
definition UART_BAUD_RATE_DIVISOR :: addr where [simp]: "UART_BAUD_RATE_DIVISOR = 0x18"
definition UART_IE_RXWM :: u32 where "UART_IE_RXWM = 2"

section \<open>Drivers\<close>

text \<open>A driver keeps the variable \<open>last_rx_peek\<close> (only \<^verbatim>\<open>uart-generic.c\<close> has it) beside the machine.\<close>

type_synonym 'd ustate = "u32 \<times> 'd"

subsection \<open>NS16550A\<close>

definition ns_machine_init :: "board \<Rightarrow> 'd bus \<Rightarrow> 'd \<Rightarrow> 'd" where
  "ns_machine_init b bus d =
     (let d = wr8 bus (b_UART_BASE b + NS_LCR) 3 d;
          d = wr8 bus (b_UART_BASE b + NS_FCR) 1 d;
          d = wr8 bus (b_UART_BASE b + NS_IER) 1 d;
          d = set_intr_priority b bus (b_UART0_IRQ_NUM b) (b_PLIC_MAX_PRIORITY b) d;
          d = set_threshold b bus (b_PLIC_MAX_PRIORITY b - 1) d
      in enable_intr b bus (b_UART0_IRQ_NUM b) d)"

definition ns_writechar :: "board \<Rightarrow> 'd bus \<Rightarrow> char \<Rightarrow> 'd \<Rightarrow> 'd option" where
  "ns_writechar b bus ch d = Some (wr8 bus (b_UART_BASE b + NS_THR) (of_char ch) d)"

definition ns_rx_num_avail :: "board \<Rightarrow> 'd bus \<Rightarrow> 'd \<Rightarrow> int \<times> 'd" where
  "ns_rx_num_avail b bus d = (case rd8 bus (b_UART_BASE b + NS_LSR) d of (lsr, d) \<Rightarrow> (uint (lsr AND 1), d))"

definition ns_readchar :: "board \<Rightarrow> 'd bus \<Rightarrow> 'd \<Rightarrow> (char \<times> 'd) option" where
  "ns_readchar b bus d = (case rd8 bus (b_UART_BASE b + NS_RBR) d of (v, d) \<Rightarrow> Some (char_of (unat v), d))"

subsection \<open>DesignWare APB\<close>

definition UART0 :: "board \<Rightarrow> addr" where
  "UART0 b = b_UART_BASE b + 0 * 0x4000"

definition dw_machine_init :: "board \<Rightarrow> 'd bus \<Rightarrow> 'd \<Rightarrow> 'd" where
  "dw_machine_init b bus d =
     (let d = wr32 bus (UART0 b + DW_IER) 0 d;
          d = wr32 bus (UART0 b + DW_FCR) 0xf7 d;
          d = wr32 bus (UART0 b + DW_FCR) 1 d;
          d = wr32 bus (UART0 b + DW_IER) 1 d;
          d = set_intr_priority b bus (b_UART0_IRQ_NUM b) (b_PLIC_MAX_PRIORITY b) d;
          d = set_threshold b bus (b_PLIC_MAX_PRIORITY b - 1) d
      in enable_intr b bus (b_UART0_IRQ_NUM b) d)"

definition dw_writechar :: "board \<Rightarrow> 'd bus \<Rightarrow> char \<Rightarrow> 'd \<Rightarrow> 'd option" where
  "dw_writechar b bus ch d =
     map_option (\<lambda>(_, d). wr32 bus (UART0 b + DW_THR) (of_char ch) d)
       (spin (rd32 bus (UART0 b + DW_LSR)) (\<lambda>v. v AND LSR_TX_IDLE \<noteq> 0) d)"

definition dw_readchar :: "board \<Rightarrow> 'd bus \<Rightarrow> 'd \<Rightarrow> (char \<times> 'd) option" where
  "dw_readchar b bus d = (case rd32 bus (UART0 b + DW_RBR) d of (v, d) \<Rightarrow> Some (char_of (unat v), d))"

definition dw_rx_num_avail :: "board \<Rightarrow> 'd bus \<Rightarrow> 'd \<Rightarrow> int \<times> 'd" where
  "dw_rx_num_avail b bus d = (case rd32 bus (UART0 b + DW_RFL) d of (rfl, d) \<Rightarrow> (sint rfl, d))"

subsection \<open>BL808 of the Ox64\<close>

text \<open>\<open>v |= bits\<close> and \<open>v &= ~bits\<close> on a register: a read and a write.\<close>

definition modify32 :: "'d bus \<Rightarrow> addr \<Rightarrow> (u32 \<Rightarrow> u32) \<Rightarrow> 'd \<Rightarrow> 'd" where
  "modify32 bus a f d = (case rd32 bus a d of (v, d) \<Rightarrow> wr32 bus a (f v) d)"

definition ox_machine_init :: "board \<Rightarrow> 'd bus \<Rightarrow> 'd \<Rightarrow> 'd" where
  "ox_machine_init b bus d =
     (let base = b_UART_BASE b;
          d = wr32 bus (base + BL808_UART_REG_INT_MASK) (NOT 0) d;
          d = modify32 bus (base + BL808_UART_REG_INT_EN) (\<lambda>v. v OR (BL808_UART_RX_FIFO_READY OR BL808_UART_RX_FIFO_ERROR)) d;
          d = modify32 bus (base + BL808_UART_FIFO_CONFIG_1)
                (\<lambda>v. set_bitfield v 0 BL808_UART_RX_FIFO_THRES_MSK BL808_UART_RX_FIFO_THRES_OFS) d;
          d = modify32 bus (base + BL808_UART_REG_INT_MASK) (\<lambda>v. v AND NOT (BL808_UART_RX_FIFO_READY OR BL808_UART_RX_FIFO_ERROR)) d;
          d = modify32 bus (base + BL808_UART_REG_UTX_CONFIG) (\<lambda>v. v OR (BL808_UART_ENABLE_FREERUN OR BL808_UART_TX_ENABLE)) d;
          d = modify32 bus (base + BL808_UART_REG_URX_CONFIG) (\<lambda>v. v OR BL808_UART_RX_ENABLE) d;
          d = enable_intr b bus (b_UART0_IRQ_NUM b) d;
          d = set_intr_priority b bus (b_UART0_IRQ_NUM b) (b_PLIC_MAX_PRIORITY b) d
      in set_threshold b bus (b_PLIC_MAX_PRIORITY b - 1) d)"

definition ox_writechar :: "board \<Rightarrow> 'd bus \<Rightarrow> char \<Rightarrow> 'd \<Rightarrow> 'd option" where
  "ox_writechar b bus ch d =
     map_option (\<lambda>(_, d). wr32 bus (b_UART_BASE b + BL808_UART_REG_TXFIFO) (of_char ch) d)
       (spin (rd32 bus (b_UART_BASE b + BL808_UART_FIFO_CONFIG_1)) (\<lambda>v. v AND BL808_UART_TX_FIFO_CNT_MSK \<noteq> 0) d)"

definition ox_rx_num_avail :: "board \<Rightarrow> 'd bus \<Rightarrow> 'd \<Rightarrow> int \<times> 'd" where
  "ox_rx_num_avail b bus d =
     (case rd32 bus (b_UART_BASE b + BL808_UART_FIFO_CONFIG_1) d of (fifo_config_1, d) \<Rightarrow>
        (sint (drop_bit 8 (fifo_config_1 AND BL808_UART_RX_FIFO_CNT_MSK)), d))"

definition ox_readchar :: "board \<Rightarrow> 'd bus \<Rightarrow> 'd \<Rightarrow> (char \<times> 'd) option" where
  "ox_readchar b bus d =
     map_option (\<lambda>(_, d). case rd32 bus (b_UART_BASE b + BL808_UART_REG_RXFIFO) d of (v, d) \<Rightarrow> (char_of (unat (v AND 0xff)), d))
       (spin (rd32 bus (b_UART_BASE b + BL808_UART_FIFO_CONFIG_1))
         (\<lambda>v. sint (drop_bit 8 (v AND BL808_UART_RX_FIFO_CNT_MSK)) \<noteq> 0) d)"

definition ox_machine_wait_status :: "board \<Rightarrow> 'd bus \<Rightarrow> 'd \<Rightarrow> 'd option" where
  "ox_machine_wait_status b bus d =
     map_option snd (spin (rd32 bus (b_UART_BASE b + BL808_UART_REG_STATUS)) (\<lambda>v. v AND BL808_UART_STATUS_TX_BUSY_MASK = 0) d)"

subsection \<open>SiFive\<close>

definition sf_machine_init :: "board \<Rightarrow> 'd bus \<Rightarrow> 'd ustate \<Rightarrow> 'd ustate" where
  "sf_machine_init b bus s =
     (let d = snd s;
          d = wr32 bus (b_UART_BASE b + UART_RXCTRL) 1 d;
          d = wr32 bus (b_UART_BASE b + UART_IE) UART_IE_RXWM d;
          d = wr32 bus (b_UART_BASE b + UART_BAUD_RATE_DIVISOR) 138 d;
          d = enable_intr b bus (b_UART0_IRQ_NUM b) d;
          d = set_intr_priority b bus (b_UART0_IRQ_NUM b) (b_PLIC_MAX_PRIORITY b) d
      in (0, set_threshold b bus (b_PLIC_MAX_PRIORITY b - 1) d))"

definition sf_writechar :: "board \<Rightarrow> 'd bus \<Rightarrow> char \<Rightarrow> 'd ustate \<Rightarrow> 'd ustate option" where
  "sf_writechar b bus ch s =
     map_option (\<lambda>(_, d). (fst s, wr32 bus (b_UART_BASE b + UART_TXDATA) (of_char ch) d))
       (spin (rd32 bus (b_UART_BASE b + UART_TXDATA)) (\<lambda>v. v = 0) (snd s))"

definition sf_rx_num_avail :: "board \<Rightarrow> 'd bus \<Rightarrow> 'd ustate \<Rightarrow> int \<times> 'd ustate" where
  "sf_rx_num_avail b bus s =
     (case rd32 bus (b_UART_BASE b + UART_RXDATA) (snd s) of (last_rx_peek, d) \<Rightarrow>
        (if sint last_rx_peek > 0 then 1 else 0, (last_rx_peek, d)))"

definition sf_readchar :: "board \<Rightarrow> 'd bus \<Rightarrow> 'd ustate \<Rightarrow> (char \<times> 'd ustate) option" where
  "sf_readchar b bus s =
     (if fst s \<noteq> 0 then Some (char_of (unat (fst s AND 0xff)), (0, snd s))
      else case rd32 bus (b_UART_BASE b + UART_RXDATA) (snd s) of (word, d) \<Rightarrow> Some (char_of (unat (word AND 0xff)), (fst s, d)))"

section \<open>The driver of a machine\<close>

text \<open>The build links one driver per machine.\<close>

datatype uart_kind = NS16550A | DW_APB | BL808 | SIFIVE

definition lift_state :: "('d \<Rightarrow> 'd option) \<Rightarrow> 'd ustate \<Rightarrow> 'd ustate option" where
  "lift_state f s = map_option (Pair (fst s)) (f (snd s))"

definition lift_avail :: "('d \<Rightarrow> int \<times> 'd) \<Rightarrow> 'd ustate \<Rightarrow> int \<times> 'd ustate" where
  "lift_avail f s = (case f (snd s) of (n, d) \<Rightarrow> (n, (fst s, d)))"

definition lift_read :: "('d \<Rightarrow> (char \<times> 'd) option) \<Rightarrow> 'd ustate \<Rightarrow> (char \<times> 'd ustate) option" where
  "lift_read f s = map_option (\<lambda>(c, d). (c, (fst s, d))) (f (snd s))"

fun machine_init :: "uart_kind \<Rightarrow> board \<Rightarrow> 'd bus \<Rightarrow> 'd ustate \<Rightarrow> 'd ustate" where
  "machine_init NS16550A b bus s = (fst s, ns_machine_init b bus (snd s))"
| "machine_init DW_APB b bus s = (fst s, dw_machine_init b bus (snd s))"
| "machine_init BL808 b bus s = (fst s, ox_machine_init b bus (snd s))"
| "machine_init SIFIVE b bus s = sf_machine_init b bus s"

fun writechar :: "uart_kind \<Rightarrow> board \<Rightarrow> 'd bus \<Rightarrow> char \<Rightarrow> 'd ustate \<Rightarrow> 'd ustate option" where
  "writechar NS16550A b bus c = lift_state (ns_writechar b bus c)"
| "writechar DW_APB b bus c = lift_state (dw_writechar b bus c)"
| "writechar BL808 b bus c = lift_state (ox_writechar b bus c)"
| "writechar SIFIVE b bus c = sf_writechar b bus c"

fun rx_num_avail :: "uart_kind \<Rightarrow> board \<Rightarrow> 'd bus \<Rightarrow> 'd ustate \<Rightarrow> int \<times> 'd ustate" where
  "rx_num_avail NS16550A b bus = lift_avail (ns_rx_num_avail b bus)"
| "rx_num_avail DW_APB b bus = lift_avail (dw_rx_num_avail b bus)"
| "rx_num_avail BL808 b bus = lift_avail (ox_rx_num_avail b bus)"
| "rx_num_avail SIFIVE b bus = sf_rx_num_avail b bus"

fun readchar :: "uart_kind \<Rightarrow> board \<Rightarrow> 'd bus \<Rightarrow> 'd ustate \<Rightarrow> (char \<times> 'd ustate) option" where
  "readchar NS16550A b bus = lift_read (ns_readchar b bus)"
| "readchar DW_APB b bus = lift_read (dw_readchar b bus)"
| "readchar BL808 b bus = lift_read (ox_readchar b bus)"
| "readchar SIFIVE b bus = sf_readchar b bus"

fun machine_wait_status :: "uart_kind \<Rightarrow> board \<Rightarrow> 'd bus \<Rightarrow> 'd ustate \<Rightarrow> 'd ustate option" where
  "machine_wait_status BL808 b bus = lift_state (ox_machine_wait_status b bus)"
| "machine_wait_status _ b bus = Some"

section \<open>The console over a driver\<close>

text \<open>The loop of \<open>uart_prints\<close> and the function.\<close>

fun port_prints :: "(char \<Rightarrow> 's \<Rightarrow> 's option) \<Rightarrow> string \<Rightarrow> 's \<Rightarrow> 's option" where
  "port_prints w [] s = Some s"
| "port_prints w (c # cs) s = Option.bind (w c s) (port_prints w cs)"

definition console_prints :: "uart_kind \<Rightarrow> board \<Rightarrow> 'd bus \<Rightarrow> string \<Rightarrow> 'd ustate \<Rightarrow> 'd ustate option" where
  "console_prints kind b bus str s = Option.bind (port_prints (writechar kind b bus) str s) (machine_wait_status kind b bus)"

text \<open>
  The loop of \<open>uart_enqueue_chars\<close>, less the calls of the display driver in the build
  for \<^verbatim>\<open>hifive1-revb\<close>: it asks the driver for a character, handles it
  (\<open>enqueue_char\<close>) and sends the echo, which \<open>enqueue_char\<close> collects latest first,
  through the driver. \<open>None\<close>: the driver does not return, or there is always another
  character.
\<close>

partial_function (option) port_enqueue ::
    "(char \<Rightarrow> 's \<Rightarrow> 's option) \<Rightarrow> ('s \<Rightarrow> int \<times> 's) \<Rightarrow> ('s \<Rightarrow> (char \<times> 's) option) \<Rightarrow>
     nat \<Rightarrow> nat \<Rightarrow> kernel \<Rightarrow> 's \<Rightarrow> ((nat \<times> nat \<times> kernel) res \<times> 's) option" where
  "port_enqueue w av rd wpos n k s =
     (case av s of (num, s) \<Rightarrow>
        if num = 0 then Some (Inr (wpos, n, k), s)
        else Option.bind (rd s) (\<lambda>(ch, s).
          case enqueue_char ch wpos n (k\<lparr>k_console := []\<rparr>) of
            Inl e \<Rightarrow> Some (Inl e, s)
          | Inr (wpos, n, k') \<Rightarrow> Option.bind (port_prints w (rev (k_console k')) s) (\<lambda>s.
              port_enqueue w av rd wpos n (k'\<lparr>k_console := k_console k\<rparr>) s)))"

end
