(* ===== verification/Serial.thy ===== *)
theory Serial
  imports Ports
begin

text \<open>
  What the console needs of a serial driver, as a contract, and that the drivers
  keep it on devices that behave as their manuals say: whatever the machine, the
  interrupt handler of the console does what the theory of the console shows for
  the \<^verbatim>\<open>virt\<close> machine.
\<close>

section \<open>The console logic does not depend on the device\<close>

definition put_io :: "string \<Rightarrow> string \<Rightarrow> kernel \<Rightarrow> kernel" where
  "put_io out inp k = k\<lparr>k_console := out, k_rx := inp\<rparr>"

lemma put_io_simps [simp]:
  "procs (put_io out inp k) = procs k" "k_proc_table (put_io out inp k) = k_proc_table k"
  "k_uart0 (put_io out inp k) = k_uart0 k" "k_console (put_io out inp k) = out" "k_rx (put_io out inp k) = inp"
  "put_io out inp (put_io out' inp' k) = put_io out inp k"
  by (simp_all add: put_io_def)

lemma put_io_commutes:
  "upd_pt f (put_io out inp k) = put_io out inp (upd_pt f k)"
  "upd_proc i g (put_io out inp k) = put_io out inp (upd_proc i g k)"
  "upd_uart h (put_io out inp k) = put_io out inp (upd_uart h k)"
  "(put_io out inp k)\<lparr>k_unsleep_scheduler := u\<rparr> = put_io out inp (k\<lparr>k_unsleep_scheduler := u\<rparr>)"
  by (simp_all add: put_io_def upd_pt_def upd_proc_def upd_uart_def)

lemma update_put_io:
  "update_proc_by_chan i ch (put_io out inp k) = bnd (update_proc_by_chan i ch k) (\<lambda>k. Inr (put_io out inp k))"
proof -
  have "procs (k\<lparr>k_unsleep_scheduler := u\<rparr>) = procs k" for u by simp
  then show ?thesis
    by (auto simp: update_proc_by_chan_def Let_def put_io_commutes split: chan.split)
qed

lemma wakeup_put_io:
  "wakeup_loop is ch (put_io out inp k) = bnd (wakeup_loop is ch k) (\<lambda>k. Inr (put_io out inp k))"
  by (induction "is" arbitrary: k)
    (simp_all add: bnd_assoc acquire_proc_def release_proc_def put_io_commutes update_put_io)

lemma mark_put_io:
  "proc_mark_for_wakeup ch (put_io out inp k) = bnd (proc_mark_for_wakeup ch k) (\<lambda>k. Inr (put_io out inp k))"
  by (simp add: proc_mark_for_wakeup_def acquire_pt_def release_pt_def bnd_assoc put_io_commutes wakeup_put_io
    if_distrib [of "\<lambda>m. bnd m _"] cong: if_cong del: upt_Suc)

lemma mark_io:
  assumes "proc_mark_for_wakeup ch k = Inr k'"
  shows "k_console k' = k_console k" "k_rx k' = k_rx k"
proof -
  have "k = put_io (k_console k) (k_rx k) k" by (simp add: put_io_def)
  then have "proc_mark_for_wakeup ch k = bnd (proc_mark_for_wakeup ch k) (\<lambda>k1. Inr (put_io (k_console k) (k_rx k) k1))"
    by (metis mark_put_io)
  with assms have "k' = put_io (k_console k) (k_rx k) k'" by simp
  then show "k_console k' = k_console k" "k_rx k' = k_rx k" by (metis put_io_simps(4), metis put_io_simps(5))
qed

text \<open>What is echoed is put in front of what is there.\<close>

lemma writechar_put_io: "uart_writechar c (put_io out inp k) = put_io (c # out) inp k"
  by (simp add: uart_writechar_def put_io_def)

lemma enqueue_put_io:
  "enqueue_char ch wpos n (put_io out inp k) =
     bnd (enqueue_char ch wpos n (put_io [] inp' k)) (\<lambda>(wpos, n, k'). Inr (wpos, n, put_io (k_console k' @ out) inp k'))"
  by (auto simp: enqueue_char_def Let_def put_io_commutes mark_put_io writechar_put_io bnd_assoc
    if_distrib [of "\<lambda>m. bnd m _"] cong: if_cong intro!: bnd_cong)

lemma put_io_self: "put_io (k_console k) (k_rx k) k = k"
  by (simp add: put_io_def)

lemma put_rx: "(put_io out inp k)\<lparr>k_rx := r\<rparr> = put_io out r k" "(put_io out inp k)\<lparr>k_console := c\<rparr> = put_io c inp k"
  by (simp_all add: put_io_def)

lemma loop_put_io:
  "enqueue_loop cs wpos n (put_io out inp k) =
     bnd (enqueue_loop cs wpos n (put_io [] inp k)) (\<lambda>(wpos, n, k'). Inr (wpos, n, put_io (k_console k' @ out) (k_rx k') k'))"
proof (induction cs arbitrary: wpos n out inp k)
  case Nil
  then show ?case by simp
next
  case (Cons c cs)
  have *: "enqueue_loop cs w1 n1 (put_io (xs @ out) cs k1) =
      bnd (enqueue_loop cs w1 n1 (put_io xs cs k1)) (\<lambda>(w, n, k'). Inr (w, n, put_io (k_console k' @ out) (k_rx k') k'))" for w1 n1 xs k1
    by (subst (1 2) Cons.IH) (auto simp: bnd_assoc split_def intro!: bnd_cong)
  have "put_io (k_console k1) cs k1 = k1" if "enqueue_char c wpos n (put_io [] cs k) = Inr (w1, n1, k1)" for w1 n1 k1
    using that by (subst (asm) enqueue_put_io [of _ _ _ _ _ _ cs]) auto
  then show ?case
    by (auto simp: put_rx enqueue_put_io [of c wpos n out cs k cs] bnd_assoc split_def * intro!: bnd_cong)
qed

section \<open>The contract of a driver\<close>

text \<open>
  \<open>fifo s\<close> are the characters that the device has received and nobody has read,
  \<open>sent s\<close> those it has been given to send. The console asks \<open>av\<close> before every \<open>rd\<close>.
\<close>

locale uart_port =
  fixes w :: "char \<Rightarrow> 's \<Rightarrow> 's option"
    and av :: "'s \<Rightarrow> int \<times> 's"
    and rd :: "'s \<Rightarrow> (char \<times> 's) option"
    and fifo :: "'s \<Rightarrow> string"
    and sent :: "'s \<Rightarrow> string"
    and ok :: "'s \<Rightarrow> bool"
  assumes write_sends: "ok s \<Longrightarrow> \<exists>s'. w c s = Some s' \<and> ok s' \<and> sent s' = sent s @ [c] \<and> fifo s' = fifo s"
    and none_avail: "ok s \<Longrightarrow> fifo s = [] \<Longrightarrow> \<exists>s'. av s = (0, s') \<and> ok s' \<and> sent s' = sent s \<and> fifo s' = []"
    and avail_read: "ok s \<Longrightarrow> fifo s = c # cs \<Longrightarrow>
      \<exists>n s1 s2. av s = (n, s1) \<and> n \<noteq> 0 \<and> rd s1 = Some (c, s2) \<and> ok s2 \<and> sent s2 = sent s \<and> fifo s2 = cs"
begin

lemma prints_sends:
  assumes "ok s"
  shows "\<exists>s'. port_prints w str s = Some s' \<and> ok s' \<and> sent s' = sent s @ str \<and> fifo s' = fifo s"
  using assms
proof (induction str arbitrary: s)
  case (Cons c cs)
  obtain s1 where s1: "w c s = Some s1" "ok s1" "sent s1 = sent s @ [c]" "fifo s1 = fifo s"
    using write_sends [OF Cons.prems] by blast
  with Cons.IH [OF s1(2)] show ?case by auto
qed simp

lemma enqueue_refines:
  assumes "ok s" "enqueue_loop (fifo s) wpos n (put_io [] inp k) = Inr (wpos', n', k')"
  shows "\<exists>s'. port_enqueue w av rd wpos n k s = Some (Inr (wpos', n', put_io (k_console k) (k_rx k) k'), s') \<and>
    ok s' \<and> fifo s' = [] \<and> sent s' = sent s @ rev (k_console k')"
  using assms
proof (induction "fifo s" arbitrary: s wpos n k inp k')
  case Nil
  then show ?case using none_avail [OF Nil.prems(1)] Nil(1)
    by (subst port_enqueue.simps) (auto simp: put_io_def)
next
  case (Cons c cs)
  obtain num s1 s2 where s2: "av s = (num, s1)" "num \<noteq> 0" "rd s1 = Some (c, s2)" "ok s2" "sent s2 = sent s" "fifo s2 = cs"
    using avail_read [OF Cons.prems(1) Cons.hyps(2) [symmetric]] by blast
  obtain w1 n1 k1 where k1: "enqueue_char c wpos n (put_io [] cs k) = Inr (w1, n1, k1)"
      "enqueue_loop cs w1 n1 k1 = Inr (wpos', n', k')"
    using Cons.prems(2) Cons.hyps(2) [symmetric] by (auto simp: put_io_def)
  obtain s3 where s3: "port_prints w (rev (k_console k1)) s2 = Some s3" "ok s3" "sent s3 = sent s @ rev (k_console k1)" "fifo s3 = cs"
    using prints_sends [OF s2(4)] s2 by metis
  have step: "enqueue_char c wpos n (k\<lparr>k_console := []\<rparr>) = Inr (w1, n1, put_io (k_console k1) (k_rx k) k1)"
    using enqueue_put_io [of c wpos n "[]" "k_rx k" k cs] k1(1) by (simp add: put_io_def)
  obtain k2 where k2: "enqueue_loop cs w1 n1 (put_io [] (k_rx k1) k1) = Inr (wpos', n', k2)"
      "k' = put_io (k_console k2 @ k_console k1) (k_rx k2) k2"
    using trans [OF loop_put_io [of cs w1 n1 "k_console k1" "k_rx k1" k1, symmetric, unfolded put_io_self] k1(2)] by auto
  have "enqueue_loop (fifo s3) w1 n1 (put_io [] (k_rx k1) (put_io (k_console k) (k_rx k) k1)) = Inr (wpos', n', k2)"
    using k2(1) s3(4) by simp
  from Cons.hyps(1) [OF s3(4) [symmetric] s3(2) this] s3(3)
  obtain s' where "port_enqueue w av rd w1 n1 (put_io (k_console k) (k_rx k) k1) s3 =
      Some (Inr (wpos', n', put_io (k_console k) (k_rx k) k2), s')"
      "ok s'" "fifo s' = []" "sent s' = sent s3 @ rev (k_console k2)"
    by auto
  then show ?case
    using s2 s3 step k2(2) by (subst port_enqueue.simps) (auto simp: put_rx)
qed

end

section \<open>Devices\<close>

text \<open>The driver and the machine of every build.\<close>

definition builds :: "(uart_kind \<times> board) list" where
  "builds = [(NS16550A, qemu_virt), (DW_APB, d1), (DW_APB, star64), (BL808, ox64),
     (SIFIVE, hifive1_revb), (SIFIVE, qemu_e), (SIFIVE, qemu_u 32), (SIFIVE, qemu_u 64)]"

lemmas plic_ops = set_intr_priority_def set_threshold_def enable_intr_def plic_priority_def plic_threshold_def plic_enable_def
  hart_context_def S_MODE_HART_MULTIPLIER_OFFS_def

text \<open>
  The interrupt controller of a machine: \<open>legal a v\<close> is what the register at \<open>a\<close> holds
  after \<open>v\<close> has been written to it. A priority register and the threshold hold the
  priorities of the machine (source 0 does not exist, so that only a zero is
  certain to be kept there), an enable word the bits of the sources that exist.
\<close>

locale plic_regs =
  fixes b :: board
    and legal :: "addr \<Rightarrow> u32 \<Rightarrow> u32"
  assumes legal_priority: "0 < i \<Longrightarrow> i < b_PLIC_NUM_INTR_SOURCES b \<Longrightarrow> v \<le> b_PLIC_MAX_PRIORITY b \<Longrightarrow>
      legal (plic_priority b + 4 * of_nat i) v = v"
    and legal_none: "i < b_PLIC_NUM_INTR_SOURCES b \<Longrightarrow> legal (plic_priority b + 4 * of_nat i) 0 = 0"
    and legal_threshold: "v \<le> b_PLIC_MAX_PRIORITY b \<Longrightarrow> legal (plic_threshold b) v = v"
    and legal_enable: "0 < i \<Longrightarrow> i < b_PLIC_NUM_INTR_SOURCES b \<Longrightarrow>
      bit (legal (plic_enable b + 4 * of_nat (i div 32)) v) (i mod 32) = bit v (i mod 32)"

definition plic_addrs :: "board \<Rightarrow> addr set" where
  "plic_addrs b = {plic_priority b + 4 * of_nat i |i. i < b_PLIC_NUM_INTR_SOURCES b} \<union>
     {plic_enable b + 4 * of_nat (i div 32) |i. i < b_PLIC_NUM_INTR_SOURCES b} \<union> {plic_threshold b}"

text \<open>
  A machine: a write to one of these registers, or to one of the control registers
  \<open>ctrl\<close> of its serial port, changes that register and no other and neither sends nor
  takes a character. Nothing is assumed of other addresses, such as the register
  in which interrupts are claimed. \<open>busy d\<close> is the number of status reads after which
  the port takes another character.
\<close>

locale uart_hw = plic_regs b legal for b :: board and legal +
  fixes bus :: "'d bus"
    and reg :: "'d \<Rightarrow> addr \<Rightarrow> u32"
    and fifo :: "'d \<Rightarrow> string"
    and sent :: "'d \<Rightarrow> string"
    and busy :: "'d \<Rightarrow> nat"
    and ctrl :: "addr set"
  assumes write_reg: "a \<in> plic_addrs b \<union> ctrl \<Longrightarrow> reg (wr32 bus a v d) = (reg d)(a := legal a v) \<and>
      fifo (wr32 bus a v d) = fifo d \<and> sent (wr32 bus a v d) = sent d"
begin

text \<open>Waiting for a status register that is polled ends, and only the wait is over.\<close>

lemma spin_ends:
  assumes poll: "\<And>d. \<exists>v d'. rd d = (v, d') \<and> (p v \<longleftrightarrow> busy d = 0) \<and> busy d' = busy d - 1 \<and>
      reg d' = reg d \<and> fifo d' = fifo d \<and> sent d' = sent d"
  shows "\<exists>v d'. spin rd p d = Some (v, d') \<and> busy d' = 0 \<and> reg d' = reg d \<and> fifo d' = fifo d \<and> sent d' = sent d"
proof (induction "busy d" arbitrary: d)
  case 0
  with poll [of d] show ?case by (subst spin.simps) fastforce
next
  case (Suc n)
  obtain v d' where d': "rd d = (v, d')" "\<not> p v" "busy d' = n" "reg d' = reg d" "fifo d' = fifo d" "sent d' = sent d"
    using poll [of d] Suc(2) by force
  from Suc(1) [of d'] d' show ?case by (subst spin.simps) auto
qed

end

lemma and_bit_iff: "v AND push_bit n 1 \<noteq> 0 \<longleftrightarrow> bit (v :: 'a :: len word) n"
  by (metis and_exp_eq_0_iff_not_bit push_bit_eq_mult mult_1)

lemma unat_of_char: "unat (of_char c :: 'a :: len word) = of_char c mod 2 ^ LENGTH('a)"
  by (metis of_nat_of_char unat_of_nat)

lemma of_char_less: "(of_char c :: nat) < 256"
  by (metis of_char_mod_256 mod_less_divisor zero_less_numeral)

lemma char_of_ucast [simp]: "char_of (unat (of_char c :: byte)) = c" "char_of (unat (of_char c :: u32)) = c"
  by (simp_all add: unat_of_char mod_less [OF less_le_trans [OF of_char_less]])

lemma and_one_zero: "uint (x AND 1 :: 'a :: len word) = 0 \<longleftrightarrow> \<not> bit x 0"
  using and_bit_iff [of x 0] by (auto simp: uint_0_iff)

lemma sint_eq_0: "sint (v :: 'a :: len word) = 0 \<longleftrightarrow> v = 0"
  by (metis sint_0 signed_word_eqI)

lemma of_nat_pos32: "0 < n \<Longrightarrow> n < 2 ^ 32 \<Longrightarrow> (of_nat n :: u32) \<noteq> 0"
  by (metis unat_of_nat32 unat_0 less_not_refl)

subsection \<open>NS16550A\<close>

text \<open>
  The port of the emulator takes every character at once. The data registers are
  behind the divisor latch unless bit 7 of the line control register is clear.
\<close>

locale ns_chip = uart_hw b legal bus reg fifo sent busy "{}"
  for b :: board and legal and bus :: "'d bus" and reg fifo sent busy +
  assumes ns_lcr: "bit (legal (b_UART_BASE b + NS_LCR) v) 7 = bit v 7"
    and ns_plain: "a = b_UART_BASE b + NS_LCR \<or> a = b_UART_BASE b + NS_IER \<Longrightarrow>
      reg (wr8 bus a x d) = (reg d)(a := legal a (ucast x)) \<and> fifo (wr8 bus a x d) = fifo d \<and> sent (wr8 bus a x d) = sent d"
    and ns_fcr: "reg (wr8 bus (b_UART_BASE b + NS_FCR) x d) = reg d \<and> sent (wr8 bus (b_UART_BASE b + NS_FCR) x d) = sent d \<and>
      fifo (wr8 bus (b_UART_BASE b + NS_FCR) x d) = (if bit x 1 then [] else fifo d)"
    and ns_lsr: "\<exists>x d'. rd8 bus (b_UART_BASE b + NS_LSR) d = (x, d') \<and> (bit x 0 \<longleftrightarrow> fifo d \<noteq> []) \<and>
      reg d' = reg d \<and> fifo d' = fifo d \<and> sent d' = sent d"
    and ns_thr: "\<not> bit (reg d (b_UART_BASE b + NS_LCR)) 7 \<Longrightarrow>
      reg (wr8 bus (b_UART_BASE b + NS_THR) x d) = reg d \<and> fifo (wr8 bus (b_UART_BASE b + NS_THR) x d) = fifo d \<and>
      sent (wr8 bus (b_UART_BASE b + NS_THR) x d) = sent d @ [char_of (unat x)]"
    and ns_rbr: "\<not> bit (reg d (b_UART_BASE b + NS_LCR)) 7 \<Longrightarrow> fifo d = c # cs \<Longrightarrow>
      \<exists>x d'. rd8 bus (b_UART_BASE b + NS_RBR) d = (x, d') \<and> char_of (unat x) = c \<and> fifo d' = cs \<and> reg d' = reg d \<and> sent d' = sent d"

definition ns_ok :: "board \<Rightarrow> ('d \<Rightarrow> addr \<Rightarrow> u32) \<Rightarrow> 'd ustate \<Rightarrow> bool" where
  "ns_ok b reg s \<longleftrightarrow> \<not> bit (reg (snd s) (b_UART_BASE b + NS_LCR)) 7"

sublocale ns_chip \<subseteq> ns: uart_port "writechar NS16550A b bus" "rx_num_avail NS16550A b bus" "readchar NS16550A b bus"
    "\<lambda>s. fifo (snd s)" "\<lambda>s. sent (snd s)" "ns_ok b reg"
proof
  show "\<exists>s'. writechar NS16550A b bus c s = Some s' \<and> ns_ok b reg s' \<and> sent (snd s') = sent (snd s) @ [c] \<and> fifo (snd s') = fifo (snd s)"
    if "ns_ok b reg s" for s c
    using ns_thr [of "snd s"] that by (simp add: ns_ok_def lift_state_def ns_writechar_def)
next
  show "\<exists>s'. rx_num_avail NS16550A b bus s = (0, s') \<and> ns_ok b reg s' \<and> sent (snd s') = sent (snd s) \<and> fifo (snd s') = []"
    if "ns_ok b reg s" "fifo (snd s) = []" for s
    using ns_lsr [of "snd s"] that by (auto simp: ns_ok_def lift_avail_def ns_rx_num_avail_def and_one_zero)
next
  show "\<exists>n s1 s2. rx_num_avail NS16550A b bus s = (n, s1) \<and> n \<noteq> 0 \<and> readchar NS16550A b bus s1 = Some (c, s2) \<and> ns_ok b reg s2 \<and>
      sent (snd s2) = sent (snd s) \<and> fifo (snd s2) = cs"
    if ok: "ns_ok b reg s" "fifo (snd s) = c # cs" for s c cs
  proof -
    obtain x d1 where d1: "rd8 bus (b_UART_BASE b + NS_LSR) (snd s) = (x, d1)" "bit x 0" "reg d1 = reg (snd s)"
        "fifo d1 = c # cs" "sent d1 = sent (snd s)"
      using ns_lsr [of "snd s"] ok(2) by auto
    with ns_rbr [of d1 c cs] ok show ?thesis
      by (auto simp: ns_ok_def lift_avail_def lift_read_def ns_rx_num_avail_def ns_readchar_def and_one_zero)
  qed
qed

subsection \<open>DesignWare APB\<close>

locale dw_chip = uart_hw b legal bus reg fifo sent busy "{UART0 b + DW_IER}"
  for b :: board and legal and bus :: "'d bus" and reg fifo sent busy +
  assumes dw_lsr: "\<exists>v d'. rd32 bus (UART0 b + DW_LSR) d = (v, d') \<and> (bit v 5 \<longleftrightarrow> busy d = 0) \<and> busy d' = busy d - 1 \<and>
      reg d' = reg d \<and> fifo d' = fifo d \<and> sent d' = sent d"
    and dw_rfl: "\<exists>d'. rd32 bus (UART0 b + DW_RFL) d = (of_nat (length (fifo d)), d') \<and> reg d' = reg d \<and> fifo d' = fifo d \<and> sent d' = sent d"
    and dw_depth: "length (fifo d) \<le> 256"
    and dw_thr: "\<not> bit (reg d (UART0 b + DW_LCR)) 7 \<Longrightarrow> busy d = 0 \<Longrightarrow>
      reg (wr32 bus (UART0 b + DW_THR) v d) = reg d \<and> fifo (wr32 bus (UART0 b + DW_THR) v d) = fifo d \<and>
      sent (wr32 bus (UART0 b + DW_THR) v d) = sent d @ [char_of (unat v)]"
    and dw_rbr: "\<not> bit (reg d (UART0 b + DW_LCR)) 7 \<Longrightarrow> fifo d = c # cs \<Longrightarrow>
      \<exists>v d'. rd32 bus (UART0 b + DW_RBR) d = (v, d') \<and> char_of (unat v) = c \<and> fifo d' = cs \<and> reg d' = reg d \<and> sent d' = sent d"
    and dw_fcr: "reg (wr32 bus (UART0 b + DW_FCR) v d) = reg d \<and> sent (wr32 bus (UART0 b + DW_FCR) v d) = sent d \<and>
      fifo (wr32 bus (UART0 b + DW_FCR) v d) = (if bit v 1 then [] else fifo d)"

definition dw_ok :: "board \<Rightarrow> ('d \<Rightarrow> addr \<Rightarrow> u32) \<Rightarrow> 'd ustate \<Rightarrow> bool" where
  "dw_ok b reg s \<longleftrightarrow> \<not> bit (reg (snd s) (UART0 b + DW_LCR)) 7"

sublocale dw_chip \<subseteq> dw: uart_port "writechar DW_APB b bus" "rx_num_avail DW_APB b bus" "readchar DW_APB b bus"
    "\<lambda>s. fifo (snd s)" "\<lambda>s. sent (snd s)" "dw_ok b reg"
proof
  show "\<exists>s'. writechar DW_APB b bus c s = Some s' \<and> dw_ok b reg s' \<and> sent (snd s') = sent (snd s) @ [c] \<and> fifo (snd s') = fifo (snd s)"
    if ok: "dw_ok b reg s" for s c
  proof -
    obtain v d' where d': "spin (rd32 bus (UART0 b + DW_LSR)) (\<lambda>v. v AND LSR_TX_IDLE \<noteq> 0) (snd s) = Some (v, d')"
        "busy d' = 0" "reg d' = reg (snd s)" "fifo d' = fifo (snd s)" "sent d' = sent (snd s)"
      using spin_ends [of "rd32 bus (UART0 b + DW_LSR)" "\<lambda>v. v AND LSR_TX_IDLE \<noteq> 0" "snd s"] dw_lsr
      unfolding LSR_TX_IDLE_def and_bit_iff by blast
    with dw_thr [of d' "of_char c"] ok show ?thesis by (simp add: dw_ok_def lift_state_def dw_writechar_def)
  qed
next
  show "\<exists>s'. rx_num_avail DW_APB b bus s = (0, s') \<and> dw_ok b reg s' \<and> sent (snd s') = sent (snd s) \<and> fifo (snd s') = []"
    if "dw_ok b reg s" "fifo (snd s) = []" for s
    using dw_rfl [of "snd s"] that by (auto simp: dw_ok_def lift_avail_def dw_rx_num_avail_def)
next
  show "\<exists>n s1 s2. rx_num_avail DW_APB b bus s = (n, s1) \<and> n \<noteq> 0 \<and> readchar DW_APB b bus s1 = Some (c, s2) \<and> dw_ok b reg s2 \<and>
      sent (snd s2) = sent (snd s) \<and> fifo (snd s2) = cs"
    if ok: "dw_ok b reg s" "fifo (snd s) = c # cs" for s c cs
  proof -
    obtain d1 where d1: "rd32 bus (UART0 b + DW_RFL) (snd s) = (of_nat (length (fifo (snd s))), d1)" "reg d1 = reg (snd s)"
        "fifo d1 = c # cs" "sent d1 = sent (snd s)"
      using dw_rfl [of "snd s"] ok(2) by auto
    have "of_nat (length (fifo (snd s))) \<noteq> (0 :: u32)"
      using dw_depth [of "snd s"] ok(2) by (intro of_nat_pos32) simp_all
    with d1 dw_rbr [of d1 c cs] ok show ?thesis
      by (auto simp: dw_ok_def lift_avail_def lift_read_def dw_rx_num_avail_def dw_readchar_def sint_eq_0)
  qed
qed

subsection \<open>BL808\<close>

text \<open>
  One register holds the room in the transmit FIFO and the level of the receive
  FIFO. The transmitter and the receiver have to be enabled.
\<close>

definition ox_ctrl :: "board \<Rightarrow> addr set" where
  "ox_ctrl b = {b_UART_BASE b + BL808_UART_REG_INT_MASK, b_UART_BASE b + BL808_UART_REG_INT_EN,
     b_UART_BASE b + BL808_UART_REG_UTX_CONFIG, b_UART_BASE b + BL808_UART_REG_URX_CONFIG}"

locale ox_chip = uart_hw b legal bus reg fifo sent busy "ox_ctrl b"
  for b :: board and legal and bus :: "'d bus" and reg fifo sent busy +
  assumes ox_read: "a \<in> ox_ctrl b \<Longrightarrow> rd32 bus a d = (reg d a, d)"
    and ox_enable: "bit (legal (b_UART_BASE b + BL808_UART_REG_UTX_CONFIG) v) 0 = bit v 0"
      "bit (legal (b_UART_BASE b + BL808_UART_REG_URX_CONFIG) v) 0 = bit v 0"
    and ox_level: "\<exists>v d'. rd32 bus (b_UART_BASE b + BL808_UART_FIFO_CONFIG_1) d = (v, d') \<and>
      (v AND BL808_UART_TX_FIFO_CNT_MSK \<noteq> 0 \<longleftrightarrow> busy d = 0) \<and>
      drop_bit 8 (v AND BL808_UART_RX_FIFO_CNT_MSK) = of_nat (length (fifo d)) \<and>
      busy d' = busy d - 1 \<and> reg d' = reg d \<and> fifo d' = fifo d \<and> sent d' = sent d"
    and ox_depth: "length (fifo d) \<le> 32"
    and ox_config: "reg (wr32 bus (b_UART_BASE b + BL808_UART_FIFO_CONFIG_1) v d) = reg d \<and>
      fifo (wr32 bus (b_UART_BASE b + BL808_UART_FIFO_CONFIG_1) v d) = fifo d \<and>
      sent (wr32 bus (b_UART_BASE b + BL808_UART_FIFO_CONFIG_1) v d) = sent d"
    and ox_status: "\<exists>v d'. rd32 bus (b_UART_BASE b + BL808_UART_REG_STATUS) d = (v, d') \<and>
      (v AND BL808_UART_STATUS_TX_BUSY_MASK = 0 \<longleftrightarrow> busy d = 0) \<and>
      busy d' = busy d - 1 \<and> reg d' = reg d \<and> fifo d' = fifo d \<and> sent d' = sent d"
    and ox_tx: "bit (reg d (b_UART_BASE b + BL808_UART_REG_UTX_CONFIG)) 0 \<Longrightarrow> busy d = 0 \<Longrightarrow>
      reg (wr32 bus (b_UART_BASE b + BL808_UART_REG_TXFIFO) v d) = reg d \<and>
      fifo (wr32 bus (b_UART_BASE b + BL808_UART_REG_TXFIFO) v d) = fifo d \<and>
      sent (wr32 bus (b_UART_BASE b + BL808_UART_REG_TXFIFO) v d) = sent d @ [char_of (unat v)]"
    and ox_rx: "bit (reg d (b_UART_BASE b + BL808_UART_REG_URX_CONFIG)) 0 \<Longrightarrow> fifo d = c # cs \<Longrightarrow>
      \<exists>v d'. rd32 bus (b_UART_BASE b + BL808_UART_REG_RXFIFO) d = (v, d') \<and> v AND 0xff = of_char c \<and>
        fifo d' = cs \<and> reg d' = reg d \<and> sent d' = sent d"

definition ox_ok :: "board \<Rightarrow> ('d \<Rightarrow> addr \<Rightarrow> u32) \<Rightarrow> 'd ustate \<Rightarrow> bool" where
  "ox_ok b reg s \<longleftrightarrow> bit (reg (snd s) (b_UART_BASE b + BL808_UART_REG_UTX_CONFIG)) 0 \<and>
     bit (reg (snd s) (b_UART_BASE b + BL808_UART_REG_URX_CONFIG)) 0"

sublocale ox_chip \<subseteq> ox: uart_port "writechar BL808 b bus" "rx_num_avail BL808 b bus" "readchar BL808 b bus"
    "\<lambda>s. fifo (snd s)" "\<lambda>s. sent (snd s)" "ox_ok b reg"
proof
  show "\<exists>s'. writechar BL808 b bus c s = Some s' \<and> ox_ok b reg s' \<and> sent (snd s') = sent (snd s) @ [c] \<and> fifo (snd s') = fifo (snd s)"
    if ok: "ox_ok b reg s" for s c
  proof -
    obtain v d' where d': "spin (rd32 bus (b_UART_BASE b + BL808_UART_FIFO_CONFIG_1)) (\<lambda>v. v AND BL808_UART_TX_FIFO_CNT_MSK \<noteq> 0) (snd s) = Some (v, d')"
        "busy d' = 0" "reg d' = reg (snd s)" "fifo d' = fifo (snd s)" "sent d' = sent (snd s)"
      using spin_ends [of "rd32 bus (b_UART_BASE b + BL808_UART_FIFO_CONFIG_1)" "\<lambda>v. v AND BL808_UART_TX_FIFO_CNT_MSK \<noteq> 0" "snd s"] ox_level
      by blast
    with ox_tx [of d' "of_char c"] ok show ?thesis by (simp add: ox_ok_def lift_state_def ox_writechar_def)
  qed
next
  show "\<exists>s'. rx_num_avail BL808 b bus s = (0, s') \<and> ox_ok b reg s' \<and> sent (snd s') = sent (snd s) \<and> fifo (snd s') = []"
    if "ox_ok b reg s" "fifo (snd s) = []" for s
    using ox_level [of "snd s"] that by (auto simp: ox_ok_def lift_avail_def ox_rx_num_avail_def)
next
  show "\<exists>n s1 s2. rx_num_avail BL808 b bus s = (n, s1) \<and> n \<noteq> 0 \<and> readchar BL808 b bus s1 = Some (c, s2) \<and> ox_ok b reg s2 \<and>
      sent (snd s2) = sent (snd s) \<and> fifo (snd s2) = cs"
    if ok: "ox_ok b reg s" "fifo (snd s) = c # cs" for s c cs
  proof -
    have level: "\<exists>v d'. rd32 bus (b_UART_BASE b + BL808_UART_FIFO_CONFIG_1) d = (v, d') \<and>
        sint (drop_bit 8 (v AND BL808_UART_RX_FIFO_CNT_MSK)) \<noteq> 0 \<and> reg d' = reg d \<and> fifo d' = fifo d \<and> sent d' = sent d"
      if "fifo d = c # cs" for d
      using ox_level [of d] ox_depth [of d] of_nat_pos32 [of "length (fifo d)"] that by (auto simp: sint_eq_0)
    obtain v d1 where d1: "rd32 bus (b_UART_BASE b + BL808_UART_FIFO_CONFIG_1) (snd s) = (v, d1)"
        "sint (drop_bit 8 (v AND BL808_UART_RX_FIFO_CNT_MSK)) \<noteq> 0" "reg d1 = reg (snd s)" "fifo d1 = c # cs" "sent d1 = sent (snd s)"
      using level [OF ok(2)] ok(2) by auto
    obtain v' d2 where d2: "rd32 bus (b_UART_BASE b + BL808_UART_FIFO_CONFIG_1) d1 = (v', d2)"
        "sint (drop_bit 8 (v' AND BL808_UART_RX_FIFO_CNT_MSK)) \<noteq> 0" "reg d2 = reg (snd s)" "fifo d2 = c # cs" "sent d2 = sent (snd s)"
      using level [OF d1(4)] d1 by auto
    obtain x d3 where "rd32 bus (b_UART_BASE b + BL808_UART_REG_RXFIFO) d2 = (x, d3)" "x AND 0xff = of_char c"
        "fifo d3 = cs" "reg d3 = reg (snd s)" "sent d3 = sent (snd s)"
      using ox_rx [of d2 c cs] d2 ok(1) by (auto simp: ox_ok_def)
    with d1(1-2) d2(1-2) ok(1) show ?thesis
      by (simp add: ox_ok_def lift_avail_def lift_read_def ox_rx_num_avail_def ox_readchar_def spin.simps [of _ _ d1])
  qed
qed

context ox_chip
begin

lemma wait_status_ends:
  "\<exists>d'. ox_machine_wait_status b bus d = Some d' \<and> busy d' = 0 \<and> fifo d' = fifo d \<and> sent d' = sent d"
  using spin_ends [of "rd32 bus (b_UART_BASE b + BL808_UART_REG_STATUS)" "\<lambda>v. v AND BL808_UART_STATUS_TX_BUSY_MASK = 0" d] ox_status
  by (auto simp: ox_machine_wait_status_def)

end

subsection \<open>SiFive\<close>

text \<open>
  A read of the receive register takes a character or has bit 31 set. A read of
  the transmit register shows bit 31 while the FIFO is full, and zeros else.
\<close>

locale sf_chip = uart_hw b legal bus reg fifo sent busy
    "{b_UART_BASE b + UART_RXCTRL, b_UART_BASE b + UART_IE, b_UART_BASE b + UART_BAUD_RATE_DIVISOR}"
  for b :: board and legal and bus :: "'d bus" and reg fifo sent busy +
  assumes sf_full: "\<exists>d'. rd32 bus (b_UART_BASE b + UART_TXDATA) d = (if busy d = 0 then 0 else push_bit 31 1, d') \<and>
      busy d' = busy d - 1 \<and> reg d' = reg d \<and> fifo d' = fifo d \<and> sent d' = sent d"
    and sf_tx: "busy d = 0 \<Longrightarrow> reg (wr32 bus (b_UART_BASE b + UART_TXDATA) v d) = reg d \<and>
      fifo (wr32 bus (b_UART_BASE b + UART_TXDATA) v d) = fifo d \<and>
      sent (wr32 bus (b_UART_BASE b + UART_TXDATA) v d) = sent d @ [char_of (unat v)]"
    and sf_empty: "fifo d = [] \<Longrightarrow> \<exists>v d'. rd32 bus (b_UART_BASE b + UART_RXDATA) d = (v, d') \<and> bit v 31 \<and>
      reg d' = reg d \<and> fifo d' = [] \<and> sent d' = sent d"
    and sf_rx: "fifo d = c # cs \<Longrightarrow> \<exists>d'. rd32 bus (b_UART_BASE b + UART_RXDATA) d = (of_char c, d') \<and>
      reg d' = reg d \<and> fifo d' = cs \<and> sent d' = sent d"

text \<open>Nothing is held back in \<open>last_rx_peek\<close>, and the zero character does not occur.\<close>

definition sf_ok :: "('d \<Rightarrow> string) \<Rightarrow> 'd ustate \<Rightarrow> bool" where
  "sf_ok fifo s \<longleftrightarrow> sint (fst s) \<le> 0 \<and> NUL \<notin> set (fifo (snd s))"

lemma sint_of_char: "sint (of_char c :: u32) = of_char c"
proof -
  have "(of_char c :: u32) = word_of_nat (of_char c)" by (simp add: of_nat_of_char)
  moreover have "sint (word_of_nat (of_char c) :: u32) = int (of_char c)"
    by (rule sint_of_nat32) (rule less_le_trans [OF of_char_less], simp)
  ultimately show ?thesis by (simp add: of_nat_of_char)
qed

lemma of_char_pos: "(0 :: int) < of_char c \<longleftrightarrow> c \<noteq> NUL"
proof -
  have "(of_char c :: int) = 0 \<longleftrightarrow> c = NUL"
    by (subst of_char_eq_iff [of c NUL, symmetric]) (simp add: NUL_def)
  moreover have "(0 :: int) \<le> of_char c" by (metis of_nat_of_char of_nat_0_le_iff)
  ultimately show ?thesis by linarith
qed

lemma sint_top: "bit (v :: u32) 31 \<Longrightarrow> sint v < 0"
  using bit_last_iff [of v] by simp

lemma low_byte: "(of_char c :: u32) AND 0xff = of_char c"
proof -
  have "(of_char c :: u32) AND 0xff = take_bit 8 (of_nat (of_char c))"
    by (simp add: take_bit_eq_mask mask_eq_exp_minus_1 of_nat_of_char)
  also have "\<dots> = of_nat (take_bit 8 (of_char c))" by (simp only: of_nat_take_bit)
  finally show ?thesis by (simp add: take_bit_eq_mod of_nat_of_char)
qed

sublocale sf_chip \<subseteq> sf: uart_port "writechar SIFIVE b bus" "rx_num_avail SIFIVE b bus" "readchar SIFIVE b bus"
    "\<lambda>s. fifo (snd s)" "\<lambda>s. sent (snd s)" "sf_ok fifo"
proof
  show "\<exists>s'. writechar SIFIVE b bus c s = Some s' \<and> sf_ok fifo s' \<and> sent (snd s') = sent (snd s) @ [c] \<and> fifo (snd s') = fifo (snd s)"
    if ok: "sf_ok fifo s" for s c
  proof -
    have poll: "\<exists>v d'. rd32 bus (b_UART_BASE b + UART_TXDATA) d = (v, d') \<and> (v = 0 \<longleftrightarrow> busy d = 0) \<and> busy d' = busy d - 1 \<and>
        reg d' = reg d \<and> fifo d' = fifo d \<and> sent d' = sent d" for d
      using sf_full [of d] by (auto split: if_splits)
    obtain v d' where d': "spin (rd32 bus (b_UART_BASE b + UART_TXDATA)) (\<lambda>v. v = 0) (snd s) = Some (v, d')"
        "busy d' = 0" "reg d' = reg (snd s)" "fifo d' = fifo (snd s)" "sent d' = sent (snd s)"
      using spin_ends [of "rd32 bus (b_UART_BASE b + UART_TXDATA)" "\<lambda>v. v = 0" "snd s"] poll by blast
    with sf_tx [of d' "of_char c"] ok show ?thesis by (simp add: sf_ok_def sf_writechar_def)
  qed
next
  show "\<exists>s'. rx_num_avail SIFIVE b bus s = (0, s') \<and> sf_ok fifo s' \<and> sent (snd s') = sent (snd s) \<and> fifo (snd s') = []"
    if "sf_ok fifo s" "fifo (snd s) = []" for s
    using sf_empty [OF that(2)] that by (auto simp: sf_ok_def sf_rx_num_avail_def dest!: sint_top)
next
  show "\<exists>n s1 s2. rx_num_avail SIFIVE b bus s = (n, s1) \<and> n \<noteq> 0 \<and> readchar SIFIVE b bus s1 = Some (c, s2) \<and> sf_ok fifo s2 \<and>
      sent (snd s2) = sent (snd s) \<and> fifo (snd s2) = cs"
    if ok: "sf_ok fifo s" "fifo (snd s) = c # cs" for s c cs
  proof -
    obtain d' where d': "rd32 bus (b_UART_BASE b + UART_RXDATA) (snd s) = (of_char c, d')" "fifo d' = cs" "sent d' = sent (snd s)"
      using sf_rx [OF ok(2)] by blast
    have pos: "(0 :: int) < of_char c" using ok by (auto simp: sf_ok_def of_char_pos)
    have "rx_num_avail SIFIVE b bus s = (1, (of_char c, d'))"
      using d'(1) pos by (simp add: sf_rx_num_avail_def sint_of_char)
    moreover have "readchar SIFIVE b bus (of_char c, d') = Some (c, (0, d'))"
      using pos sint_of_char [of c] by (auto simp: sf_readchar_def low_byte)
    ultimately show ?thesis using ok d' by (auto simp: sf_ok_def)
  qed
qed

section \<open>Initialisation\<close>

text \<open>What \<open>uart_machine_init\<close> of the four drivers leaves in the interrupt controller.\<close>

definition enable_word :: "board \<Rightarrow> addr" where
  "enable_word b = plic_enable b + 4 * of_nat (unat (b_UART0_IRQ_NUM b) div 32)"

definition plic_set_up :: "(addr \<Rightarrow> u32 \<Rightarrow> u32) \<Rightarrow> board \<Rightarrow> (addr \<Rightarrow> u32) \<Rightarrow> addr \<Rightarrow> u32" where
  "plic_set_up legal b r =
     r(plic_priority b + 4 * of_nat (unat (b_UART0_IRQ_NUM b)) := b_PLIC_MAX_PRIORITY b,
       plic_threshold b := b_PLIC_MAX_PRIORITY b - 1,
       enable_word b := legal (enable_word b) (push_bit (unat (b_UART0_IRQ_NUM b) mod 32) 1))"

lemma builds_irq:
  assumes "(kind, b) \<in> set builds"
  shows "0 < unat (b_UART0_IRQ_NUM b)" "unat (b_UART0_IRQ_NUM b) < b_PLIC_NUM_INTR_SOURCES b"
    "scast (b_UART0_IRQ_NUM b) = (of_nat (unat (b_UART0_IRQ_NUM b)) :: addr)" "b_PLIC_MAX_PRIORITY b - 1 \<le> b_PLIC_MAX_PRIORITY b"
    "sint (b_UART0_IRQ_NUM b) \<ge> 32 \<longleftrightarrow> unat (b_UART0_IRQ_NUM b) = 32" "unat (b_UART0_IRQ_NUM b) \<le> 32"
  using assms by (auto simp: builds_def board_defs)

lemma builds_apart:
  assumes "(kind, b) \<in> set builds"
  shows "plic_priority b + 4 * of_nat (unat (b_UART0_IRQ_NUM b)) \<noteq> plic_threshold b"
    "plic_priority b + 4 * of_nat (unat (b_UART0_IRQ_NUM b)) \<noteq> enable_word b" "plic_threshold b \<noteq> enable_word b"
  using assms by (auto simp: builds_def board_defs enable_word_def plic_ops)

context uart_hw
begin

lemma plic_writes:
  assumes "(kind, b) \<in> set builds"
  shows "reg (set_intr_priority b bus (b_UART0_IRQ_NUM b) (b_PLIC_MAX_PRIORITY b) d) =
      (reg d)(plic_priority b + 4 * of_nat (unat (b_UART0_IRQ_NUM b)) := b_PLIC_MAX_PRIORITY b)"
    "reg (set_threshold b bus (b_PLIC_MAX_PRIORITY b - 1) d) = (reg d)(plic_threshold b := b_PLIC_MAX_PRIORITY b - 1)"
    "reg (enable_intr b bus (b_UART0_IRQ_NUM b) d) =
      (reg d)(enable_word b := legal (enable_word b) (push_bit (unat (b_UART0_IRQ_NUM b) mod 32) 1))"
proof -
  let ?irq = "unat (b_UART0_IRQ_NUM b)"
  note irq = builds_irq [OF assms]
  have m: "plic_priority b + 4 * of_nat ?irq \<in> plic_addrs b" "plic_threshold b \<in> plic_addrs b" "enable_word b \<in> plic_addrs b"
    using irq(2) by (auto simp: plic_addrs_def enable_word_def)
  show "reg (set_intr_priority b bus (b_UART0_IRQ_NUM b) (b_PLIC_MAX_PRIORITY b) d) =
      (reg d)(plic_priority b + 4 * of_nat ?irq := b_PLIC_MAX_PRIORITY b)"
    using m(1) irq(3) legal_priority [OF irq(1,2), of "b_PLIC_MAX_PRIORITY b"] by (simp add: set_intr_priority_def write_reg)
  show "reg (set_threshold b bus (b_PLIC_MAX_PRIORITY b - 1) d) = (reg d)(plic_threshold b := b_PLIC_MAX_PRIORITY b - 1)"
    using m(2) irq(4) by (simp add: set_threshold_def write_reg legal_threshold)
  have "enable_intr b bus (b_UART0_IRQ_NUM b) d = wr32 bus (enable_word b) (push_bit (?irq mod 32) 1) d"
    using assms by (auto simp: builds_def enable_intr_def enable_word_def board_defs shl1_def)
  then show "reg (enable_intr b bus (b_UART0_IRQ_NUM b) d) = (reg d)(enable_word b := legal (enable_word b) (push_bit (?irq mod 32) 1))"
    using m(3) by (simp add: write_reg)
qed

end

context ns_chip
begin

lemma ns_port: "uart_port (writechar NS16550A b bus) (rx_num_avail NS16550A b bus) (readchar NS16550A b bus)
    (\<lambda>s. fifo (snd s)) (\<lambda>s. sent (snd s)) (ns_ok b reg)"
  by unfold_locales

lemma ns_init_reg:
  assumes "(NS16550A, b) \<in> set builds"
  shows "reg (ns_machine_init b bus d) = plic_set_up legal b ((reg d)(
    b_UART_BASE b + NS_LCR := legal (b_UART_BASE b + NS_LCR) 3, b_UART_BASE b + NS_IER := legal (b_UART_BASE b + NS_IER) 1))"
  using ns_plain ns_fcr plic_writes [OF assms]
  by (simp add: ns_machine_init_def Let_def plic_set_up_def)

end

context dw_chip
begin

lemma dw_port: "uart_port (writechar DW_APB b bus) (rx_num_avail DW_APB b bus) (readchar DW_APB b bus)
    (\<lambda>s. fifo (snd s)) (\<lambda>s. sent (snd s)) (dw_ok b reg)"
  by unfold_locales

lemma dw_init_reg:
  assumes "(DW_APB, b) \<in> set builds"
  shows "reg (dw_machine_init b bus d) = plic_set_up legal b ((reg d)(UART0 b + DW_IER := legal (UART0 b + DW_IER) 1))"
  using dw_fcr plic_writes [OF assms] write_reg [of "UART0 b + DW_IER"]
  by (simp add: dw_machine_init_def Let_def plic_set_up_def)

end

text \<open>Two drivers enable the interrupt first; the registers are different ones.\<close>

lemma plic_set_up_order:
  assumes "(kind, b) \<in> set builds"
  shows "r(enable_word b := legal (enable_word b) (push_bit (unat (b_UART0_IRQ_NUM b) mod 32) 1),
      plic_priority b + 4 * of_nat (unat (b_UART0_IRQ_NUM b)) := b_PLIC_MAX_PRIORITY b,
      plic_threshold b := b_PLIC_MAX_PRIORITY b - 1) = plic_set_up legal b r"
  using builds_apart [OF assms] by (auto simp: plic_set_up_def fun_eq_iff)

context sf_chip
begin

lemma sf_port: "uart_port (writechar SIFIVE b bus) (rx_num_avail SIFIVE b bus) (readchar SIFIVE b bus)
    (\<lambda>s. fifo (snd s)) (\<lambda>s. sent (snd s)) (sf_ok fifo)"
  by unfold_locales

lemma sf_init_reg:
  assumes "(SIFIVE, b) \<in> set builds"
  shows "reg (snd (sf_machine_init b bus s)) = plic_set_up legal b ((reg (snd s))(
    b_UART_BASE b + UART_RXCTRL := legal (b_UART_BASE b + UART_RXCTRL) 1,
    b_UART_BASE b + UART_IE := legal (b_UART_BASE b + UART_IE) UART_IE_RXWM,
    b_UART_BASE b + UART_BAUD_RATE_DIVISOR := legal (b_UART_BASE b + UART_BAUD_RATE_DIVISOR) 138))"
  unfolding plic_set_up_order [OF assms, symmetric]
  using plic_writes [OF assms] write_reg [of "b_UART_BASE b + UART_RXCTRL"] write_reg [of "b_UART_BASE b + UART_IE"]
    write_reg [of "b_UART_BASE b + UART_BAUD_RATE_DIVISOR"]
  by (simp add: sf_machine_init_def Let_def)

end

context ox_chip
begin

lemma ox_port: "uart_port (writechar BL808 b bus) (rx_num_avail BL808 b bus) (readchar BL808 b bus)
    (\<lambda>s. fifo (snd s)) (\<lambda>s. sent (snd s)) (ox_ok b reg)"
  by unfold_locales

lemma modify_plain: "a \<in> ox_ctrl b \<Longrightarrow> reg (modify32 bus a f d) = (reg d)(a := legal a (f (reg d a)))"
  using ox_read [of a d] write_reg [of a] by (simp add: modify32_def)

lemma modify_config: "reg (modify32 bus (b_UART_BASE b + BL808_UART_FIFO_CONFIG_1) f d) = reg d"
  using ox_level [of d] ox_config by (auto simp: modify32_def)

lemma ox_init_reg:
  assumes "(BL808, b) \<in> set builds"
  shows "\<exists>m i. reg (ox_machine_init b bus d) = plic_set_up legal b ((reg d)(
    b_UART_BASE b + BL808_UART_REG_INT_EN := i, b_UART_BASE b + BL808_UART_REG_INT_MASK := m,
    b_UART_BASE b + BL808_UART_REG_UTX_CONFIG := legal (b_UART_BASE b + BL808_UART_REG_UTX_CONFIG)
      (reg d (b_UART_BASE b + BL808_UART_REG_UTX_CONFIG) OR (BL808_UART_ENABLE_FREERUN OR BL808_UART_TX_ENABLE)),
    b_UART_BASE b + BL808_UART_REG_URX_CONFIG := legal (b_UART_BASE b + BL808_UART_REG_URX_CONFIG)
      (reg d (b_UART_BASE b + BL808_UART_REG_URX_CONFIG) OR BL808_UART_RX_ENABLE)))"
proof -
  have m: "b_UART_BASE b + BL808_UART_REG_INT_MASK \<in> ox_ctrl b" "b_UART_BASE b + BL808_UART_REG_INT_EN \<in> ox_ctrl b"
    "b_UART_BASE b + BL808_UART_REG_UTX_CONFIG \<in> ox_ctrl b" "b_UART_BASE b + BL808_UART_REG_URX_CONFIG \<in> ox_ctrl b"
    by (simp_all add: ox_ctrl_def)
  have "r(a := x, e := y, a := z) = r(e := y, a := z)" for r :: "addr \<Rightarrow> u32" and a e x y z by (cases "a = e") (simp_all add: fun_upd_twist)
  then show ?thesis
    unfolding plic_set_up_order [OF assms, symmetric] ox_machine_init_def Let_def plic_writes [OF assms] modify_plain [OF m(1)]
      modify_plain [OF m(2)] modify_plain [OF m(3)] modify_plain [OF m(4)] modify_config write_reg [OF UnI2 [OF m(1)], THEN conjunct1]
    by auto
qed

end

section \<open>Every driver keeps the contract\<close>

definition chip :: "uart_kind \<Rightarrow> board \<Rightarrow> 'd bus \<Rightarrow> ('d \<Rightarrow> addr \<Rightarrow> u32) \<Rightarrow> ('d \<Rightarrow> string) \<Rightarrow> ('d \<Rightarrow> string) \<Rightarrow> ('d \<Rightarrow> nat) \<Rightarrow> bool" where
  "chip kind b bus reg fifo sent busy \<longleftrightarrow> (\<exists>legal. case kind of
       NS16550A \<Rightarrow> ns_chip b legal bus reg fifo sent
     | DW_APB \<Rightarrow> dw_chip b legal bus reg fifo sent busy
     | BL808 \<Rightarrow> ox_chip b legal bus reg fifo sent busy
     | SIFIVE \<Rightarrow> sf_chip b legal bus reg fifo sent busy)"

definition drv_ok :: "uart_kind \<Rightarrow> board \<Rightarrow> ('d \<Rightarrow> addr \<Rightarrow> u32) \<Rightarrow> ('d \<Rightarrow> string) \<Rightarrow> 'd ustate \<Rightarrow> bool" where
  "drv_ok kind b reg fifo = (case kind of NS16550A \<Rightarrow> ns_ok b reg | DW_APB \<Rightarrow> dw_ok b reg | BL808 \<Rightarrow> ox_ok b reg | SIFIVE \<Rightarrow> sf_ok fifo)"

lemma chip_port:
  assumes "chip kind b bus reg fifo sent busy"
  shows "uart_port (writechar kind b bus) (rx_num_avail kind b bus) (readchar kind b bus)
    (\<lambda>s. fifo (snd s)) (\<lambda>s. sent (snd s)) (drv_ok kind b reg fifo)"
  using assms ns_chip.ns_port dw_chip.dw_port ox_chip.ox_port sf_chip.sf_port
  by (cases kind) (auto simp: chip_def drv_ok_def)

text \<open>\<open>uart_prints\<close> sends its text and returns on every machine.\<close>

lemma console_prints_sends:
  assumes "chip kind b bus reg fifo sent busy" "drv_ok kind b reg fifo s"
  shows "\<exists>s'. console_prints kind b bus str s = Some s' \<and> sent (snd s') = sent (snd s) @ str \<and> fifo (snd s') = fifo (snd s)"
proof -
  obtain s1 where s1: "port_prints (writechar kind b bus) str s = Some s1" "sent (snd s1) = sent (snd s) @ str" "fifo (snd s1) = fifo (snd s)"
    using uart_port.prints_sends [OF chip_port [OF assms(1)] assms(2)] by blast
  have "\<exists>s'. machine_wait_status kind b bus s1 = Some s' \<and> sent (snd s') = sent (snd s1) \<and> fifo (snd s') = fifo (snd s1)"
    using ox_chip.wait_status_ends [of b _ bus reg fifo sent busy "snd s1"] assms(1)
    by (cases kind) (auto simp: chip_def lift_state_def)
  with s1 show ?thesis by (auto simp: console_prints_def)
qed

text \<open>
  A port that has been initialised is usable; \<^verbatim>\<open>uart-dw-apb.c\<close> relies on the boot
  loader for the line control register.
\<close>

lemma init_ok:
  assumes "chip kind b bus reg fifo sent busy" "(kind, b) \<in> set builds"
    "fst s = fst (machine_init kind b bus start)" "reg (snd s) = reg (snd (machine_init kind b bus start))"
    "kind = DW_APB \<longrightarrow> \<not> bit (reg (snd start) (UART0 b + DW_LCR)) 7" "kind = SIFIVE \<longrightarrow> NUL \<notin> set (fifo (snd s))"
  shows "drv_ok kind b reg fifo s"
proof (cases kind)
  case NS16550A
  then obtain legal where c: "ns_chip b legal bus reg fifo sent" using assms(1) by (auto simp: chip_def)
  have "reg (snd s) (b_UART_BASE b + NS_LCR) = legal (b_UART_BASE b + NS_LCR) 3"
    unfolding assms(4) machine_init.simps NS16550A snd_conv ns_chip.ns_init_reg [OF c assms(2) [unfolded NS16550A]]
    using assms(2) by (simp add: NS16550A builds_def plic_set_up_def enable_word_def plic_ops qemu_virt_def)
  then show ?thesis
    using ns_chip.ns_lcr [OF c, of 3] by (simp add: NS16550A drv_ok_def ns_ok_def bit_numeral_rec)
next
  case DW_APB
  then obtain legal where c: "dw_chip b legal bus reg fifo sent busy" using assms(1) by (auto simp: chip_def)
  have "reg (snd s) (UART0 b + DW_LCR) = reg (snd start) (UART0 b + DW_LCR)"
    unfolding assms(4) machine_init.simps DW_APB snd_conv dw_chip.dw_init_reg [OF c assms(2) [unfolded DW_APB]]
    using assms(2) by (auto simp: DW_APB builds_def plic_set_up_def enable_word_def plic_ops UART0_def d1_def star64_def)
  then show ?thesis using assms(5) by (simp add: DW_APB drv_ok_def dw_ok_def)
next
  case BL808
  then obtain legal where c: "ox_chip b legal bus reg fifo sent busy" using assms(1) by (auto simp: chip_def)
  let ?tx = "b_UART_BASE b + BL808_UART_REG_UTX_CONFIG" and ?rx = "b_UART_BASE b + BL808_UART_REG_URX_CONFIG"
  have "reg (snd s) ?tx = legal ?tx (reg (snd start) ?tx OR (BL808_UART_ENABLE_FREERUN OR BL808_UART_TX_ENABLE))"
    "reg (snd s) ?rx = legal ?rx (reg (snd start) ?rx OR BL808_UART_RX_ENABLE)"
    unfolding assms(4) machine_init.simps BL808 snd_conv using ox_chip.ox_init_reg [OF c assms(2) [unfolded BL808], of "snd start"] assms(2)
    by (auto simp: BL808 builds_def plic_set_up_def enable_word_def plic_ops ox64_def)
  then show ?thesis
    using ox_chip.ox_enable [OF c]
    by (simp add: BL808 drv_ok_def ox_ok_def bit_or_iff BL808_UART_TX_ENABLE_def BL808_UART_RX_ENABLE_def)
next
  case SIFIVE
  then show ?thesis using assms(3,6) by (simp add: drv_ok_def sf_ok_def sf_machine_init_def Let_def)
qed

section \<open>Addresses of the interrupt controller\<close>

lemma unat_plus_4: "unat w + 4 * i < 2 ^ 64 \<Longrightarrow> unat (w + 4 * of_nat i :: addr) = unat w + 4 * i"
proof -
  assume a: "unat w + 4 * i < 2 ^ 64"
  have "w + 4 * of_nat i = (of_nat (unat w + 4 * i) :: addr)" by simp
  then show ?thesis using a by (metis unat_of_nat64)
qed

lemma priority_far:
  assumes "i < 256" "unat w + 1024 \<le> unat v \<or> unat v < unat w" "unat w + 1024 < 2 ^ 64"
  shows "w + 4 * of_nat i \<noteq> (v :: addr)"
  using assms unat_plus_4 [of w i] by auto

lemma priority_eq:
  assumes "i < 256" "j < 256" "unat w + 1024 < 2 ^ 64"
  shows "w + 4 * of_nat i = w + 4 * (of_nat j :: addr) \<longleftrightarrow> i = j"
proof
  assume "w + 4 * of_nat i = w + 4 * (of_nat j :: addr)"
  moreover have "unat w + 4 * i < 2 ^ 64" "unat w + 4 * j < 2 ^ 64" using assms by linarith+
  ultimately have "unat w + 4 * i = unat w + 4 * j" by (metis unat_plus_4)
  then show "i = j" by simp
qed simp

lemma scast_of_nat: "i < 256 \<Longrightarrow> scast (of_nat i :: u32) = (of_nat i :: addr)"
  by (simp add: scast_eq sint_of_nat32)

lemma builds_cases:
  assumes "(kind, b) \<in> set builds"
  obtains "kind = NS16550A" "b = qemu_virt" | "kind = DW_APB" "b = d1 \<or> b = star64" | "kind = BL808" "b = ox64"
  | xlen where "kind = SIFIVE" "b = hifive1_revb \<or> b = qemu_e \<or> b = qemu_u xlen"
  using assms by (auto simp: builds_def)

text \<open>The registers that set the priorities are apart from all others that are written.\<close>

lemma sources_le: "(kind, b) \<in> set builds \<Longrightarrow> b_PLIC_NUM_INTR_SOURCES b \<le> 256"
  by (auto simp: builds_def board_defs)

lemma priority_apart:
  assumes "(kind, b) \<in> set builds" "i < 256"
  shows "plic_priority b + 4 * of_nat i \<noteq> plic_threshold b" "plic_priority b + 4 * of_nat i \<noteq> plic_enable b"
    "plic_priority b + 4 * of_nat i \<noteq> plic_enable b + 4" "off < 256 \<Longrightarrow> plic_priority b + 4 * of_nat i \<noteq> b_UART_BASE b + off"
proof -
  have "unat (b_UART_BASE b) < 2 ^ 32" using assms(1) by (auto simp: builds_def board_defs)
  then have off: "unat (b_UART_BASE b + off) = unat (b_UART_BASE b) + unat off" if "off < 256"
    using that by (intro unat_add_lem [THEN iffD1]) (simp add: word_less_nat_alt)
  show "plic_priority b + 4 * of_nat i \<noteq> plic_threshold b" "plic_priority b + 4 * of_nat i \<noteq> plic_enable b"
    "plic_priority b + 4 * of_nat i \<noteq> plic_enable b + 4"
    using assms(1) by (intro priority_far [OF assms(2)]; auto simp: builds_def board_defs plic_ops)+
  show "off < 256 \<Longrightarrow> plic_priority b + 4 * of_nat i \<noteq> b_UART_BASE b + off"
    using assms(1) off by (intro priority_far [OF assms(2)]) (auto simp: builds_def board_defs plic_ops word_less_nat_alt)
qed

lemma plic_apart:
  assumes "(kind, b) \<in> set builds" "a \<in> plic_addrs b" "off < 256"
  shows "a \<noteq> b_UART_BASE b + off"
proof -
  have "unat (b_UART_BASE b) < 2 ^ 32" using assms(1) by (auto simp: builds_def board_defs)
  then have off: "unat (b_UART_BASE b + off) = unat (b_UART_BASE b) + unat off"
    using assms(3) by (intro unat_add_lem [THEN iffD1]) (simp add: word_less_nat_alt)
  have en: "plic_enable b + 4 * of_nat i \<noteq> b_UART_BASE b + off" if "i < 256" for i
    using assms(1,3) off by (intro priority_far [OF that]) (auto simp: builds_def board_defs plic_ops word_less_nat_alt)
  have thr: "plic_threshold b \<noteq> b_UART_BASE b + off"
    using assms(1,3) off by (auto simp: builds_def board_defs plic_ops word_less_nat_alt dest!: arg_cong [where f = unat])
  have n: "i div 32 < 256" "i < 256" if "i < b_PLIC_NUM_INTR_SOURCES b" for i using sources_le [OF assms(1)] that by auto
  from assms(2) consider i where "a = plic_priority b + 4 * of_nat i" "i < b_PLIC_NUM_INTR_SOURCES b"
    | i where "a = plic_enable b + 4 * of_nat (i div 32)" "i < b_PLIC_NUM_INTR_SOURCES b" | "a = plic_threshold b"
    by (auto simp: plic_addrs_def)
  then show ?thesis
  proof cases
    case (1 i)
    then show ?thesis using priority_apart(4) [OF assms(1) n(2) [OF 1(2)] assms(3)] by metis
  next
    case (2 j)
    then show ?thesis using en [OF n(1) [OF 2(2)]] by metis
  next
    case 3
    then show ?thesis using thr by simp
  qed
qed

section \<open>Devices that behave as assumed\<close>

text \<open>
  A port with registers, a receive FIFO of 32 characters (more are lost), a
  record of what it sent, and a counter of the polls until it is ready again.
\<close>

record udev =
  v_reg :: "addr \<Rightarrow> u32"
  v_rx :: string
  v_sent :: string
  v_busy :: nat

definition v_fifo :: "udev \<Rightarrow> string" where
  "v_fifo d = take 32 (v_rx d)"

definition v_poll :: "u32 \<Rightarrow> u32 \<Rightarrow> udev \<Rightarrow> u32 \<times> udev" where
  "v_poll idle_val busy_val d = (if v_busy d = 0 then idle_val else busy_val, d\<lparr>v_busy := v_busy d - 1\<rparr>)"

definition v_pop :: "u32 \<Rightarrow> udev \<Rightarrow> u32 \<times> udev" where
  "v_pop none d = (case v_fifo d of [] \<Rightarrow> (none, d) | c # cs \<Rightarrow> (of_char c, d\<lparr>v_rx := cs\<rparr>))"

definition v_send :: "u32 \<Rightarrow> udev \<Rightarrow> udev" where
  "v_send v d = d\<lparr>v_sent := v_sent d @ [char_of (unat v)], v_busy := 3\<rparr>"

definition v_put :: "addr \<Rightarrow> u32 \<Rightarrow> udev \<Rightarrow> udev" where
  "v_put a v d = d\<lparr>v_reg := (v_reg d)(a := v)\<rparr>"

definition v_reset :: "u32 \<Rightarrow> udev \<Rightarrow> udev" where
  "v_reset v d = (if bit v 1 then d\<lparr>v_rx := []\<rparr> else d)"

fun v_rd :: "uart_kind \<Rightarrow> board \<Rightarrow> addr \<Rightarrow> udev \<Rightarrow> u32 \<times> udev" where
  "v_rd NS16550A b a d =
     (if a = b_UART_BASE b + NS_LSR then (if v_fifo d = [] then 0x60 else 0x61, d)
      else if a = b_UART_BASE b + NS_RBR then v_pop 0 d else (v_reg d a, d))"
| "v_rd DW_APB b a d =
     (if a = UART0 b + DW_LSR then v_poll 0x20 0 d
      else if a = UART0 b + DW_RFL then (of_nat (length (v_fifo d)), d)
      else if a = UART0 b + DW_RBR then v_pop 0 d else (v_reg d a, d))"
| "v_rd BL808 b a d =
     (if a = b_UART_BASE b + BL808_UART_FIFO_CONFIG_1 then
        v_poll (push_bit 8 (of_nat (length (v_fifo d))) OR 1) (push_bit 8 (of_nat (length (v_fifo d)))) d
      else if a = b_UART_BASE b + BL808_UART_REG_STATUS then v_poll 0 1 d
      else if a = b_UART_BASE b + BL808_UART_REG_RXFIFO then v_pop 0 d else (v_reg d a, d))"
| "v_rd SIFIVE b a d =
     (if a = b_UART_BASE b + UART_TXDATA then v_poll 0 (push_bit 31 1) d
      else if a = b_UART_BASE b + UART_RXDATA then v_pop (push_bit 31 1) d else (v_reg d a, d))"

fun v_wr :: "uart_kind \<Rightarrow> board \<Rightarrow> addr \<Rightarrow> u32 \<Rightarrow> udev \<Rightarrow> udev" where
  "v_wr NS16550A b a v d =
     (if a = b_UART_BASE b + NS_THR then v_send v d else if a = b_UART_BASE b + NS_FCR then v_reset v d else v_put a v d)"
| "v_wr DW_APB b a v d =
     (if a = UART0 b + DW_THR then v_send v d else if a = UART0 b + DW_FCR then v_reset v d else v_put a v d)"
| "v_wr BL808 b a v d =
     (if a = b_UART_BASE b + BL808_UART_REG_TXFIFO then v_send v d
      else if a = b_UART_BASE b + BL808_UART_FIFO_CONFIG_1 then d else v_put a v d)"
| "v_wr SIFIVE b a v d = (if a = b_UART_BASE b + UART_TXDATA then v_send v d else v_put a v d)"

definition v_bus :: "uart_kind \<Rightarrow> board \<Rightarrow> udev bus" where
  "v_bus kind b = \<lparr>rd32 = v_rd kind b, wr32 = v_wr kind b,
     rd8 = (\<lambda>a d. case v_rd kind b a d of (v, d) \<Rightarrow> (ucast v, d)), wr8 = (\<lambda>a v. v_wr kind b a (ucast v))\<rparr>"

lemmas v_defs = v_bus_def v_poll_def v_send_def v_put_def v_reset_def

lemma v_fifo_upd [simp]: "v_fifo (d\<lparr>v_reg := r\<rparr>) = v_fifo d" "v_fifo (d\<lparr>v_sent := x\<rparr>) = v_fifo d" "v_fifo (d\<lparr>v_busy := n\<rparr>) = v_fifo d"
  "v_fifo (d\<lparr>v_rx := []\<rparr>) = []"
  by (simp_all add: v_fifo_def)

lemma v_pop_fifo: "v_fifo d = c # cs \<Longrightarrow> v_pop e d = (of_char c, d\<lparr>v_rx := cs\<rparr>) \<and> v_fifo (d\<lparr>v_rx := cs\<rparr>) = cs"
  using length_take [of 32 "v_rx d"] by (auto simp: v_pop_def v_fifo_def simp del: length_take)

lemma v_level: "length (v_fifo d) \<le> 32"
  by (simp add: v_fifo_def)

lemma ucast_byte: "unat (ucast (x :: byte) :: u32) = unat x" "char_of (unat (ucast (v :: u32) :: byte)) = char_of (unat v)"
  using unsigned_less [of x, where ?'a = nat] by (simp_all add: unsigned_ucast_eq take_bit_eq_mod)

lemma v_hw:
  assumes "(kind, b) \<in> set builds" "\<And>a v d. a \<in> ctrl \<Longrightarrow> v_wr kind b a v d = v_put a v d"
  shows "uart_hw b (\<lambda>_ v. v) (v_bus kind b) v_reg v_fifo v_sent ctrl"
proof -
  have "v_wr kind b a v d = v_put a v d" if "a \<in> plic_addrs b" for a v d
    using plic_apart [OF assms(1) that] plic_apart [OF assms(1) that, of 0] by (cases kind) (auto simp: UART0_def)
  then show ?thesis using assms(2) by unfold_locales (auto simp: v_bus_def v_put_def)
qed

interpretation virt_dev: ns_chip qemu_virt "\<lambda>_ v. v" "v_bus NS16550A qemu_virt" v_reg v_fifo v_sent v_busy
  by (intro ns_chip.intro v_hw ns_chip_axioms.intro) (auto simp: builds_def v_defs v_pop_fifo qemu_virt_def bit_simps ucast_byte split: prod.split)

interpretation d1_dev: dw_chip d1 "\<lambda>_ v. v" "v_bus DW_APB d1" v_reg v_fifo v_sent v_busy
  by (intro dw_chip.intro v_hw dw_chip_axioms.intro) (auto simp: builds_def v_defs v_pop_fifo d1_def UART0_def bit_simps le_trans [OF v_level] split: if_splits)

interpretation star64_dev: dw_chip star64 "\<lambda>_ v. v" "v_bus DW_APB star64" v_reg v_fifo v_sent v_busy
  by (intro dw_chip.intro v_hw dw_chip_axioms.intro) (auto simp: builds_def v_defs v_pop_fifo star64_def UART0_def bit_simps le_trans [OF v_level] split: if_splits)

lemma v_counts:
  assumes "n \<le> 32"
  shows "(push_bit 8 (of_nat n) OR 1) AND BL808_UART_TX_FIFO_CNT_MSK \<noteq> 0" "push_bit 8 (of_nat n) AND BL808_UART_TX_FIFO_CNT_MSK = 0"
    "drop_bit 8 (push_bit 8 (of_nat n)) AND drop_bit 8 BL808_UART_RX_FIFO_CNT_MSK = of_nat n"
proof -
  have "n \<in> set [0..<33]" using assms by simp
  then have "n \<in> {0, 1, 2, 3, 4, 5, 6, 7, 8, 9, 10, 11, 12, 13, 14, 15, 16, 17, 18, 19, 20, 21, 22, 23, 24, 25, 26, 27, 28, 29, 30, 31, 32}"
    by (simp add: upt_rec eval_nat_numeral)
  then show "(push_bit 8 (of_nat n) OR 1) AND BL808_UART_TX_FIFO_CNT_MSK \<noteq> 0" "push_bit 8 (of_nat n) AND BL808_UART_TX_FIFO_CNT_MSK = 0"
    "drop_bit 8 (push_bit 8 (of_nat n)) AND drop_bit 8 BL808_UART_RX_FIFO_CNT_MSK = of_nat n"
    by (auto simp: BL808_UART_TX_FIFO_CNT_MSK_def BL808_UART_RX_FIFO_CNT_MSK_def)
qed

interpretation ox64_dev: ox_chip ox64 "\<lambda>_ v. v" "v_bus BL808 ox64" v_reg v_fifo v_sent v_busy
  by (intro ox_chip.intro v_hw ox_chip_axioms.intro) (auto simp: builds_def ox_ctrl_def v_defs v_pop_fifo ox64_def v_counts [OF v_level] v_level low_byte BL808_UART_STATUS_TX_BUSY_MASK_def)

interpretation hifive_dev: sf_chip hifive1_revb "\<lambda>_ v. v" "v_bus SIFIVE hifive1_revb" v_reg v_fifo v_sent v_busy
  by (intro sf_chip.intro v_hw sf_chip_axioms.intro) (auto simp: builds_def v_defs v_pop_fifo v_pop_def hifive1_revb_def bit_simps)

text \<open>The \<^verbatim>\<open>virt\<close> machine as the theory of the console has it.\<close>

interpretation virt_console: uart_port "\<lambda>c k. Some (uart_writechar c k)" "\<lambda>k. (uart_rx_num_avail k, k)" "\<lambda>k. Some (uart_readchar k)"
    k_rx "\<lambda>k. rev (k_console k)" "\<lambda>_. True"
  by unfold_locales (auto simp: uart_writechar_def uart_rx_num_avail_def uart_readchar_def)

section \<open>Properties\<close>

text \<open>
  C16: on every machine whose registers behave as its chip's locale says, once its
  port has been initialised, the interrupt handler of the console takes exactly the
  characters that the device has received, in order, handles each as on the
  \<^verbatim>\<open>virt\<close> machine, sends the same echo and returns. Two conditions: with the SiFive
  port no zero character may be among them (such a character is lost), and on
  the DesignWare port, whose line control register the driver never writes, the
  boot loader must have left the divisor latch closed.
\<close>

theorem console_on_every_port:
  assumes "chip kind b bus reg fifo sent busy" "(kind, b) \<in> set builds"
    "fst s = fst (machine_init kind b bus start)" "reg (snd s) = reg (snd (machine_init kind b bus start))"
    "kind = DW_APB \<longrightarrow> \<not> bit (reg (snd start) (UART0 b + DW_LCR)) 7" "kind = SIFIVE \<longrightarrow> NUL \<notin> set (fifo (snd s))"
    "enqueue_loop (fifo (snd s)) wpos n (put_io [] inp k) = Inr (wpos', n', k')"
  shows "\<exists>s'. port_enqueue (writechar kind b bus) (rx_num_avail kind b bus) (readchar kind b bus) wpos n k s =
      Some (Inr (wpos', n', put_io (k_console k) (k_rx k) k'), s') \<and>
    fifo (snd s') = [] \<and> sent (snd s') = sent (snd s) @ rev (k_console k')"
  using uart_port.enqueue_refines [OF chip_port [OF assms(1)] init_ok [OF assms(1-6)] assms(7)] by blast

definition typed :: "udev ustate" where
  "typed = (case machine_init BL808 ox64 (v_bus BL808 ox64) (0, \<lparr>v_reg = \<lambda>_. 0, v_rx = [], v_sent = [], v_busy = 0\<rparr>) of
     (p, d) \<Rightarrow> (p, d\<lparr>v_rx := ''ab'', v_busy := 2\<rparr>))"

theorem console_on_every_port_witness:
  "\<exists>k' s'. port_enqueue (writechar BL808 ox64 (v_bus BL808 ox64)) (rx_num_avail BL808 ox64 (v_bus BL808 ox64))
      (readchar BL808 ox64 (v_bus BL808 ox64)) 0 0 (bss_kernel (\<lambda>_. 0)) typed = Some (Inr (2, 2, k'), s') \<and>
    v_fifo (snd s') = [] \<and> v_sent (snd s') = v_sent (snd typed) @ ''ab''"
proof -
  have c: "chip BL808 ox64 (v_bus BL808 ox64) v_reg v_fifo v_sent v_busy"
    unfolding chip_def uart_kind.case using ox64_dev.ox_chip_axioms by blast
  obtain k' where k': "enqueue_loop (v_fifo (snd typed)) 0 0 (put_io [] [] (bss_kernel (\<lambda>_. 0))) = Inr (2, 2, k')" "k_console k' = ''ba''"
    by (simp add: typed_def v_fifo_def split_def enqueue_char_def ASCII_DEL_def CR_def upd_uart_def uart_writechar_def put_io_def bss_kernel_def Let_def)
  show ?thesis
    using console_on_every_port [OF c, where s = typed and start = "(0, \<lparr>v_reg = \<lambda>_. 0, v_rx = [], v_sent = [], v_busy = 0\<rparr>)", OF _ _ _ _ _ k'(1)] k'(2)
    by (auto simp: builds_def typed_def split_def)
qed

text \<open>
  C37: a zero character on the SiFive port is lost, and the handler returns with
  the characters behind it still in the device: the driver takes the value zero
  that it has peeked for an empty FIFO.
\<close>

theorem sifive_zero_is_lost:
  assumes "chip SIFIVE b bus reg fifo sent busy" "fifo (snd s) = NUL # cs"
  shows "\<exists>s'. port_enqueue (writechar SIFIVE b bus) (rx_num_avail SIFIVE b bus) (readchar SIFIVE b bus) wpos n k s =
      Some (Inr (wpos, n, k), s') \<and> fifo (snd s') = cs \<and> sent (snd s') = sent (snd s)"
proof -
  obtain legal where "sf_chip b legal bus reg fifo sent busy" using assms(1) by (auto simp: chip_def)
  from sf_chip.sf_rx [OF this assms(2)] obtain d' where
    "rd32 bus (b_UART_BASE b + UART_RXDATA) (snd s) = (of_char NUL, d')" "fifo d' = cs" "sent d' = sent (snd s)"
    by blast
  then show ?thesis
    by (subst port_enqueue.simps) (simp add: sf_rx_num_avail_def NUL_def)
qed

theorem sifive_zero_is_lost_witness:
  "\<exists>s'. port_enqueue (writechar SIFIVE hifive1_revb (v_bus SIFIVE hifive1_revb)) (rx_num_avail SIFIVE hifive1_revb (v_bus SIFIVE hifive1_revb))
      (readchar SIFIVE hifive1_revb (v_bus SIFIVE hifive1_revb)) 0 0 (bss_kernel (\<lambda>_. 0))
      (0, \<lparr>v_reg = \<lambda>_. 0, v_rx = [NUL, CHR ''x''], v_sent = [], v_busy = 0\<rparr>) = Some (Inr (0, 0, bss_kernel (\<lambda>_. 0)), s') \<and>
    v_fifo (snd s') = ''x'' \<and> v_sent (snd s') = []"
proof -
  have c: "chip SIFIVE hifive1_revb (v_bus SIFIVE hifive1_revb) v_reg v_fifo v_sent v_busy"
    unfolding chip_def uart_kind.case using hifive_dev.sf_chip_axioms by blast
  show ?thesis
    using sifive_zero_is_lost [OF c, of "(0, \<lparr>v_reg = \<lambda>_. 0, v_rx = [NUL, CHR ''x''], v_sent = [], v_busy = 0\<rparr>)" "''x''"]
    by (simp add: v_fifo_def)
qed

end
