(* ===== verification/Sources.thy ===== *)
theory Sources
  imports Serial
begin

text \<open>
  The interrupt sources of the machines: after \<open>plic_init\<close> and \<open>uart_machine_init\<close> the
  interrupt controller of every machine lets exactly the console through. Then the
  timers of the machines (\<^verbatim>\<open>src/machine/d1/timer.c\<close>, \<^verbatim>\<open>src/timer-sbi.c\<close>).
\<close>

section \<open>What initialisation writes\<close>

context uart_hw
begin

lemma init_plic_reg:
  assumes "b_PLIC_NUM_INTR_SOURCES b \<le> 256" "i < b_PLIC_NUM_INTR_SOURCES b"
  shows "reg (init_plic b bus d) (plic_priority b + 4 * of_nat i) = 0"
proof -
  have "reg (fold (\<lambda>i. set_intr_priority b bus (of_nat i) 0) [0..<n] d) (plic_priority b + 4 * of_nat i) = 0"
    if "i < n" "n \<le> b_PLIC_NUM_INTR_SOURCES b" for n
    using that
  proof (induction n)
    case (Suc n)
    have "plic_priority b + 4 * of_nat n \<in> plic_addrs b" using Suc.prems by (auto simp: plic_addrs_def)
    with Suc assms(1) show ?case
      by (cases "i = n") (simp_all add: set_intr_priority_def scast_of_nat write_reg legal_none)
  qed simp
  then show ?thesis using assms(2) by (simp add: init_plic_def)
qed

end

text \<open>Initialising the port keeps the priorities of the other sources.\<close>

lemma kept_by_init:
  assumes "chip kind b bus reg fifo sent busy" "(kind, b) \<in> set builds" "i < 256"
  shows "\<exists>legal ctrl. uart_hw b legal bus reg fifo sent ctrl \<and>
    (\<forall>s. \<exists>r. reg (snd (machine_init kind b bus s)) = plic_set_up legal b r \<and>
      r (plic_priority b + 4 * of_nat i) = reg (snd s) (plic_priority b + 4 * of_nat i))"
proof -
  note off = priority_apart(4) [OF assms(2,3)]
  show ?thesis
  proof (cases kind)
    case NS16550A
    then obtain legal where c: "ns_chip b legal bus reg fifo sent" using assms(1) by (auto simp: chip_def)
    have "\<exists>r. reg (snd (machine_init kind b bus s)) = plic_set_up legal b r \<and>
        r (plic_priority b + 4 * of_nat i) = reg (snd s) (plic_priority b + 4 * of_nat i)" for s
      unfolding NS16550A machine_init.simps snd_conv
      by (intro exI conjI, rule ns_chip.ns_init_reg [OF c assms(2) [unfolded NS16550A]], use off [of NS_LCR] off [of NS_IER] in simp)
    with ns_chip.axioms(1) [OF c] show ?thesis by blast
  next
    case DW_APB
    then obtain legal where c: "dw_chip b legal bus reg fifo sent busy" using assms(1) by (auto simp: chip_def)
    have "\<exists>r. reg (snd (machine_init kind b bus s)) = plic_set_up legal b r \<and>
        r (plic_priority b + 4 * of_nat i) = reg (snd s) (plic_priority b + 4 * of_nat i)" for s
      unfolding DW_APB machine_init.simps snd_conv
      by (intro exI conjI, rule dw_chip.dw_init_reg [OF c assms(2) [unfolded DW_APB]], use off [of DW_IER] in \<open>simp add: UART0_def\<close>)
    with dw_chip.axioms(1) [OF c] show ?thesis by blast
  next
    case BL808
    then obtain legal where c: "ox_chip b legal bus reg fifo sent busy" using assms(1) by (auto simp: chip_def)
    have "\<exists>r. reg (snd (machine_init kind b bus s)) = plic_set_up legal b r \<and>
        r (plic_priority b + 4 * of_nat i) = reg (snd s) (plic_priority b + 4 * of_nat i)" for s
      using ox_chip.ox_init_reg [OF c, of "snd s"] assms(2) off [of BL808_UART_REG_INT_MASK] off [of BL808_UART_REG_INT_EN]
        off [of BL808_UART_REG_UTX_CONFIG] off [of BL808_UART_REG_URX_CONFIG]
      by (auto simp: BL808)
    with ox_chip.axioms(1) [OF c] show ?thesis by blast
  next
    case SIFIVE
    then obtain legal where c: "sf_chip b legal bus reg fifo sent busy" using assms(1) by (auto simp: chip_def)
    have "\<exists>r. reg (snd (machine_init kind b bus s)) = plic_set_up legal b r \<and>
        r (plic_priority b + 4 * of_nat i) = reg (snd s) (plic_priority b + 4 * of_nat i)" for s
      unfolding SIFIVE machine_init.simps
      by (intro exI conjI, rule sf_chip.sf_init_reg [OF c assms(2) [unfolded SIFIVE]],
          use off [of UART_RXCTRL] off [of UART_IE] off [of UART_BAUD_RATE_DIVISOR] in simp)
    with sf_chip.axioms(1) [OF c] show ?thesis by blast
  qed
qed

section \<open>Properties\<close>

text \<open>
  A source interrupts the hart when its priority is above the threshold and its
  bit is set among the enabled ones.
\<close>

definition plic_delivers :: "board \<Rightarrow> (addr \<Rightarrow> u32) \<Rightarrow> nat \<Rightarrow> bool" where
  "plic_delivers b r i \<longleftrightarrow> r (plic_threshold b) < r (plic_priority b + 4 * of_nat i) \<and>
     bit (r (plic_enable b + 4 * of_nat (i div 32))) (i mod 32)"

lemma set_up_delivers:
  assumes "plic_regs b legal" "(kind, b) \<in> set builds" "i < 256" "r (plic_priority b + 4 * of_nat i) = 0"
  shows "plic_delivers b (plic_set_up legal b r) i \<longleftrightarrow> i = unat (b_UART0_IRQ_NUM b)"
proof (cases "i = unat (b_UART0_IRQ_NUM b)")
  case True
  note irq = builds_irq [OF assms(2)] and apart = builds_apart [OF assms(2)]
  have "b_PLIC_MAX_PRIORITY b - 1 < b_PLIC_MAX_PRIORITY b" using assms(2) by (auto simp: builds_def board_defs)
  moreover have "bit (legal (enable_word b) (push_bit (i mod 32) 1)) (i mod 32)"
    using plic_regs.legal_enable [OF assms(1) irq(1,2), of "push_bit (i mod 32) 1"] True
    by (simp add: enable_word_def bit_simps)
  ultimately show ?thesis using apart True by (simp add: plic_delivers_def plic_set_up_def enable_word_def)
next
  case False
  have irq: "unat (b_UART0_IRQ_NUM b) < 256" "unat (plic_priority b) + 1024 < 2 ^ 64"
    using assms(2) by (auto simp: builds_def board_defs plic_ops)
  have "plic_set_up legal b r (plic_priority b + 4 * of_nat i) = 0"
    using priority_apart(1-3) [OF assms(2,3)] priority_eq [OF assms(3) irq(1,2)] False assms(4) builds_irq(6) [OF assms(2)]
    by (cases "unat (b_UART0_IRQ_NUM b) = 32") (auto simp: plic_set_up_def enable_word_def)
  then show ?thesis using False by (simp add: plic_delivers_def)
qed

text \<open>
  C38: on every machine, after \<open>plic_init\<close> and \<open>uart_machine_init\<close> the interrupt
  controller delivers the interrupt of the console and of no other source.
\<close>

theorem only_console_interrupts:
  assumes "chip kind b bus reg fifo sent busy" "(kind, b) \<in> set builds" "i < b_PLIC_NUM_INTR_SOURCES b"
  shows "plic_delivers b (reg (snd (machine_init kind b bus (peek, init_plic b bus d)))) i \<longleftrightarrow> i = unat (b_UART0_IRQ_NUM b)"
proof -
  have n: "b_PLIC_NUM_INTR_SOURCES b \<le> 256" using sources_le [OF assms(2)] .
  with assms(3) have i: "i < 256" by simp
  obtain legal ctrl r where hw: "uart_hw b legal bus reg fifo sent ctrl" and
    r: "reg (snd (machine_init kind b bus (peek, init_plic b bus d))) = plic_set_up legal b r"
      "r (plic_priority b + 4 * of_nat i) = reg (init_plic b bus d) (plic_priority b + 4 * of_nat i)"
    using kept_by_init [OF assms(1,2) i] by force
  have "plic_regs b legal" using hw by (simp add: uart_hw_def)
  from set_up_delivers [OF this assms(2) i] r uart_hw.init_plic_reg [OF hw n assms(3)] show ?thesis by simp
qed

theorem only_console_interrupts_witness:
  "plic_delivers star64 (v_reg (snd (machine_init DW_APB star64 (v_bus DW_APB star64)
     (0, init_plic star64 (v_bus DW_APB star64) \<lparr>v_reg = \<lambda>_. 7, v_rx = [], v_sent = [], v_busy = 0\<rparr>)))) 32"
proof -
  have c: "chip DW_APB star64 (v_bus DW_APB star64) v_reg v_fifo v_sent v_busy"
    unfolding chip_def uart_kind.case using star64_dev.dw_chip_axioms by blast
  have "(DW_APB, star64) \<in> set builds" "32 < b_PLIC_NUM_INTR_SOURCES star64" by (simp add: builds_def, simp add: star64_def)
  from only_console_interrupts [OF c this] show ?thesis by (simp add: star64_def)
qed

section \<open>Timers\<close>

definition STIMECMP_LO :: addr where [simp]: "STIMECMP_LO = 0xd000"
definition STIMECMP_HI :: addr where [simp]: "STIMECMP_HI = 0xd004"

text \<open>
  The timer of the D1: the time of the hart is an argument; the comparator is
  written in two halves, so that a device sees the states in between.
\<close>

definition d1_set_timer_after :: "'d bus \<Rightarrow> regsize \<Rightarrow> regsize \<Rightarrow> 'd \<Rightarrow> 'd" where
  "d1_set_timer_after bus tm delta d =
     (let future = tm + delta;
          future_lo = ucast (future AND 0xffffffff);
          future_hi = ucast (drop_bit 32 future);
          d = wr32 bus (b_CLINT0_BASE d1 + STIMECMP_LO) future_lo d
      in wr32 bus (b_CLINT0_BASE d1 + STIMECMP_HI) future_hi d)"

text \<open>
  The firmware below the kernel takes a request in registers \<open>a0\<close> to \<open>a7\<close> and returns
  an error and a value in \<open>a0\<close> and \<open>a1\<close>.
\<close>

definition SBI_EXT_TIME :: u32 where "SBI_EXT_TIME = 0x54494D45"
definition SBI_EXT_TIME_SET_TIMER :: u32 where "SBI_EXT_TIME_SET_TIMER = 0"

record sbi_ret =
  sbi_error :: regsize
  sbi_value :: regsize

type_synonym 'f firmware = "regsize list \<Rightarrow> 'f \<Rightarrow> (regsize \<times> regsize) \<times> 'f"

definition sbi_ecall :: "'f firmware \<Rightarrow> u32 \<Rightarrow> u32 \<Rightarrow> regsize list \<Rightarrow> 'f \<Rightarrow> sbi_ret \<times> 'f" where
  "sbi_ecall fw ext fid args f =
     (case fw (args @ [scast fid, scast ext]) f of ((a0, a1), f) \<Rightarrow> (\<lparr>sbi_error = a0, sbi_value = a1\<rparr>, f))"

definition sbi_set_timer_after :: "'f firmware \<Rightarrow> regsize \<Rightarrow> regsize \<Rightarrow> 'f \<Rightarrow> 'f" where
  "sbi_set_timer_after fw tm delta f =
     snd (sbi_ecall fw SBI_EXT_TIME SBI_EXT_TIME_SET_TIMER [tm + delta, 0, 0, 0, 0, 0] f)"

text \<open>The comparator of the D1 holds the time asked for when both halves are written.\<close>

definition stimecmp :: "(addr \<Rightarrow> u32) \<Rightarrow> regsize" where
  "stimecmp r = push_bit 32 (ucast (r (b_CLINT0_BASE d1 + STIMECMP_HI))) OR ucast (r (b_CLINT0_BASE d1 + STIMECMP_LO))"

lemma halves: "push_bit 32 (ucast (ucast (drop_bit 32 v) :: u32)) OR ucast (ucast (v AND 0xffffffff) :: u32) = (v :: regsize)"
proof -
  have "v AND 0xffffffff = take_bit 32 v" by (simp add: take_bit_eq_mask mask_eq_exp_minus_1)
  then show ?thesis
    by (simp only:) (intro bit_word_eqI, auto simp: bit_simps not_less)
qed

lemma d1_timer_set:
  assumes "\<And>v d. reg (wr32 bus (b_CLINT0_BASE d1 + STIMECMP_LO) v d) = (reg d)(b_CLINT0_BASE d1 + STIMECMP_LO := v)"
    "\<And>v d. reg (wr32 bus (b_CLINT0_BASE d1 + STIMECMP_HI) v d) = (reg d)(b_CLINT0_BASE d1 + STIMECMP_HI := v)"
  shows "stimecmp (reg (d1_set_timer_after bus tm delta d)) = tm + delta"
  using assms by (simp add: d1_set_timer_after_def stimecmp_def Let_def d1_def halves)

end
