(* ===== verification/Reclaim.thy ===== *)
theory Reclaim
  imports Vm
begin

text \<open>
  Giving page tables back: \<open>free_page_table\<close> (\<^verbatim>\<open>src/vm.c\<close>) releases exactly the
  frames of the tree it is given, and so undoes what building the tree took. And
  the account of the frames when \<open>init_paged_memory\<close> (\<^verbatim>\<open>src/pagealloc.c\<close>) has built
  the table of the kernel.
\<close>

section \<open>Releasing a set of frames\<close>

definition released :: "addr set \<Rightarrow> paged_mem_t \<Rightarrow> paged_mem_t \<Rightarrow> bool" where
  "released S pm pm' \<longleftrightarrow> pm_wf pm' \<and> frames pm' = frames pm \<and> taken pm' = taken pm - S"

lemma released_none: "pm_wf pm \<Longrightarrow> released {} pm pm"
  by (simp add: released_def)

lemma released_trans: "released S pm pm1 \<Longrightarrow> released T pm1 pm2 \<Longrightarrow> released (S \<union> T) pm pm2"
  by (auto simp: released_def)

lemma release_one: "pm_wf pm \<Longrightarrow> \<exists>pm'. release_page p pm = Inr pm' \<and> released {p} pm pm'"
  using pa.free_total [of pm p] pa.free_owned pa.free_frames pa.free_inv unfolding released_def by metis

lemma released_cong: "released S pm pm' \<Longrightarrow> S \<inter> taken pm = T \<inter> taken pm \<Longrightarrow> released T pm pm'"
  by (auto simp: released_def)

text \<open>A loop whose rounds release the sets \<open>A i\<close>.\<close>

lemma release_loop:
  assumes "\<And>i pm. i \<in> set is \<Longrightarrow> pm_wf pm \<Longrightarrow> \<exists>pm'. f i pm = Inr pm' \<and> released (A i) pm pm'" "pm_wf pm"
  shows "\<exists>pm'. foldl (\<lambda>r i. bnd r (f i)) (Inr pm) is = Inr pm' \<and> released (\<Union>i \<in> set is. A i) pm pm'"
  using assms
proof (induction "is" arbitrary: pm)
  case Nil
  then show ?case by (simp add: released_none)
next
  case (Cons i "is")
  obtain pm1 where pm1: "f i pm = Inr pm1" "released (A i) pm pm1" using Cons.prems by force
  then have "pm_wf pm1" by (simp add: released_def)
  with Cons.IH Cons.prems(1) obtain pm2 where
    "foldl (\<lambda>r i. bnd r (f i)) (Inr pm1) is = Inr pm2" "released (\<Union>i \<in> set is. A i) pm1 pm2" by fastforce
  then show ?case using pm1 released_trans by auto
qed

section \<open>The recursion of \<open>free_page_table_r\<close>\<close>

text \<open>\<open>leafy l mem p\<close>: the entries of the tables at level 0 are no pointers to tables.\<close>

fun leafy :: "nat \<Rightarrow> memory \<Rightarrow> addr \<Rightarrow> bool" where
  "leafy 0 mem p \<longleftrightarrow> (\<forall>i < 512. \<not> IS_NONLEAF (entry mem p i))"
| "leafy (Suc l) mem p \<longleftrightarrow> (\<forall>i < 512. entry mem p i \<noteq> 0 \<longrightarrow> leafy l mem (PTE_TO_PHYS (entry mem p i)))"

lemma nonleaf_zero [simp]: "\<not> IS_NONLEAF 0"
  by (simp add: IS_NONLEAF_def HAS_V_def)

lemma free_bottom:
  assumes "leafy 0 mem p"
  shows "free_page_table_r (Suc n) mem p 2 pm = Inr pm"
proof -
  have "foldl (\<lambda>r i. bnd r (\<lambda>pm.
            let pte = load64 mem (pt_entry p i) in
            if IS_NONLEAF pte then
              bnd (free_page_table_r n mem (PTE_TO_PHYS pte) (2 + 1) pm) (\<lambda>pm.
              if (2 :: nat) < 2 then release_page (PTE_TO_PHYS pte) pm else Inr pm)
            else Inr pm)) (Inr pm) is = Inr pm" if "set is \<subseteq> {..<512}" for "is"
    using that assms by (induction "is") (auto simp: Let_def)
  from this [of "[0..<512]"] show ?thesis by (simp add: subset_iff del: upt_Suc)
qed

definition below :: "nat \<Rightarrow> memory \<Rightarrow> addr \<Rightarrow> addr set" where
  "below l mem p = (\<Union>i \<in> {..<512}. if entry mem p i = 0 then {} else tables l mem (PTE_TO_PHYS (entry mem p i)))"

lemma tables_below: "tables (Suc l) mem p = insert p (below l mem p)"
  by (auto simp: below_def split: if_splits)

lemma tree_entry:
  assumes "tree (Suc l) mem p" "i < 512"
  shows "IS_NONLEAF (entry mem p i) \<longleftrightarrow> entry mem p i \<noteq> 0" "entry mem p i \<noteq> 0 \<Longrightarrow> tree l mem (PTE_TO_PHYS (entry mem p i))"
  using assms by (auto dest: spec [of _ i])

lemma free_middle:
  assumes "tree 1 mem p" "leafy 1 mem p" "pm_wf pm"
  shows "\<exists>pm'. free_page_table_r (Suc (Suc n)) mem p 1 pm = Inr pm' \<and> released (below 0 mem p) pm pm'"
proof -
  let ?f = "\<lambda>i pm. let pte = entry mem p i in
    if IS_NONLEAF pte then bnd (free_page_table_r (Suc n) mem (PTE_TO_PHYS pte) (1 + 1) pm) (\<lambda>pm.
      if (1 :: nat) < 2 then release_page (PTE_TO_PHYS pte) pm else Inr pm) else Inr pm"
  have "\<exists>pm'. ?f i pm = Inr pm' \<and> released (if entry mem p i = 0 then {} else tables 0 mem (PTE_TO_PHYS (entry mem p i))) pm pm'"
    if "i \<in> set [0..<512]" "pm_wf pm" for i pm
    using that assms(1,2) tree_entry(1) [of 0 mem p i] release_one [OF that(2)] free_bottom [of mem "PTE_TO_PHYS (entry mem p i)" n pm]
      released_none [OF that(2)]
    by (simp add: Let_def numeral_2_eq_2)
  from release_loop [of "[0..<512]" ?f, OF this assms(3)] obtain pm1 where
    pm1: "foldl (\<lambda>r i. bnd r (?f i)) (Inr pm) [0..<512] = Inr pm1" "released (below 0 mem p) pm pm1"
    by (auto simp: below_def atLeast0LessThan simp del: upt_Suc)
  then obtain pm2 where pm2: "release_page (PTE_TO_PHYS (entry mem p 0)) pm1 = Inr pm2" "released {PTE_TO_PHYS (entry mem p 0)} pm1 pm2"
    using release_one [of pm1 "PTE_TO_PHYS (entry mem p 0)"] by (auto simp: released_def)
  have "0 \<notin> taken pm" using pa.null_no_frame [OF assms(3)] pa.owned_frames [OF assms(3)] by blast
  moreover have "PTE_TO_PHYS 0 = 0" by (simp add: PTE_TO_PHYS_def PPN_TO_PHYS_def)
  ultimately have "(below 0 mem p \<union> {PTE_TO_PHYS (entry mem p 0)}) \<inter> taken pm = below 0 mem p \<inter> taken pm"
    by (cases "entry mem p 0 = 0") (auto simp: below_def intro!: bexI [of _ 0])
  from released_cong [OF released_trans [OF pm1(2) pm2(2)] this] show ?thesis
    using pm1(1) pm2(1) by (simp del: upt_Suc One_nat_def)
qed

lemma free_top:
  assumes "tree 2 mem p" "leafy 2 mem p" "pm_wf pm"
  shows "\<exists>pm'. free_page_table_r (Suc (Suc (Suc n))) mem p 0 pm = Inr pm' \<and> released (below 1 mem p) pm pm'"
proof -
  let ?f = "\<lambda>i pm. let pte = entry mem p i in
    if IS_NONLEAF pte then bnd (free_page_table_r (Suc (Suc n)) mem (PTE_TO_PHYS pte) (0 + 1) pm) (\<lambda>pm.
      if (0 :: nat) < 2 then release_page (PTE_TO_PHYS pte) pm else Inr pm) else Inr pm"
  have "\<exists>pm'. ?f i pm = Inr pm' \<and> released (if entry mem p i = 0 then {} else tables 1 mem (PTE_TO_PHYS (entry mem p i))) pm pm'"
    if i: "i \<in> set [0..<512]" "pm_wf pm" for i pm
  proof (cases "entry mem p i = 0")
    case True
    then show ?thesis using released_none [OF that(2)] by (simp add: Let_def)
  next
    case False
    let ?q = "PTE_TO_PHYS (entry mem p i)"
    have t: "tree 1 mem ?q" "leafy 1 mem ?q" "IS_NONLEAF (entry mem p i)"
      using False i assms(1,2) tree_entry [of 1 mem p i] by (simp_all add: numeral_2_eq_2)
    obtain pm1 where pm1: "free_page_table_r (Suc (Suc n)) mem ?q 1 pm = Inr pm1" "released (below 0 mem ?q) pm pm1"
      using free_middle [OF t(1,2) i(2)] by blast
    then obtain pm2 where pm2: "release_page ?q pm1 = Inr pm2" "released {?q} pm1 pm2"
      using release_one [of pm1 ?q] by (auto simp: released_def)
    from released_trans [OF pm1(2) pm2(2)] show ?thesis
      using pm1(1) pm2(1) t(3) False tables_below [of 0 mem ?q] by (simp add: Let_def del: free_page_table_r.simps tables.simps)
  qed
  from release_loop [of "[0..<512]" ?f, OF this assms(3)] show ?thesis
    by (auto simp: below_def atLeast0LessThan simp del: upt_Suc)
qed

lemma free_releases:
  assumes "as_wf pt (mem, pm)" "leafy 2 mem pt"
  shows "\<exists>pm'. free_page_table pt (mem, pm) = Inr (mem, pm') \<and> released (tables 2 mem pt) pm pm'"
proof -
  have "pm_wf pm" "tree 2 mem pt" using assms(1) by (simp_all add: as_wf_def)
  then obtain pm1 where pm1: "free_page_table_r 4 mem pt 0 pm = Inr pm1" "released (below 1 mem pt) pm pm1"
    using free_top [of mem pt pm 1] assms(2) by (auto simp: numeral_eq_Suc simp del: free_page_table_r.simps)
  then obtain pm2 where pm2: "release_page pt pm1 = Inr pm2" "released {pt} pm1 pm2"
    using release_one [of pm1 pt] by (auto simp: released_def)
  have "below 1 mem pt \<union> {pt} = tables 2 mem pt" using tables_below [of 1 mem pt] by (simp add: numeral_2_eq_2 del: tables.simps)
  with released_trans [OF pm1(2) pm2(2)] show ?thesis
    using pm1(1) pm2(1) by (simp add: free_page_table_def del: free_page_table_r.simps tables.simps)
qed

section \<open>Leaves and accounts\<close>

text \<open>Every index is the virtual page number of some address.\<close>

lemma VPN_nat: "VPN va l = unat va div 2 ^ (12 + 9 * l) mod 512"
proof -
  have "VPN va l = unat (take_bit 9 (drop_bit (12 + 9 * l) va))"
    by (simp add: VPN_def bit_mask_consts take_bit_eq_mask)
  also have "\<dots> = take_bit 9 (unat (drop_bit (12 + 9 * l) va))" by (simp only: unsigned_take_bit_eq)
  also have "unat (drop_bit (12 + 9 * l) va) = drop_bit (12 + 9 * l) (unat va)"
    using unsigned_drop_bit_eq [of "12 + 9 * l" va, where ?'a = nat] unat_lt64 [of va] by (simp add: take_bit_eq_mod)
  finally show ?thesis by (simp add: take_bit_eq_mod drop_bit_eq_div)
qed

lemma VPN_any:
  assumes "i < 512" "j < 512" "k < 512"
  shows "\<exists>va. VPN va 2 = i \<and> VPN va 1 = j \<and> VPN va 0 = k"
proof -
  let ?n = "i * 2 ^ 30 + j * 2 ^ 21 + k * 2 ^ 12"
  have "unat (of_nat ?n :: regsize) = ?n" using assms by (intro unat_of_nat64) simp
  moreover have "?n div 2 ^ 12 = (i * 512 + j) * 512 + k" "?n div 2 ^ 21 = i * 512 + j" "?n div 2 ^ 30 = i"
    using assms by simp_all
  moreover have "((i * 512 + j) * 512 + k) mod 512 = k" "(i * 512 + j) mod 512 = j" "i mod 512 = i"
    using assms by (simp_all only: mod_mult_self3 mod_less)
  ultimately show ?thesis by (intro exI [of _ "of_nat ?n"]) (simp only: VPN_nat mult_0_right mult_1_right, simp add: mult.commute)
qed

lemma leafy_leaf:
  assumes "tree 2 mem pt" "\<And>va. \<not> IS_NONLEAF (leaf 2 mem pt va)"
  shows "leafy 2 mem pt"
proof -
  have "\<not> IS_NONLEAF (entry mem (PTE_TO_PHYS (entry mem (PTE_TO_PHYS (entry mem pt i)) j)) k)"
    if e: "i < 512" "j < 512" "k < 512" "entry mem pt i \<noteq> 0" "entry mem (PTE_TO_PHYS (entry mem pt i)) j \<noteq> 0" for i j k
  proof -
    obtain va where "VPN va 2 = i" "VPN va 1 = j" "VPN va 0 = k" using VPN_any [OF e(1-3)] by blast
    then have "leaf 2 mem pt va = entry mem (PTE_TO_PHYS (entry mem (PTE_TO_PHYS (entry mem pt i)) j)) k"
      using e(4,5) by (simp add: numeral_2_eq_2 Let_def)
    then show ?thesis using assms(2) [of va] by simp
  qed
  then show ?thesis by (simp add: numeral_2_eq_2)
qed

text \<open>
  The account of a table that is being built: \<open>base\<close> are the frames taken for other
  purposes, and no entry for a page looks like a pointer to a table.
\<close>

definition account :: "addr set \<Rightarrow> addr \<Rightarrow> vm \<Rightarrow> bool" where
  "account base pt s \<longleftrightarrow> as_wf pt s \<and> taken (snd s) = base \<union> tables 2 (fst s) pt \<and> base \<inter> tables 2 (fst s) pt = {} \<and>
     (\<forall>va. \<not> IS_NONLEAF (pte_at pt s va))"

lemma leaf_pte_leaf: "perm < 2 ^ 10 \<Longrightarrow> HAS_R perm \<Longrightarrow> \<not> IS_NONLEAF (leaf_pte pa perm)"
  by (simp add: IS_NONLEAF_def leaf_pte_valid)

lemma map_page_account:
  assumes "account base pt s" "map_page_sv39 pt pa va perm pid s = Inr s'" "perm < 2 ^ 10" "HAS_R perm"
  shows "account base pt s'"
proof -
  obtain mem pm mem' pm' where s: "s = (mem, pm)" "s' = (mem', pm')" by fastforce
  have wf: "as_wf pt (mem, pm)" using assms(1) s by (simp add: account_def)
  have "mapped 2 pt (leaf_pte pa perm) va (mem, pm) (mem', pm')"
    using assms(2) wf s by (intro map_page_level_mapped) (simp_all add: as_wf_def map_page_sv39_def)
  then have m: "tables 2 mem' pt = tables 2 mem pt \<union> (taken pm' - taken pm)" "taken pm \<subseteq> taken pm'"
    by (simp_all add: mapped_def)
  have "as_wf pt s'" "\<forall>va. \<not> IS_NONLEAF (pte_at pt s' va)"
    using map_page_keeps [where P = "\<lambda>e. \<not> IS_NONLEAF e", OF _ assms(2)] leaf_pte_leaf [OF assms(3,4)] assms(1)
    by (auto simp: account_def)
  with m assms(1) s show ?thesis by (auto simp: account_def)
qed

lemma map_all_account:
  assumes "account base pt s" "map_all (\<lambda>pa va. map_page_sv39 pt pa va perm pid) ps s = Inr s'" "perm < 2 ^ 10" "HAS_R perm"
  shows "account base pt s'"
  using assms(1,2)
proof (induction ps arbitrary: s)
  case (Cons x ps)
  then show ?case
    using map_page_account [OF Cons.prems(1) _ assms(3,4)] by (cases x) (fastforce simp del: split_paired_All split_paired_Ex)
qed simp

lemma map_range_account:
  assumes "account base pt s" "map_range pt pa e va perm pid s = Inr s'" "perm < 2 ^ 10" "HAS_R perm"
  shows "account base pt s'"
proof -
  obtain ps where "map_all (\<lambda>pa va. map_page_sv39 pt pa va perm pid) ps s = Inr s'"
    using map_range_loop_some assms(2) unfolding map_range_def by blast
  from map_all_account [OF assms(1) this assms(3,4)] show ?thesis .
qed

lemma account_freed:
  assumes "account base pt s"
  shows "\<exists>pm'. free_page_table pt s = Inr (fst s, pm') \<and> pm_wf pm' \<and> frames pm' = frames (snd s) \<and> taken pm' = base"
proof -
  have a: "as_wf pt (fst s, snd s)" "taken (snd s) = base \<union> tables 2 (fst s) pt" "base \<inter> tables 2 (fst s) pt = {}"
    "tree 2 (fst s) pt" "\<And>va. \<not> IS_NONLEAF (leaf 2 (fst s) pt va)"
    using assms by (simp_all add: account_def as_wf_def pte_at_def)
  from free_releases [OF a(1) leafy_leaf [OF a(4,5)]] a(2,3) show ?thesis
    by (auto simp: released_def)
qed

section \<open>The table of the kernel\<close>

text \<open>
  An entry of the kernel's table for the address \<open>va\<close>: none, or one that maps the page
  to itself, for supervisor mode, with the rights of code, data or constants.
\<close>

definition kernel_perms :: "regsize set" where
  "kernel_perms = {PERM_KDATA, PERM_KCODE, PERM_KRODATA}"

definition kernel_entry :: "regsize \<Rightarrow> regsize \<Rightarrow> bool" where
  "kernel_entry va pte \<longleftrightarrow> pte = 0 \<or> (\<exists>pa. vpage pa = vpage va \<and> pte \<in> leaf_pte pa ` kernel_perms)"

lemma kernel_perms_ok:
  assumes "perm \<in> kernel_perms"
  shows "perm < 2 ^ 10" "HAS_R perm" "\<not> HAS_U perm" "\<not> (HAS_W perm \<and> HAS_X perm)"
  using assms by (auto simp: kernel_perms_def PERM_KDATA_def PERM_KCODE_def PERM_KRODATA_def
    HAS_R_def HAS_U_def HAS_W_def HAS_X_def)

lemma kernel_entry_rights:
  assumes "kernel_entry va pte"
  shows "\<not> HAS_U pte \<and> \<not> (HAS_W pte \<and> HAS_X pte)"
proof (cases "pte = 0")
  case False
  then obtain pa perm where "pte = leaf_pte pa perm" "perm \<in> kernel_perms" using assms by (auto simp: kernel_entry_def)
  then show ?thesis using kernel_perms_ok leaf_pte_valid by simp
qed (simp add: HAS_U_def HAS_W_def)

text \<open>What holds of the table while the kernel maps pages to themselves.\<close>

definition kernel_table :: "addr set \<Rightarrow> addr \<Rightarrow> vm \<Rightarrow> bool" where
  "kernel_table F pt s \<longleftrightarrow> account {} pt s \<and> frames (snd s) = F \<and> (\<forall>va. kernel_entry va (pte_at pt s va))"

lemma map_page_frames:
  assumes "as_wf pt s" "map_page_sv39 pt pa va perm pid s = Inr s'"
  shows "frames (snd s') = frames (snd s)"
proof -
  have "mapped 2 pt (leaf_pte pa perm) va (fst s, snd s) s'"
    using assms by (intro map_page_level_mapped) (simp_all add: as_wf_def map_page_sv39_def)
  then show ?thesis by (auto simp: mapped_def split: prod.splits)
qed

lemma kernel_table_page:
  assumes "kernel_table F pt s" "map_page_sv39 pt pa pa perm pid s = Inr s'" "perm \<in> kernel_perms"
  shows "kernel_table F pt s'"
proof -
  have wf: "as_wf pt s" using assms(1) by (simp add: kernel_table_def account_def)
  have "kernel_entry va (pte_at pt s' va)" for va
    using assms(1,3) vm_as.map1_pte [OF wf assms(2), of va] by (auto simp: kernel_table_def kernel_entry_def)
  then show ?thesis
    using assms(1) map_page_frames [OF wf assms(2)] map_page_account [OF _ assms(2) kernel_perms_ok(1,2) [OF assms(3)]]
    by (auto simp: kernel_table_def)
qed

lemma map_range_id_rule:
  assumes "map_range_id pt pa e perm s = Inr s'" "P s"
    and page: "\<And>pa s s'. P s \<Longrightarrow> map_page_sv39 pt pa pa perm (-1) s = Inr s' \<Longrightarrow> P s'"
  shows "P s'"
proof -
  have "map_range_loop n pt pa e pa perm (-1) s = Inr s' \<Longrightarrow> P s \<Longrightarrow> P s'" for n pa s
    by (induction n arbitrary: pa s) (auto split: if_splits dest: page)
  then show ?thesis using assms(1,2) unfolding map_range_id_def map_range_def by blast
qed

lemma kernel_table_range:
  "kernel_table F pt s \<Longrightarrow> map_range_id pt pa e perm s = Inr s' \<Longrightarrow> perm \<in> kernel_perms \<Longrightarrow> kernel_table F pt s'"
  by (rule map_range_id_rule [where P = "kernel_table F pt"]) (blast intro: kernel_table_page)+

lemma kernel_table_pages:
  "kernel_table F pt s \<Longrightarrow> map_pages pt pages s = Inr s' \<Longrightarrow> kernel_table F pt s'"
proof (induction pages arbitrary: s)
  case (Cons p pages)
  then obtain s1 where s1: "map_page_sv39 pt (pg_ptr p) (pg_ptr p) PERM_KDATA (-1) s = Inr s1" "map_pages pt pages s1 = Inr s'"
    by (auto simp: map_page_id_def)
  from kernel_table_page [OF Cons.prems(1) s1(1)] show ?case using Cons.IH [OF _ s1(2)] by (simp add: kernel_perms_def)
qed simp

text \<open>Data pages mapped to themselves stay so: below \<open>2 ^ 39\<close> a page has a virtual page of its own.\<close>

definition data_page :: "addr \<Rightarrow> vm \<Rightarrow> addr \<Rightarrow> bool" where
  "data_page pt s a \<longleftrightarrow> pte_at pt s a = leaf_pte a PERM_KDATA"

lemma vpage_inj:
  assumes "vpage a = vpage b" "page_aligned a" "page_aligned b" "unat a < 2 ^ 39" "unat b < 2 ^ 39"
  shows "a = b"
proof -
  have "unat a div 4096 = unat b div 4096"
    using assms(1,4,5) unat_vpage [of a] unat_vpage [of b] by simp
  then show ?thesis
    using assms(2,3) unfolding page_aligned_dvd by (metis dvd_mult_div_cancel word_unat_eq_iff)
qed

lemma data_page_kept:
  assumes "as_wf pt s" "map_page_sv39 pt d d PERM_KDATA pid s = Inr s'"
    "page_aligned a" "unat a < 2 ^ 39" "page_aligned d" "unat d < 2 ^ 39"
  shows "data_page pt s' d" "data_page pt s a \<Longrightarrow> data_page pt s' a"
  using vm_as.map1_pte [OF assms(1,2)] vpage_inj [OF _ assms(3,5,4,6)] by (auto simp: data_page_def)

lemma map_pages_data:
  assumes "map_pages pt pages s = Inr s'" "as_wf pt s" "\<forall>p \<in> set pages. page_aligned (pg_ptr p) \<and> unat (pg_ptr p) < 2 ^ 39"
  shows "as_wf pt s' \<and> (\<forall>p \<in> set pages. data_page pt s' (pg_ptr p)) \<and>
    (\<forall>a. page_aligned a \<and> unat a < 2 ^ 39 \<and> data_page pt s a \<longrightarrow> data_page pt s' a)"
  using assms
proof (induction pages arbitrary: s)
  case (Cons p pages)
  obtain s1 where s1: "map_page_sv39 pt (pg_ptr p) (pg_ptr p) PERM_KDATA (-1) s = Inr s1" "map_pages pt pages s1 = Inr s'"
    using Cons.prems(1) by (auto simp: map_page_id_def)
  note kept = data_page_kept [OF Cons.prems(2) s1(1)]
  have "as_wf pt s1" by (rule vm_as.map1_inv [OF Cons.prems(2) s1(1)])
  from Cons.IH [OF s1(2) this] Cons.prems(3) kept show ?case by auto
qed simp

text \<open>The device pages that the kernel maps last.\<close>

definition device_pages :: "addr list" where
  "device_pages = [PAGE_ROUND_DOWN MTIME, MTIMECMP_BASE, PLIC_THRESHOLD, UART_BASE]"

lemma device_pages_ok: "\<forall>d \<in> set device_pages. page_aligned d \<and> unat d < 2 ^ 39"
  by (simp add: device_pages_def page_aligned_def PAGE_ROUND_DOWN_def)

lemma make_kernel_page_table_stages:
  assumes "make_kernel_page_table ly pages (mem, pm) = Inr (pt, s')" "pm_wf pm" "taken pm = {}"
  shows "\<exists>s. kernel_table (frames pm) pt s \<and> map_pages pt (pages @ map free_page_desc device_pages) s = Inr s'"
proof -
  obtain pm1 s1 s2 s3 s4 s5 where pt: "kalloc ''make_kernel_page_table'' (-1) pm = Inr (pt, pm1)" "pt \<noteq> 0"
    and s: "map_page_sv39 pt (RAM_START ly) (RAM_START ly) PERM_KDATA (-1) (memset mem pt PAGE_SIZE 0, pm1) = Inr s1"
    "map_range_id pt (KERNEL_CODE_START ly) (user_code_start ly) PERM_KCODE s1 = Inr s2"
    "map_range_id pt (rodata_start ly) (PAGE_ROUND_UP (rodata_end ly)) PERM_KRODATA s2 = Inr s3"
    "map_range_id pt (PAGE_ROUND_DOWN (data_start ly)) (PAGE_ROUND_UP (heap_start ly)) PERM_KDATA s3 = Inr s4"
    "map_pages pt pages s4 = Inr s5" "map_pages pt (map free_page_desc device_pages) s5 = Inr s'"
    using assms(1) by (auto simp: make_kernel_page_table_def map_page_id_def device_pages_def split: if_splits)
  note got = kalloc_got [OF assms(2) pt]
  have "kernel_table (frames pm) pt (memset mem pt PAGE_SIZE 0, pm1)"
    using cleared_table [OF got(1), of pt mem] empty_table [OF entry_memset got(5)] got(2,3) assms(3)
    by (auto simp: kernel_table_def account_def kernel_entry_def simp del: PAGE_SIZE_def tables.simps)
  moreover have "PERM_KDATA \<in> kernel_perms" "PERM_KCODE \<in> kernel_perms" "PERM_KRODATA \<in> kernel_perms"
    by (simp_all add: kernel_perms_def)
  ultimately have "kernel_table (frames pm) pt s4"
    by (blast intro: kernel_table_range [OF _ s(4)] kernel_table_range [OF _ s(3)] kernel_table_range [OF _ s(2)]
      kernel_table_page [OF _ s(1)])
  moreover have "map_pages pt (pages @ qs) s4 = map_pages pt qs s5" for qs
    using s(5) by (induction pages arbitrary: s4) auto
  ultimately show ?thesis using s(6) by metis
qed

lemma init_paged_memory_table:
  assumes "init_paged_memory ly e (mem, pm) = Inr (mem', pm')"
  shows "\<exists>pt pmk. make_kernel_page_table ly (pages_in_use (init_paged_memory_pages (heap_start ly) e pm))
      (mem, init_paged_memory_pages (heap_start ly) e pm) = Inr (pt, mem', pmk) \<and>
    pm' = pmk\<lparr>pm_kpagetable := pt, pm_ksatp := MAKE_SATP pt\<rparr>"
  using assms by (auto simp: init_paged_memory_def Let_def)

lemma kernel_fields [simp]:
  "pm_wf (pm\<lparr>pm_kpagetable := pt, pm_ksatp := x\<rparr>) = pm_wf pm"
  "frames (pm\<lparr>pm_kpagetable := pt, pm_ksatp := x\<rparr>) = frames pm"
  "taken (pm\<lparr>pm_kpagetable := pt, pm_ksatp := x\<rparr>) = taken pm"
  by (simp_all add: pm_wf_def frames_def taken_def pages_in_use_def)

lemma frame_below:
  assumes "unat e \<le> 2 ^ 39" "k < MAX_PAGES" "unat base + k * 4096 < unat e"
  shows "unat (base + of_nat k * 4096 :: addr) < 2 ^ 39"
  using assms by (simp add: unat_plus_if' unat_word_ariths unat_of_nat)

section \<open>Properties\<close>

text \<open>
  C15: the page table of a process costs nothing when it is gone. If
  \<open>init_user_page_table\<close> has built a table in a page of the process, and any number
  of pages has been mapped in it since, \<open>free_page_table\<close> returns and releases the
  page and every frame taken for lower tables, and no other frame.
\<close>

theorem page_table_reclaimed:
  assumes "pm_wf pm" "pt \<in> taken pm" "init_user_page_table ly pt pid (mem, pm) = Inr s"
    "map_all (\<lambda>pa va. map_page_sv39 pt pa va perm pid) ps s = Inr s'" "perm < 2 ^ 10" "HAS_R perm"
  shows "\<exists>pm'. free_page_table pt s' = Inr (fst s', pm') \<and> pm_wf pm' \<and> frames pm' = frames (snd s') \<and>
    taken pm' = taken pm - {pt}"
proof -
  let ?s0 = "(memset mem pt PAGE_SIZE 0, pm)" and ?acc = "account (taken pm - {pt}) pt"
  have al: "page_aligned pt" using assms frames_aligned pa.owned_frames by blast
  have "?acc ?s0"
    using cleared_table [OF assms(1,2), of mem] empty_table [OF entry_memset al] assms(2)
    by (auto simp: account_def simp del: PAGE_SIZE_def tables.simps)
  moreover have "PERM_KDATA < 2 ^ 10" "PERM_KCODE < 2 ^ 10" "PERM_URODATA < 2 ^ 10" "PERM_UCODE < 2 ^ 10"
    "HAS_R PERM_KDATA" "HAS_R PERM_KCODE" "HAS_R PERM_URODATA" "HAS_R PERM_UCODE"
    by (simp_all add: PERM_KDATA_def PERM_KCODE_def PERM_URODATA_def PERM_UCODE_def HAS_R_def)
  ultimately have "?acc s"
    by (intro init_user_page_table_rule [OF assms(3), of ?acc]) (auto intro: map_page_account map_range_account)
  then have "?acc s'" using map_all_account assms(4-6) by blast
  from account_freed [OF this] show ?thesis .
qed

theorem page_table_reclaimed_witness:
  "\<exists>s' pm'. init_user_page_table user_layout 0x80100000 1 (\<lambda>_. 0, user_pm) = Inr s' \<and>
     free_page_table 0x80100000 s' = Inr (fst s', pm') \<and> taken pm' = {}"
proof -
  obtain s' where s': "init_user_page_table user_layout 0x80100000 1 (\<lambda>_. 0, user_pm) = Inr s'"
    using user_table_built by blast
  have "HAS_R PERM_UDATA" "PERM_UDATA < 2 ^ 10" by (simp_all add: HAS_R_def PERM_UDATA_def)
  from page_table_reclaimed [OF user_pm_facts(1) _ s', of "PERM_UDATA" "[]"] this show ?thesis
    using s' user_pm_facts(2) by auto
qed

text \<open>
  The example: a kernel image below 0x80007000 and 48 frames above it, all in the
  two megabytes from 0x80000000, so that the first mapping there makes the tables
  for all the others.
\<close>

definition beside :: "addr \<Rightarrow> nat \<Rightarrow> vm \<Rightarrow> bool" where
  "beside pt k s \<longleftrightarrow> as_wf pt s \<and> pte_at pt s 0x80000000 \<noteq> 0 \<and> k \<le> nfree (snd s)"

lemma map_page_beside:
  assumes "beside pt k s" "VPN a 2 = 2" "VPN a 1 = 0" "perm < 2 ^ 10"
  shows "\<exists>s'. map_page_sv39 pt pa a perm pid s = Inr s' \<and> beside pt k s'"
proof -
  obtain mem pm where s: "s = (mem, pm)" by fastforce
  have v: "VPN 0x80000000 2 = 2" "VPN 0x80000000 1 = 0" by (simp_all add: VPN_def)
  have "\<exists>mem'. map_page_sv39 pt pa a perm pid (mem, pm) = Inr (mem', pm)"
    using assms(1-3) v by (auto simp: s beside_def pte_at_def map_page_sv39_def numeral_2_eq_2 Let_def split: if_splits)
  then obtain mem' where m: "map_page_sv39 pt pa a perm pid s = Inr (mem', pm)" using s by blast
  have "leaf_pte pa perm \<noteq> 0" using leaf_pte_valid(1) [OF assms(4), of pa] by (auto simp: HAS_V_def)
  then show ?thesis
    using m assms(1) vm_as.map1_inv [OF _ m] vm_as.map1_pte [OF _ m] by (auto simp: beside_def s)
qed

lemma map_all_beside:
  assumes "beside pt k s" "\<forall>(pa, va) \<in> set ps. VPN va 2 = 2 \<and> VPN va 1 = 0" "perm < 2 ^ 10"
  shows "\<exists>s'. map_all (\<lambda>pa va. map_page_sv39 pt pa va perm pid) ps s = Inr s' \<and> beside pt k s'"
  using assms(1,2)
proof (induction ps arbitrary: s)
  case (Cons x ps)
  obtain pa va where x: "x = (pa, va)" by fastforce
  obtain s1 where "map_page_sv39 pt pa va perm pid s = Inr s1" "beside pt k s1"
    using map_page_beside [OF Cons.prems(1) _ _ assms(3)] Cons.prems(2) x by fastforce
  then show ?case using Cons.IH [of s1] Cons.prems(2) x by auto
qed simp

lemma map_range_beside:
  assumes "beside pt k s" "\<forall>(pa, va) \<in> set (range_pages a a n). VPN va 2 = 2 \<and> VPN va 1 = 0" "perm < 2 ^ 10"
    "n < 2 ^ 52" "e = a + of_nat n * 4096"
  shows "\<exists>s'. map_range_id pt a e perm s = Inr s' \<and> beside pt k s'"
  using map_all_beside [OF assms(1-3), of "-1"] map_range_loop_all [of n "2 ^ 52" pt a a perm "-1" s] assms(4,5)
  by (simp add: map_range_id_def map_range_def)

lemma map_pages_all: "map_pages pt pages = map_all (\<lambda>pa va. map_page_sv39 pt pa va PERM_KDATA (-1)) (map (\<lambda>p. (pg_ptr p, pg_ptr p)) pages)"
  by (induction pages) (rule ext, simp add: map_page_id_def)+

definition blank_pm :: paged_mem_t where
  "blank_pm = \<lparr>pm_ksatp = 0, pm_kpagetable = 0, pm_lock = 0, pm_pages = replicate 48 (free_page_desc 0),
      pm_num_pages = 0, pm_unclaimed_start = 0, pm_unclaimed_end = 0\<rparr>"

lemma boot_frames:
  defines "pm \<equiv> init_paged_memory_pages 0x80006000 0x81000000 blank_pm"
  shows "pm_wf pm" "taken pm = {}" "frames pm = (\<lambda>k. 0x80007000 + of_nat k * 4096) ` {..<48}" "nfree pm = 48"
    "\<forall>p \<in> set (pages_in_use pm). VPN (pg_ptr p) 2 = 2 \<and> VPN (pg_ptr p) 1 = 0"
proof -
  have ok: "pm_wf pm" "taken pm = {}"
    "frames pm = {0x80007000 + of_nat k * 4096 |k. k < 48 \<and> unat (0x80007000 :: addr) + k * 4096 < unat (0x81000000 :: addr)}"
    using init_pages_ok [of "0x81000000" "0x80006000" blank_pm]
    by (simp_all add: pm_def blank_pm_def PAGE_ROUND_UP_def PAGE_ROUND_DOWN_def)
  show "pm_wf pm" "taken pm = {}" by fact+
  show fr: "frames pm = (\<lambda>k. 0x80007000 + of_nat k * 4096) ` {..<48}" unfolding ok(3) by auto
  have unat: "unat (0x80007000 + of_nat k * 4096 :: addr) = 0x80007000 + k * 4096" if "k < 48" for k
    using that by (simp add: unat_plus_if' unat_word_ariths unat_of_nat)
  have "inj_on (\<lambda>k. 0x80007000 + of_nat k * 4096 :: addr) {..<48}"
    by (rule inj_onI) (use unat in \<open>metis add_left_cancel lessThan_iff mult_cancel2 zero_neq_numeral\<close>)
  then show "nfree pm = 48" by (simp add: nfree_def fr ok(2) card_image)
  have v: "VPN (0x80007000 + of_nat k * 4096) 2 = 2" "VPN (0x80007000 + of_nat k * 4096) 1 = 0" if "k < 48" for k
  proof -
    have "(0x80007000 + k * 4096) div 2097152 = 1024" by (rule div_nat_eqI) (use that in simp_all)
    then show "VPN (0x80007000 + of_nat k * 4096) 2 = 2" "VPN (0x80007000 + of_nat k * 4096) 1 = 0"
      using unat [OF that] that by (simp_all add: VPN_nat)
  qed
  have "\<forall>a \<in> frames pm. VPN a 2 = 2 \<and> VPN a 1 = 0"
    unfolding fr ball_simps(9) by (intro ballI conjI v; simp only: lessThan_iff)
  then show "\<forall>p \<in> set (pages_in_use pm). VPN (pg_ptr p) 2 = 2 \<and> VPN (pg_ptr p) 1 = 0" by (simp add: frames_def)
qed

lemma boot_table_built: "\<exists>mem' pm'. init_paged_memory user_layout 0x81000000 (mem, blank_pm) = Inr (mem', pm')"
proof -
  let ?pm = "init_paged_memory_pages 0x80006000 0x81000000 blank_pm"
  have perms: "PERM_KDATA < 2 ^ 10" "PERM_KCODE < 2 ^ 10" "PERM_KRODATA < 2 ^ 10"
    by (simp_all add: PERM_KDATA_def PERM_KCODE_def PERM_KRODATA_def)
  obtain pt pm1 where pt: "kalloc ''make_kernel_page_table'' (-1) ?pm = Inr (pt, pm1)" "pt \<noteq> 0" "nfree pm1 = 47"
    using kalloc_free [OF boot_frames(1), of "''make_kernel_page_table''" "-1"] boot_frames(4) by auto
  note got = kalloc_got [OF boot_frames(1) pt(1,2)]
  let ?s0 = "(memset mem pt PAGE_SIZE 0, pm1)"
  have wf: "as_wf pt ?s0" using cleared_table(1) [OF got(1)] got(3) by simp
  obtain s1 where s1: "map_page_sv39 pt 0x80000000 0x80000000 PERM_KDATA (-1) ?s0 = Inr s1" "45 \<le> nfree (snd s1)"
    using map_page_total [of ?s0 pt "0x80000000" "0x80000000" PERM_KDATA "-1"] got(1) pt(3) by fastforce
  have "leaf_pte 0x80000000 PERM_KDATA \<noteq> 0" using leaf_pte_valid(1) [OF perms(1), of "0x80000000"] by (auto simp: HAS_V_def)
  then have b1: "beside pt 45 s1"
    using vm_as.map1_inv [OF wf s1(1)] vm_as.map1_pte [OF wf s1(1)] s1(2) by (simp add: beside_def)
  obtain s2 where s2: "map_range_id pt 0x80001000 0x80002000 PERM_KCODE s1 = Inr s2" "beside pt 45 s2"
    using map_range_beside [OF b1 _ perms(2), of "0x80001000" 1 "0x80002000"] by (auto simp: range_pages_def VPN_def)
  obtain s3 where s3: "map_range_id pt 0x80003000 0x80005000 PERM_KRODATA s2 = Inr s3" "beside pt 45 s3"
    using map_range_beside [OF s2(2) _ perms(3), of "0x80003000" 2 "0x80005000"] by (auto simp: range_pages_def VPN_def upt_rec)
  obtain s4 where s4: "map_range_id pt 0x80004000 0x80007000 PERM_KDATA s3 = Inr s4" "beside pt 45 s4"
    using map_range_beside [OF s3(2) _ perms(1), of "0x80004000" 3 "0x80007000"] by (auto simp: range_pages_def VPN_def upt_rec)
  obtain s5 where s5: "map_pages pt (pages_in_use ?pm) s4 = Inr s5" "beside pt 45 s5"
    using map_all_beside [OF s4(2) _ perms(1), of "map (\<lambda>p. (pg_ptr p, pg_ptr p)) (pages_in_use ?pm)" "-1"] boot_frames(5)
    unfolding map_pages_all by auto
  obtain s6 where "map_pages pt (map free_page_desc device_pages) s5 = Inr s6"
    using map_all_total [of s5 "map (\<lambda>p. (pg_ptr p, pg_ptr p)) (map free_page_desc device_pages)" pt PERM_KDATA "-1"] s5(2)
    unfolding map_pages_all by (auto simp: beside_def as_wf_def device_pages_def)
  then have "make_kernel_page_table user_layout (pages_in_use ?pm) (mem, ?pm) = Inr (pt, s6)"
    using pt(1,2) s1(1) s2(1) s3(1) s4(1) s5(1)
    by (simp add: make_kernel_page_table_def map_page_id_def device_pages_def user_layout_def KERNEL_CODE_START_def
      PAGE_ROUND_DOWN_def PAGE_ROUND_UP_def)
  then show ?thesis by (cases s6) (auto simp: init_paged_memory_def user_layout_def)
qed

text \<open>
  C19: what \<open>init_paged_memory\<close> leaves behind when it returns. The frames are the
  page-aligned addresses from the first page boundary above \<open>heap_start\<close>, page by
  page, below the end of RAM, 48 at most; the allocator's invariant holds; the frames
  taken are those of the kernel's page table and no others, and the word for
  \<open>satp\<close> points to it. The table is a well-formed tree; every entry in it maps a page
  to itself for supervisor mode only, never both writable and executable; and
  every frame, the timer, the PLIC threshold page and the UART are mapped as data.
\<close>

theorem init_paged_memory_ok:
  assumes "unat e \<le> 2 ^ 39" "unat (heap_start ly) + 4096 < 2 ^ 64" "length (pm_pages pm) = MAX_PAGES"
    "init_paged_memory ly e (mem, pm) = Inr (mem', pm')"
  defines "base \<equiv> PAGE_ROUND_UP (heap_start ly)" and "pt \<equiv> pm_kpagetable pm'"
  shows "pm_wf pm' \<and> frames pm' = {base + of_nat k * 4096 |k. k < MAX_PAGES \<and> unat base + k * 4096 < unat e} \<and>
    pt \<noteq> 0 \<and> pm_ksatp pm' = MAKE_SATP pt \<and> as_wf pt (mem', pm') \<and> taken pm' = tables 2 mem' pt \<and>
    (\<forall>va. kernel_entry va (pte_at pt (mem', pm') va) \<and> \<not> HAS_U (pte_at pt (mem', pm') va) \<and>
      \<not> (HAS_W (pte_at pt (mem', pm') va) \<and> HAS_X (pte_at pt (mem', pm') va))) \<and>
    (\<forall>a \<in> frames pm' \<union> set device_pages. pte_at pt (mem', pm') a = leaf_pte a PERM_KDATA)"
proof -
  let ?pm = "init_paged_memory_pages (heap_start ly) e pm"
  have e: "unat e + 4096 \<le> 2 ^ 64" using assms(1) by simp
  note ok = init_pages_ok [OF e assms(2,3), folded base_def]
  obtain pmk where mk: "make_kernel_page_table ly (pages_in_use ?pm) (mem, ?pm) = Inr (pt, mem', pmk)"
    and pm': "pm' = pmk\<lparr>pm_kpagetable := pt, pm_ksatp := MAKE_SATP pt\<rparr>"
    using init_paged_memory_table [OF assms(4)] unfolding pt_def by auto
  obtain s where s: "kernel_table (frames ?pm) pt s"
    "map_pages pt (pages_in_use ?pm @ map free_page_desc device_pages) s = Inr (mem', pmk)"
    using make_kernel_page_table_stages [OF mk] ok by blast
  have k: "as_wf pt (mem', pmk)" "taken pmk = tables 2 mem' pt" "frames pmk = frames ?pm" "pm_wf pmk"
    "\<And>va. kernel_entry va (pte_at pt (mem', pmk) va)"
    using kernel_table_pages [OF s] by (simp_all add: kernel_table_def account_def as_wf_def)
  have "\<forall>a \<in> frames ?pm. unat a < 2 ^ 39" using ok frame_below [OF assms(1)] by auto
  moreover have "\<forall>a \<in> frames ?pm. page_aligned a" using ok frames_aligned by blast
  ultimately have "\<forall>p \<in> set (pages_in_use ?pm @ map free_page_desc device_pages). page_aligned (pg_ptr p) \<and> unat (pg_ptr p) < 2 ^ 39"
    using device_pages_ok by (auto simp: frames_def)
  from map_pages_data [OF s(2) _ this] have "\<forall>a \<in> frames ?pm \<union> set device_pages. data_page pt (mem', pmk) a"
    using s(1) by (simp add: kernel_table_def account_def frames_def image_Un image_image ball_Un)
  moreover have "\<forall>va. kernel_entry va (pte_at pt (mem', pmk) va) \<and> \<not> HAS_U (pte_at pt (mem', pmk) va) \<and>
      \<not> (HAS_W (pte_at pt (mem', pmk) va) \<and> HAS_X (pte_at pt (mem', pmk) va))"
    using k(5) kernel_entry_rights by blast
  moreover have "pt \<noteq> 0" using mk by (auto simp: make_kernel_page_table_def split: if_splits)
  ultimately show ?thesis
    using k(1-4) ok unfolding pm' by (simp add: as_wf_def pte_at_def data_page_def)
qed

theorem init_paged_memory_ok_witness:
  "\<exists>mem' pm'. init_paged_memory user_layout 0x81000000 (\<lambda>_. 0, blank_pm) = Inr (mem', pm') \<and> pm_wf pm' \<and>
     taken pm' = tables 2 mem' (pm_kpagetable pm') \<and>
     pte_at (pm_kpagetable pm') (mem', pm') UART_BASE = leaf_pte UART_BASE PERM_KDATA"
proof -
  obtain mem' pm' where r: "init_paged_memory user_layout 0x81000000 (\<lambda>_. 0, blank_pm) = Inr (mem', pm')"
    using boot_table_built by blast
  have "UART_BASE \<in> set device_pages" by (simp add: device_pages_def)
  then show ?thesis
    using init_paged_memory_ok [OF _ _ _ r] r by (simp add: user_layout_def blank_pm_def)
qed

end
