(* ===== verification/Mmode.thy ===== *)
theory Mmode
  imports Boards
begin

text \<open>
  The builds for machines without supervisor mode (\<^verbatim>\<open>hifive1-revb\<close>, \<^verbatim>\<open>qemu_e\<close>): the
  branches of \<^verbatim>\<open>src/riscv.c\<close>, \<^verbatim>\<open>src/pmp.c\<close>, \<^verbatim>\<open>src/kernel.c\<close> and \<^verbatim>\<open>src/timer.c\<close> that apply
  when \<open>HAS_S_MODE\<close> is 0, and what physical memory protection then lets a user
  program do. Registers are those of the 64-bit build (\<^verbatim>\<open>os_sifive_e\<close>).
\<close>

section \<open>Registers\<close>

text \<open>The names of \<^verbatim>\<open>include/asm.h\<close> stand for the registers of machine mode.\<close>

record mregs =
  mr_priv :: priv
  mr_tp :: regsize
  mr_status :: u32
  mr_ie :: regsize
  mr_scratch :: regsize
  mr_tvec :: regsize
  mr_epc :: regsize
  mr_pmpaddr0 :: regsize
  mr_pmpaddr1 :: regsize
  mr_pmpaddr2 :: regsize
  mr_pmpaddr3 :: regsize
  mr_pmpcfg0 :: regsize

definition MPP_MODE_U :: u32 where "MPP_MODE_U = push_bit 11 0"

definition get_tp :: "mregs \<Rightarrow> u32" where "get_tp r = ucast (mr_tp r)"
definition m_get_status_csr :: "mregs \<Rightarrow> u32" where "m_get_status_csr r = mr_status r"
definition m_set_status_csr :: "u32 \<Rightarrow> mregs \<Rightarrow> mregs" where "m_set_status_csr v r = r\<lparr>mr_status := v\<rparr>"
definition m_set_ie_csr :: "u32 \<Rightarrow> mregs \<Rightarrow> mregs" where "m_set_ie_csr v r = r\<lparr>mr_ie := mr_ie r OR ucast v\<rparr>"
definition get_epc_csr :: "mregs \<Rightarrow> addr" where "get_epc_csr r = mr_epc r"
definition set_jump_address :: "addr \<Rightarrow> mregs \<Rightarrow> mregs" where "set_jump_address func r = r\<lparr>mr_epc := func\<rparr>"
definition set_mepc_csr :: "addr \<Rightarrow> mregs \<Rightarrow> mregs" where "set_mepc_csr p r = r\<lparr>mr_epc := p\<rparr>"

definition m_set_pmpaddr0 :: "addr \<Rightarrow> mregs \<Rightarrow> mregs" where
  "m_set_pmpaddr0 a r = r\<lparr>mr_pmpaddr0 := shift_right_addr a 2\<rparr>"
definition set_pmpaddr1 :: "addr \<Rightarrow> mregs \<Rightarrow> mregs" where
  "set_pmpaddr1 a r = r\<lparr>mr_pmpaddr1 := shift_right_addr a 2\<rparr>"
definition set_pmpaddr2 :: "addr \<Rightarrow> mregs \<Rightarrow> mregs" where
  "set_pmpaddr2 a r = r\<lparr>mr_pmpaddr2 := shift_right_addr a 2\<rparr>"
definition set_pmpaddr3 :: "addr \<Rightarrow> mregs \<Rightarrow> mregs" where
  "set_pmpaddr3 a r = r\<lparr>mr_pmpaddr3 := shift_right_addr a 2\<rparr>"
definition m_set_pmpcfg0 :: "regsize \<Rightarrow> mregs \<Rightarrow> mregs" where
  "m_set_pmpcfg0 v r = r\<lparr>mr_pmpcfg0 := v\<rparr>"

definition m_set_status_interrupt_pending :: "mregs \<Rightarrow> mregs" where
  "m_set_status_interrupt_pending r = m_set_status_csr (m_get_status_csr r OR push_bit MSTATUS_MPIE_BIT 1) r"

definition m_set_status_interrupt_enable_and_pending :: "mregs \<Rightarrow> mregs" where
  "m_set_status_interrupt_enable_and_pending r =
     m_set_status_csr (m_get_status_csr r OR (push_bit MSTATUS_MIE_BIT 1 OR push_bit MSTATUS_MPIE_BIT 1)) r"

definition m_clear_status_interrupt_enable :: "mregs \<Rightarrow> mregs" where
  "m_clear_status_interrupt_enable r = m_set_status_csr (m_get_status_csr r AND NOT (push_bit MSTATUS_MIE_BIT 1)) r"

definition m_set_interrupt_enable_bits :: "mregs \<Rightarrow> mregs" where
  "m_set_interrupt_enable_bits r = m_set_ie_csr (push_bit MIE_MTIE_BIT 1 OR push_bit MIE_MEIE_BIT 1) r"

definition m_set_user_mode :: "mregs \<Rightarrow> mregs" where
  "m_set_user_mode r = m_set_status_csr (m_get_status_csr r AND MPP_MASK OR MPP_MODE_U) r"

definition m_disable_interrupts :: "mregs \<Rightarrow> mregs" where
  "m_disable_interrupts r = m_set_ie_csr 0 (m_clear_status_interrupt_enable r)"

definition m_enable_interrupts :: "mregs \<Rightarrow> mregs" where
  "m_enable_interrupts r = m_set_interrupt_enable_bits (m_set_status_interrupt_pending r)"

text \<open>The addresses of \<open>trap_frame\<close> and \<open>trap_vector\<close> are arguments, the frame itself is the last.\<close>

definition m_set_mscratch_csr :: "addr \<Rightarrow> mregs \<Rightarrow> mregs" where "m_set_mscratch_csr p r = r\<lparr>mr_scratch := p\<rparr>"
definition m_set_mtvec_csr :: "addr \<Rightarrow> mregs \<Rightarrow> mregs" where "m_set_mtvec_csr p r = r\<lparr>mr_tvec := p\<rparr>"

definition m_init_trap_vector :: "addr \<Rightarrow> addr \<Rightarrow> regsize \<Rightarrow> mregs \<Rightarrow> trap_frame_t \<Rightarrow> mregs \<times> trap_frame_t" where
  "m_init_trap_vector frame vector hartid r tf =
     (m_set_mtvec_csr vector (m_set_mscratch_csr frame r), set_reg REG_TP hartid tf)"

text \<open>The instruction \<^verbatim>\<open>mret\<close> at the end of \<open>ret_to_user\<close>.\<close>

definition m_mret :: "mregs \<Rightarrow> addr \<times> mregs" where
  "m_mret r =
     (let s = mr_status r; mpp = drop_bit 11 s AND 3;
          s' = (if bit s MSTATUS_MPIE_BIT then s OR push_bit MSTATUS_MIE_BIT 1
                else s AND NOT (push_bit MSTATUS_MIE_BIT 1)) OR push_bit MSTATUS_MPIE_BIT 1
      in (mr_epc r, r\<lparr>mr_priv := (if mpp = 3 then MMode else if mpp = 1 then SMode else UMode), mr_status := s' AND MPP_MASK\<rparr>))"

section \<open>Physical memory protection\<close>

definition PMP_1 :: regsize where [simp, kconsts]: "PMP_1 = push_bit 8 1"
definition PMP_2 :: regsize where [simp, kconsts]: "PMP_2 = push_bit 16 1"

definition m_init_pmp :: "addr \<Rightarrow> addr \<Rightarrow> addr \<Rightarrow> regsize \<Rightarrow> mregs \<Rightarrow> addr \<times> mregs" where
  "m_init_pmp user_payload rodata ram_start ram_size r =
     (let paged_mem_end = ram_start + ram_size;
          r = m_set_pmpaddr0 user_payload r;
          r = set_pmpaddr1 rodata r;
          r = set_pmpaddr2 paged_mem_end r;
          mode = PMP_TOR * (PMP_0 OR PMP_1 OR PMP_2);
          access_flags = ((PMP_X OR PMP_R) * PMP_1) OR ((PMP_W OR PMP_R) * PMP_2)
      in (paged_mem_end, m_set_pmpcfg0 (mode OR access_flags) r))"

text \<open>
  What the hardware makes of it, after the privileged specification that
  \<^verbatim>\<open>src/pmp.c\<close> quotes: the lowest-numbered entry in mode TOR whose range contains the
  address decides; a user program may not touch what no entry matches. An entry
  in another mode than OFF or TOR does not occur.
\<close>

datatype access = Read | Write | Execute

fun access_bit :: "access \<Rightarrow> nat" where
  "access_bit Read = 0"
| "access_bit Write = 1"
| "access_bit Execute = 2"

definition pmp_bounds :: "mregs \<Rightarrow> regsize list" where
  "pmp_bounds r = [mr_pmpaddr0 r, mr_pmpaddr1 r, mr_pmpaddr2 r, mr_pmpaddr3 r]"

fun pmp_search :: "regsize \<Rightarrow> regsize list \<Rightarrow> nat \<Rightarrow> regsize \<Rightarrow> regsize \<Rightarrow> nat option" where
  "pmp_search cfg [] i low a = None"
| "pmp_search cfg (hi # his) i low a =
     (if drop_bit (8 * i + 3) cfg AND 3 = 1 \<and> low \<le> a \<and> a < hi then Some i else pmp_search cfg his (i + 1) hi a)"

definition user_may :: "mregs \<Rightarrow> access \<Rightarrow> addr \<Rightarrow> bool" where
  "user_may r acc a =
     (case pmp_search (mr_pmpcfg0 r) (pmp_bounds r) 0 0 (drop_bit 2 a) of
        None \<Rightarrow> False
      | Some i \<Rightarrow> bit (mr_pmpcfg0 r) (8 * i + access_bit acc))"

lemma drop_less_aligned:
  assumes "unat t mod 4 = 0"
  shows "drop_bit 2 a < drop_bit 2 (t :: addr) \<longleftrightarrow> a < t"
proof -
  have d: "unat (drop_bit 2 x) = unat x div 4" for x :: addr
    using unsigned_drop_bit_eq [of 2 x, where ?'a = nat] unat_lt64 [of x] by (simp add: take_bit_eq_mod drop_bit_eq_div)
  have t: "unat t div 4 * 4 = unat t" using assms by (simp add: mod_0_imp_dvd)
  have "drop_bit 2 a < drop_bit 2 t \<longleftrightarrow> unat a div 4 < unat t div 4" by (simp only: word_less_nat_alt d)
  also have "\<dots> \<longleftrightarrow> unat a < unat t div 4 * 4" by (rule div_less_iff_less_mult) simp
  finally show ?thesis unfolding t by (simp only: word_less_nat_alt)
qed

lemma pmp_access_regions:
  assumes "m_init_pmp user_payload rodata ram_start ram_size r = (mem_end, r')"
    "user_payload \<le> rodata" "rodata \<le> mem_end"
    "unat user_payload mod 4 = 0" "unat rodata mod 4 = 0" "unat mem_end mod 4 = 0"
  shows "user_may r' Execute a \<longleftrightarrow> user_payload \<le> a \<and> a < rodata"
    "user_may r' Write a \<longleftrightarrow> rodata \<le> a \<and> a < mem_end"
    "user_may r' Read a \<longleftrightarrow> user_payload \<le> a \<and> a < mem_end"
proof -
  have r': "r' = r\<lparr>mr_pmpaddr0 := drop_bit 2 user_payload, mr_pmpaddr1 := drop_bit 2 rodata, mr_pmpaddr2 := drop_bit 2 mem_end,
      mr_pmpcfg0 := 0x0b0d08\<rparr>"
    using assms(1) by (auto simp: m_init_pmp_def m_set_pmpaddr0_def set_pmpaddr1_def set_pmpaddr2_def m_set_pmpcfg0_def
      shift_right_addr_def Let_def)
  have below: "drop_bit 2 a < drop_bit 2 user_payload \<longleftrightarrow> a < user_payload" "drop_bit 2 a < drop_bit 2 rodata \<longleftrightarrow> a < rodata"
    "drop_bit 2 a < drop_bit 2 mem_end \<longleftrightarrow> a < mem_end"
    by (intro drop_less_aligned assms(4-6))+
  have "pmp_search (mr_pmpcfg0 r') (pmp_bounds r') 0 0 (drop_bit 2 a) =
     (if a < user_payload then Some 0 else if a < rodata then Some 1 else if a < mem_end then Some 2 else None)"
    using assms(2,3) below by (auto simp: r' pmp_bounds_def not_less [symmetric])
  then show "user_may r' Execute a \<longleftrightarrow> user_payload \<le> a \<and> a < rodata"
    "user_may r' Write a \<longleftrightarrow> rodata \<le> a \<and> a < mem_end" "user_may r' Read a \<longleftrightarrow> user_payload \<le> a \<and> a < mem_end"
    using assms(2,3) by (auto simp: user_may_def r' bit_numeral_rec)
qed

section \<open>Properties\<close>

text \<open>
  C39: on a machine without supervisor mode \<open>init_pmp\<close> lets a user program execute
  exactly the section of user code, write exactly what lies between \<open>rodata\<close> and the
  end of RAM, and read exactly these two.
\<close>

theorem pmp_user_access:
  assumes "m_init_pmp user_payload rodata ram_start ram_size r = (mem_end, r')"
    "user_payload \<le> rodata" "rodata \<le> mem_end"
    "unat user_payload mod 4 = 0" "unat rodata mod 4 = 0" "unat mem_end mod 4 = 0"
  shows "(user_may r' Execute a \<longleftrightarrow> user_payload \<le> a \<and> a < rodata) \<and>
    (user_may r' Write a \<longleftrightarrow> rodata \<le> a \<and> a < mem_end) \<and>
    (user_may r' Read a \<longleftrightarrow> user_payload \<le> a \<and> a < mem_end)"
  using pmp_access_regions [OF assms] by blast

definition reset_mregs :: mregs where
  "reset_mregs = \<lparr>mr_priv = MMode, mr_tp = 0, mr_status = 0, mr_ie = 0, mr_scratch = 0, mr_tvec = 0, mr_epc = 0,
     mr_pmpaddr0 = 0, mr_pmpaddr1 = 0, mr_pmpaddr2 = 0, mr_pmpaddr3 = 0, mr_pmpcfg0 = 0\<rparr>"

theorem pmp_user_access_witness:
  "user_may (snd (m_init_pmp 0x20402000 0x20405000 0x80000000 0x4000 reset_mregs)) Execute 0x20402000 \<and>
   \<not> user_may (snd (m_init_pmp 0x20402000 0x20405000 0x80000000 0x4000 reset_mregs)) Read 0x20400000 \<and>
   user_may (snd (m_init_pmp 0x20402000 0x20405000 0x80000000 0x4000 reset_mregs)) Write 0x80000000"
proof -
  obtain e r' where e: "m_init_pmp 0x20402000 0x20405000 0x80000000 0x4000 reset_mregs = (e, r')" by fastforce
  then have "e = 0x80004000" by (simp add: m_init_pmp_def Let_def)
  with pmp_user_access [OF e] e show ?thesis by simp
qed

text \<open>
  Where the code is in ROM the memory below the heap is RAM: the kernel's stack and
  data lie between \<open>rodata\<close> and the end of RAM, and a user program can write them.
\<close>

lemma kernel_data_exposed:
  assumes "m_init_pmp user_payload rodata ram_start ram_size r = (mem_end, r')"
    "user_payload \<le> rodata" "rodata \<le> ram_start" "ram_start \<le> a" "a < mem_end"
    "unat user_payload mod 4 = 0" "unat rodata mod 4 = 0" "unat mem_end mod 4 = 0"
  shows "user_may r' Write a"
proof -
  have "rodata \<le> a" using assms(3,4) by (rule order_trans)
  with assms(5) have "user_may r' Write a \<longleftrightarrow> rodata \<le> a \<and> a < mem_end"
    by (intro pmp_access_regions(2) [OF assms(1,2) _ assms(6-8)]) (simp add: order_trans less_imp_le)
  with \<open>rodata \<le> a\<close> assms(5) show ?thesis by simp
qed

text \<open>The return to a user program: in user mode at the address given, with interrupts on.\<close>

lemma return_to_user:
  "case m_mret (set_jump_address pc (m_set_user_mode (m_set_status_interrupt_pending r))) of (pc', r') \<Rightarrow>
     pc' = pc \<and> mr_priv r' = UMode \<and> bit (mr_status r') MSTATUS_MIE_BIT"
  by (simp add: m_mret_def set_jump_address_def m_set_user_mode_def m_set_status_interrupt_pending_def m_set_status_csr_def
    m_get_status_csr_def MPP_MASK_def MPP_MODE_U_def Let_def and.assoc) (simp add: bit_simps bit_numeral_rec)

end
