(* ===== verification/Diag.thy ===== *)
theory Diag
  imports Traps Reclaim
begin

text \<open>
  Diagnostics of the kernel: \<open>panic\<close> (\<^verbatim>\<open>src/kernel.c\<close>) and the printers of page tables
  (\<^verbatim>\<open>src/vm.c\<close>); the small functions of \<^verbatim>\<open>src/proc.c\<close> and \<^verbatim>\<open>user/src/errno.c\<close> that no
  other theory needs.
\<close>

section \<open>Panic\<close>

text \<open>The state in which \<open>panic\<close> parks the hart for ever (\<open>hard_park_hart\<close>).\<close>

definition panic :: "string \<Rightarrow> kernel \<Rightarrow> kernel" where
  "panic message k =
     (let k = upd_csr disable_interrupts k;
          k = snd (uart_prints ''panic: '' k);
          k = snd (uart_prints message k)
      in snd (uart_prints [NL] k))"

section \<open>Printing page tables\<close>

definition HAS_G :: "regsize \<Rightarrow> bool" where "HAS_G pte \<longleftrightarrow> pte AND PTE_G \<noteq> 0"
definition HAS_A :: "regsize \<Rightarrow> bool" where "HAS_A pte \<longleftrightarrow> pte AND PTE_A \<noteq> 0"
definition HAS_D :: "regsize \<Rightarrow> bool" where "HAS_D pte \<longleftrightarrow> pte AND PTE_D \<noteq> 0"

definition print_perms :: "regsize \<Rightarrow> kernel \<Rightarrow> kernel res" where
  "print_perms pte k =
     bnd (if HAS_D pte then kprintf ''D'' (vec7 []) k else Inr k) (\<lambda>k.
     bnd (if HAS_A pte then kprintf ''A'' (vec7 []) k else Inr k) (\<lambda>k.
     bnd (if HAS_G pte then kprintf ''G'' (vec7 []) k else Inr k) (\<lambda>k.
     bnd (if HAS_U pte then kprintf ''U'' (vec7 []) k else Inr k) (\<lambda>k.
     bnd (if HAS_X pte then kprintf ''X'' (vec7 []) k else Inr k) (\<lambda>k.
     bnd (if HAS_W pte then kprintf ''W'' (vec7 []) k else Inr k) (\<lambda>k.
     bnd (if HAS_R pte then kprintf ''R'' (vec7 []) k else Inr k) (\<lambda>k.
     if HAS_V pte then kprintf ''V'' (vec7 []) k else Inr k)))))))"

text \<open>The recursion follows the entries as deep as they go; the first argument bounds the depth.\<close>

definition dump_leaf :: "nat \<Rightarrow> regsize \<Rightarrow> kernel \<Rightarrow> kernel res" where
  "dump_leaf i pte k =
     bnd (if i < 10 then kprintf '' '' (vec7 []) k else Inr k) (\<lambda>k.
     bnd (kprintf ''%d: %x - %x; '' (vec7 [of_nat i, pte, PTE_TO_PHYS pte]) k) (\<lambda>k.
     bnd (print_perms pte k) (\<lambda>k.
     kprintf [NL] (vec7 []) k)))"

primrec dump_page_table_r :: "nat \<Rightarrow> addr \<Rightarrow> int \<Rightarrow> kernel \<Rightarrow> kernel res" where
  "dump_page_table_r 0 pt level k = Inl Diverges"
| "dump_page_table_r (Suc n) pt level k =
     bnd (kprintf (''PT DUMP, L%d: %p'' @ [NL]) (vec7 [of_int level, pt]) k) (\<lambda>k.
     foldl (\<lambda>r i. bnd r (\<lambda>k.
       let pte = load64 (k_mem k) (pt_entry pt i) in
       if IS_VALID pte then
         if IS_NONLEAF pte then
           bnd (kprintf (''recurse %d: %x - %x'' @ [NL]) (vec7 [of_nat i, pte, PTE_TO_PHYS pte]) k) (\<lambda>k.
           dump_page_table_r n (PTE_TO_PHYS pte) (level - 1) k)
         else dump_leaf i pte k
       else Inr k)) (Inr k) [0..<512])"

definition dump_page_table :: "addr \<Rightarrow> kernel \<Rightarrow> kernel res" where
  "dump_page_table pt k = dump_page_table_r 4 pt 2 k"

text \<open>\<open>prints m k\<close>: the operation returns and has only written to the console.\<close>

definition prints_only :: "kernel res \<Rightarrow> kernel \<Rightarrow> bool" where
  "prints_only m k \<longleftrightarrow> (\<exists>out. m = Inr (k\<lparr>k_console := out @ k_console k\<rparr>))"

lemma prints_skip [simp]: "prints_only (Inr k) k"
  by (auto simp: prints_only_def intro: exI [of _ "[]"])

lemma prints_bnd:
  assumes "prints_only m k" "\<And>k'. k_mem k' = k_mem k \<Longrightarrow> prints_only (f k') k'"
  shows "prints_only (bnd m f) k"
proof -
  obtain o1 where o1: "m = Inr (k\<lparr>k_console := o1 @ k_console k\<rparr>)" using assms(1) by (auto simp: prints_only_def)
  obtain o2 where "f (k\<lparr>k_console := o1 @ k_console k\<rparr>) = Inr (k\<lparr>k_console := o1 @ k_console k\<rparr>\<lparr>k_console := o2 @ o1 @ k_console k\<rparr>)"
    using assms(2) [of "k\<lparr>k_console := o1 @ k_console k\<rparr>"] by (auto simp: prints_only_def)
  then show ?thesis using o1 by (auto simp: prints_only_def intro!: exI [of _ "o2 @ o1"])
qed

lemma prints_fold:
  assumes "\<And>i k'. i \<in> set is \<Longrightarrow> k_mem k' = k_mem k \<Longrightarrow> prints_only (f i k') k'" "prints_only m k"
  shows "prints_only (foldl (\<lambda>r i. bnd r (f i)) m is) k"
  using assms by (induction "is" arbitrary: m) (auto intro: prints_bnd)

lemma prints_format:
  assumes "format_ref (read_cstr str_bound (k_mem k)) fmt args = Some out" "length args = 7" "length out < 4096"
  shows "prints_only (kprintf fmt args k) k"
  using kprintf_ref [OF assms] by (auto simp: prints_only_def)

text \<open>Numerals of 64-bit numbers have at most 65 characters.\<close>

lemma radix_len: "2 \<le> b \<Longrightarrow> n < 2 ^ 64 \<Longrightarrow> length (radix_str b n) \<le> 64"
  by (rule radix_str_length) (simp_all add: less_le_trans [OF _ power_mono [of 2 b 64]])

lemma signed_len: "2 \<le> b \<Longrightarrow> length (signed_str b (sint (w :: regsize))) \<le> 65"
  using radix_len [of b "nat \<bar>sint w\<bar>"] sint_greater_eq [of w] sint_less [of w]
  by (cases "sint w < 0") (simp_all add: signed_str_def nat_less_iff abs_less_iff)

lemma unsigned_len: "length (radix_str 16 (unat (w :: regsize))) \<le> 64"
  using radix_len [of 16 "unat w"] unat_lt64 [of w] by simp

lemmas num_lens = signed_len [of 10, simplified] signed_len [of 16, simplified] unsigned_len

lemma prints_text: "CHR ''%'' \<notin> set s \<Longrightarrow> length s < 4096 \<Longrightarrow> prints_only (kprintf s (vec7 []) k) k"
proof (rule prints_format)
  show "format_ref rd s args = Some s" if "CHR ''%'' \<notin> set s" for rd args
    using that by (induction s) auto
qed (simp_all add: vec7_def)

text \<open>The most negative number has no numeral (a flaw that \<^verbatim>\<open>printf-macro.h\<close> documents).\<close>

definition has_numeral :: "regsize \<Rightarrow> bool" where
  "has_numeral w \<longleftrightarrow> sint w \<noteq> - (2 ^ 63)"

lemma prints_perms: "prints_only (print_perms pte k) k"
  unfolding print_perms_def by (intro prints_bnd) (simp_all add: prints_text)

lemma of_nat_numeral: "i < 512 \<Longrightarrow> has_numeral (of_nat i)"
  by (simp add: has_numeral_def signed_of_nat signed_take_bit_int_eq_self)

lemma prints_leaf:
  assumes "i < 512" "has_numeral pte" "has_numeral (PTE_TO_PHYS pte)"
  shows "prints_only (dump_leaf i pte k) k"
proof -
  have "prints_only (kprintf ''%d: %x - %x; '' (vec7 [of_nat i, pte, PTE_TO_PHYS pte]) k) k" for k
    using assms of_nat_numeral [OF assms(1)] num_lens(1) [of "of_nat i"] num_lens(2) [of pte] num_lens(2) [of "PTE_TO_PHYS pte"]
    by (intro prints_format) (simp add: vec7_def verb_ref_def has_numeral_def, simp add: vec7_def, simp)
  then show ?thesis
    unfolding dump_leaf_def by (intro prints_bnd) (simp_all add: prints_text prints_perms NL_def)
qed

text \<open>All entries of the tree can be printed.\<close>

fun printable :: "nat \<Rightarrow> memory \<Rightarrow> addr \<Rightarrow> bool" where
  "printable 0 mem p \<longleftrightarrow> (\<forall>i < 512. has_numeral (entry mem p i) \<and> has_numeral (PTE_TO_PHYS (entry mem p i)))"
| "printable (Suc l) mem p \<longleftrightarrow> (\<forall>i < 512. has_numeral (entry mem p i) \<and> has_numeral (PTE_TO_PHYS (entry mem p i)) \<and>
     (entry mem p i \<noteq> 0 \<longrightarrow> printable l mem (PTE_TO_PHYS (entry mem p i))))"

lemma level_numeral: "-2 \<le> level \<Longrightarrow> level \<le> 2 \<Longrightarrow> has_numeral (of_int level)"
  by (simp add: has_numeral_def signed_of_int signed_take_bit_int_eq_self)

lemma prints_header:
  assumes "-2 \<le> level" "level \<le> 2"
  shows "prints_only (kprintf (''PT DUMP, L%d: %p'' @ [NL]) (vec7 [of_int level, pt]) k) k"
  using level_numeral [OF assms] num_lens(1) [of "of_int level"] num_lens(3) [of pt]
  by (intro prints_format) (simp add: vec7_def verb_ref_def has_numeral_def NL_def, simp add: vec7_def, simp)

lemma prints_recurse:
  assumes "i < 512" "has_numeral pte" "has_numeral (PTE_TO_PHYS pte)"
  shows "prints_only (kprintf (''recurse %d: %x - %x'' @ [NL]) (vec7 [of_nat i, pte, PTE_TO_PHYS pte]) k) k"
  using assms of_nat_numeral [OF assms(1)] num_lens(1) [of "of_nat i"] num_lens(2) [of pte] num_lens(2) [of "PTE_TO_PHYS pte"]
  by (intro prints_format) (simp add: vec7_def verb_ref_def has_numeral_def NL_def, simp add: vec7_def, simp)

lemma not_valid_zero: "\<not> IS_VALID 0"
  by (simp add: IS_VALID_def HAS_V_def HAS_W_def)

lemma dump_prints:
  assumes "tree l (k_mem k) p" "leafy l (k_mem k) p" "printable l (k_mem k) p" "l < n" "int l - 2 \<le> level" "level \<le> 2"
  shows "prints_only (dump_page_table_r n p level k) k"
  using assms
proof (induction l arbitrary: n p level k)
  case 0
  then obtain m where n: "n = Suc m" by (cases n) auto
  show ?case
    unfolding n dump_page_table_r.simps using 0
    by (intro prints_bnd prints_fold prints_header) (auto simp: Let_def prints_leaf)
next
  case (Suc l)
  then obtain m where n: "n = Suc m" "l < m" by (cases n) auto
  have entry: "prints_only (let pte = entry (k_mem k') p i in
       if IS_VALID pte then
         if IS_NONLEAF pte then
           bnd (kprintf (''recurse %d: %x - %x'' @ [NL]) (vec7 [of_nat i, pte, PTE_TO_PHYS pte]) k') (\<lambda>k.
           dump_page_table_r m (PTE_TO_PHYS pte) (level - 1) k)
         else dump_leaf i pte k'
       else Inr k') k'" if "i \<in> set [0..<512]" "k_mem k' = k_mem k" for i k'
  proof (cases "entry (k_mem k) p i = 0")
    case True
    then show ?thesis using that(2) by (simp add: Let_def not_valid_zero)
  next
    case False
    have i: "i < 512" using that(1) by simp
    have t: "IS_NONLEAF (entry (k_mem k) p i)" "tree l (k_mem k) (PTE_TO_PHYS (entry (k_mem k) p i))"
      using tree_entry [OF Suc.prems(1) i] False by auto
    have "prints_only (dump_page_table_r m (PTE_TO_PHYS (entry (k_mem k) p i)) (level - 1) k2) k2" if "k_mem k2 = k_mem k" for k2
      using Suc.prems t False i n that by (intro Suc.IH) auto
    then show ?thesis
      using t(1) that(2) Suc.prems(3) i by (auto simp: Let_def simp del: append.simps intro!: prints_bnd prints_recurse)
  qed
  show ?case
    unfolding n dump_page_table_r.simps using Suc.prems entry
    by (intro prints_bnd prints_fold prints_header) auto
qed

text \<open>\<open>dump_page_table\<close> returns on every table that the kernel builds, and only prints.\<close>

lemma dump_page_table_prints:
  assumes "as_wf pt (k_mem k, pm)" "leafy 2 (k_mem k) pt" "printable 2 (k_mem k) pt"
  shows "prints_only (dump_page_table pt k) k"
  using assms dump_prints [of 2 k pt 4 2] by (simp add: as_wf_def dump_page_table_def)

section \<open>Small functions\<close>

text \<open>\<open>cpus\<close> as a list of the processes they run; the index comes from register \<open>tp\<close>.\<close>

definition thiscpu :: "regsize \<Rightarrow> int" where
  "thiscpu tp = sint (ucast tp :: u32)"

definition current_proc :: "nat option list \<Rightarrow> regsize \<Rightarrow> nat option res" where
  "current_proc cpus tp =
     (let i = thiscpu tp in if 0 \<le> i \<and> i < int (length cpus) then Inr (cpus ! nat i) else Inl OutOfBounds)"

definition copy_context :: "regsize list \<Rightarrow> regsize list \<Rightarrow> regsize list" where
  "copy_context dst src = foldl (\<lambda>d i. d[i := src ! i]) dst [0..<14]"

lemma copy_context_all: "length dst = 14 \<Longrightarrow> length src = 14 \<Longrightarrow> copy_context dst src = src"
proof -
  have "foldl (\<lambda>d i. d[i := src ! i]) dst [0..<n] = take n src @ drop n dst" if "n \<le> 14" "length dst = 14" "length src = 14" for n
    using that
    by (induction n) (auto simp: list_update_append take_Suc_conv_app_nth Cons_nth_drop_Suc [symmetric] min_def)
  then show "length dst = 14 \<Longrightarrow> length src = 14 \<Longrightarrow> copy_context dst src = src"
    unfolding copy_context_def by simp
qed

definition reoffset_user_stack :: "nat \<Rightarrow> nat \<Rightarrow> nat \<Rightarrow> kernel \<Rightarrow> kernel" where
  "reoffset_user_stack dest src reg k =
     (let src_stack_page_virt = USR_VIRT (p_stack_page (proc_of k src));
          offset = tf_regs (p_trap (proc_of k src)) ! reg - src_stack_page_virt
      in upd_proc dest (\<lambda>p. p\<lparr>p_trap := set_reg reg (USR_VIRT (p_stack_page p + offset)) (p_trap p)\<rparr>) k)"

text \<open>\<open>__errno_location\<close>: the last word of the page that holds the stack pointer.\<close>

definition errno_location :: "regsize \<Rightarrow> addr" where
  "errno_location sp = (sp AND NOT (PAGE_SIZE - 1)) + PAGE_SIZE - 8"

lemma round_down_in_page:
  assumes "page_aligned v" "v \<le> sp" "unat sp < unat v + 4096"
  shows "PAGE_ROUND_DOWN sp = v"
proof -
  obtain q where q: "unat v = 4096 * q" using assms(1) by (auto simp: page_aligned_dvd elim: dvdE)
  have "4096 * q \<le> unat sp" "unat sp < 4096 * q + 4096" using assms(2,3) q by (simp_all add: word_le_nat_alt)
  then have "unat sp div 4096 = q" by (intro div_nat_eqI) simp_all
  then have "unat (PAGE_ROUND_DOWN sp) = unat v"
    unfolding unat_round_down q using minus_mod_eq_mult_div [of "unat sp" 4096] by simp
  then show ?thesis by (simp add: word_unat_eq_iff)
qed

section \<open>Properties\<close>

text \<open>
  C40: the kernel stores the error number of a failed call where the user library
  looks for it, the last word of the stack page, exactly when the stack of a
  process is a whole page. (\<open>v\<close> is the virtual address of the stack page, \<open>p\<close> the
  physical one.) With the small stacks of the run flag \<open>tiny-stack\<close> programs read
  another word.
\<close>

theorem errno_is_shared:
  assumes "page_aligned v" "v \<le> sp" "unat sp < unat v + 4096"
  shows "errno_location sp - v = set_perrno p k - p \<longleftrightarrow> k_user_stack_size k = PAGE_SIZE"
proof -
  have "errno_location sp = v + PAGE_SIZE - 8"
    using round_down_in_page [OF assms] by (simp only: errno_location_def PAGE_ROUND_DOWN_def)
  then show ?thesis by (simp add: set_perrno_def eq_commute)
qed

theorem errno_is_shared_witness:
  "errno_location 0x1fff00 - 0x1ff000 \<noteq> set_perrno 0x80100000 ((bss_kernel (\<lambda>_. 0))\<lparr>k_user_stack_size := 512\<rparr>) - 0x80100000 \<and>
   errno_location 0x1fff00 - 0x1ff000 = set_perrno 0x80100000 ((bss_kernel (\<lambda>_. 0))\<lparr>k_user_stack_size := PAGE_SIZE\<rparr>) - 0x80100000"
proof -
  have "page_aligned 0x1ff000" "(0x1ff000 :: addr) \<le> 0x1fff00" "unat (0x1fff00 :: addr) < unat (0x1ff000 :: addr) + 4096"
    by (simp_all add: page_aligned_def)
  note errno_is_shared [OF this, of "0x80100000"]
  then show ?thesis by simp
qed

end
