(* ===== verification/Spec2Isabelle.thy ===== *)
theory Spec2Isabelle
  imports Prelude Memory Pagealloc Vm Kstring Kstate Procbase Pipe Kprintf Bifs Uart Fs Devices Proc Syscall Fdt Kernel
    Invar Machine Boot Sched Traps Lifecycle Path Uprog Userland Tools Shell Lines Slots Console Lcd Screen
    Boards Ports Serial Sources Reclaim Mmode Diag
begin

text \<open>
  Verification library for a small RISC-V operating system: a kernel in C with
  paged virtual memory, processes, pipes, a baked-in read-only file system and a
  serial console, and the user programs and shell that are linked into it. The
  kernel is modelled as the 64-bit build for the \<^verbatim>\<open>virt\<close> machine of QEMU with the MMU
  on: one hart runs the operating system, with interrupts off inside the kernel.
  The code that differs on the other machines has theories of its own.

  \<^bold>\<open>Parts of the program and where they are modelled.\<close>

  \<^item> \<open>Prelude\<close>: machine types, the outcomes of code (\<open>fault\<close>, \<open>res\<close>, \<open>bnd\<close>), spinlocks
    (\<^verbatim>\<open>src/spinlock.c\<close>), error numbers; \<open>Memory\<close>: physical memory as bytes, \<^verbatim>\<open>src/mem.c\<close>.
  \<^item> \<open>Pagealloc\<close>: the page allocator (\<^verbatim>\<open>src/pagealloc.c\<close>); \<open>Vm\<close>: Sv39 page tables
    (\<^verbatim>\<open>src/vm.c\<close>), built in memory by the code's own pointer arithmetic.
  \<^item> \<open>Kstring\<close>: strings of the kernel and of user programs (\<^verbatim>\<open>src/string.c\<close>,
    \<^verbatim>\<open>user/src/ustr.c\<close>); \<open>Kprintf\<close>: the formatting macros of \<^verbatim>\<open>include/printf-macro.h\<close> and
    their three instances.
  \<^item> \<open>Kstate\<close>: the kernel's global data as one record \<open>kernel\<close>, with a table index for
    a pointer into a table; \<open>Procbase\<close>: process table primitives, sleeping and
    wakeup; \<open>Pipe\<close> (\<^verbatim>\<open>src/pipe.c\<close>), \<open>Bifs\<close> (\<^verbatim>\<open>src/bakedinfs.c\<close>, \<^verbatim>\<open>src/proc_test.c\<close>), \<open>Uart\<close>
    (\<^verbatim>\<open>src/drivers/uart/\<close>), \<open>Fs\<close> (\<^verbatim>\<open>src/fs.c\<close>): the files behind descriptors.
  \<^item> \<open>Devices\<close>: control registers, PMP, timer, PLIC and GPIO (\<^verbatim>\<open>src/riscv.c\<close>,
    \<^verbatim>\<open>src/pmp.c\<close>, \<^verbatim>\<open>src/timer.c\<close>, \<^verbatim>\<open>src/plic.c\<close>, \<^verbatim>\<open>src/gpio.c\<close>).
  \<^item> \<open>Proc\<close> (\<^verbatim>\<open>src/proc.c\<close>): fork, execv, exit, wait and the calls on descriptors;
    \<open>Syscall\<close> (\<^verbatim>\<open>src/syscalls.c\<close>, \<^verbatim>\<open>src/syscall.c\<close>): argument passing and dispatch;
    \<open>Fdt\<close> (\<^verbatim>\<open>src/fdt.c\<close>, \<^verbatim>\<open>src/runflags.c\<close>): boot arguments; \<open>Kernel\<close> (\<^verbatim>\<open>src/kernel.c\<close>): boot,
    interrupt handlers and the scheduler's round.
  \<^item> \<open>Machine\<close>: the hart as a step relation over those handlers: user code, traps,
    the scheduler loop, the parked hart.
  \<^item> \<open>Uprog\<close>, \<open>Userland\<close> (\<^verbatim>\<open>user/src/userland.c\<close>, \<^verbatim>\<open>user/src/user-printf.c\<close>) and \<open>Shell\<close>
    (\<^verbatim>\<open>user/src/shell.c\<close>): user programs as functions from the kernel's answers to the
    system calls they make.
  \<^item> \<open>Lcd\<close>: the driver of the character display (\<^verbatim>\<open>src/drivers/hd44780/\<close>), as a sequence
    of pin events.
  \<^item> \<open>Boards\<close>: the machines (\<^verbatim>\<open>include/machine/\<close>) as records and the interrupt
    controller of each (\<^verbatim>\<open>src/plic.c\<close>); \<open>Ports\<close>: the four serial drivers
    (\<^verbatim>\<open>src/drivers/uart/uart-*.c\<close>) and the console over them; \<open>Sources\<close>: the timers of
    \<^verbatim>\<open>src/machine/d1/timer.c\<close> and \<^verbatim>\<open>src/timer-sbi.c\<close>. Registers are a parameter, the
    record \<open>bus\<close> of reads and writes over the state of a device, and so is the
    firmware that \<open>sbi_ecall\<close> calls; a loop that polls a register is \<open>spin\<close>, whose
    value \<open>None\<close> means that it never ends.
  \<^item> \<open>Mmode\<close>: the builds without supervisor mode (\<^verbatim>\<open>src/riscv.c\<close>, \<^verbatim>\<open>src/pmp.c\<close>).
  \<^item> \<open>Diag\<close>: \<open>panic\<close>, the printers of page tables, \<^verbatim>\<open>user/src/errno.c\<close>.

  A kernel operation takes the kernel record and returns a \<open>fault\<close> or a result
  with the new record: a null dereference, an index out of bounds, a spinlock
  taken twice (a deadlock on one hart), an endless loop, a wrong cast, \<open>panic\<close>. An
  operation that blocks returns no value and leaves in the process record where
  it goes on (type \<open>kont\<close>), as \<open>swtch\<close> does on the kernel stack; \<open>resume\<close> continues
  it. User programs call the kernel through \<open>Syscall.syscall\<close>; in \<open>Machine\<close> user code
  is arbitrary, in \<open>Uprog\<close> the kernel's answers are, so the two sides are
  verified against every partner.

  \<^bold>\<open>What is shown.\<close>

  \<^item> \<open>Pagealloc\<close>: allocation hands out a free frame and only that, release returns
    it; the contract is the locale \<open>page_allocator\<close>, interpreted on the code.
  \<^item> \<open>Vm\<close>: \<open>map_page_sv39\<close> changes exactly one translation and terminates, \<open>va2pa\<close> reads
    it back, ranges are mapped page by page (locale \<open>address_space\<close>), user tables
    make nothing writable for user mode.
  \<^item> \<open>Kstring\<close>, \<open>Kprintf\<close>: numerals and formats against reference definitions; the
    three instances of the macro through the locale \<open>char_sink\<close>.
  \<^item> \<open>Pipe\<close>: a pipe is a bounded channel (locale \<open>bounded_channel\<close>): counts, order,
    round trip; and what every transfer across the end of the ring reads back.
  \<^item> \<open>Path\<close>: opening a path is a walk over its components; reading returns the text.
  \<^item> \<open>Invar\<close>, \<open>Boot\<close>, \<open>Machine\<close>: every operation keeps the tables well formed (predicate
    \<open>kinv\<close>, by weakest preconditions \<open>post\<close>); boot establishes it, so in every
    reachable state at most one process runs, the one the hart executes.
  \<^item> \<open>Traps\<close>, \<open>Sched\<close>, \<open>Lifecycle\<close>: system calls end to end, the scheduler's choice, its
    parking and its spinning from any point of its loop, fork, wait, exit,
    descriptors, and three flaws: among them that a process which the scheduler
    resumes keeps its own lock and deadlocks in later system calls.
  \<^item> \<open>Tools\<close>, \<open>Lines\<close>, \<open>Slots\<close>: the exact system calls of \<open>cat\<close> and \<open>echo\<close>, and \<open>wc\<close>
    (locale \<open>copier\<close>, two interpretations), the shell's parser against a tokenizer
    within its limits of slots, words and characters, its slots and its pipe
    descriptors, whatever its calls of \<open>pipe\<close> and \<open>fork\<close> answer.
  \<^item> \<open>Console\<close>, \<open>Screen\<close>: a typed line of at most 62 characters reaches its reader as
    edited, in as many reads as its buffer takes; the display's
    buffer refines a terminal, and its bytes arrive at the controller.
  \<^item> \<open>Reclaim\<close>: freeing an address space returns every frame its tables took; after
    \<open>init_paged_memory\<close> the frames taken are those of the kernel's table, an identity
    map without user access in which nothing is both writable and executable.
  \<^item> \<open>Serial\<close>, \<open>Sources\<close>: what the data sheets promise of each serial port is a locale
    (\<open>ns_chip\<close>, \<open>dw_chip\<close>, \<open>ox_chip\<close>, \<open>sf_chip\<close>, all extending \<open>uart_hw\<close>, which assumes of the
    interrupt controller and of the port's control registers that a write changes
    the register written and no other, and of the values only that priorities up
    to the machine's maximum and the enable bits of existing sources are kept;
    nothing is assumed of other addresses) with a sublocale of the console's contract \<open>uart_port\<close>, in which the receive loop refines the one of the \<^verbatim>\<open>virt\<close> machine; the
    locales are interpreted on a simulated device per machine, \<open>uart_port\<close> also on
    the kernel's own console. The interrupt controller is left with the console's
    source alone.
  \<^item> \<open>Mmode\<close>, \<open>Diag\<close>: what physical memory protection leaves to user mode; where the
    error number is found.

  \<^bold>\<open>Bounds.\<close> Loops that the C code bounds are structural or have a termination
  proof. Where a loop may not end the model counts rounds up to a bound that no
  terminating run reaches, and returns \<open>Diverges\<close> behind it: \<open>map_range\<close> 2^52 pages,
  \<open>read_cstr\<close> 2^64 characters, \<open>len_argv\<close> 2^61 pointers, \<open>fdt_loop\<close> 2^63 tokens (in each
  case the address space is exhausted); \<open>free_page_table_r\<close> descends four levels,
  one more than Sv39 has; \<open>traverse\<close> descends as many commands as the pool holds,
  which suffices for every chain that \<open>parse\<close> builds (\<open>pipeline_closes\<close>). A loop of a
  user program ends the list of answers or the program. Two counters of
  type \<open>int\<close> are unbounded in the model, \<open>pt_num_procs\<close> and \<open>rx_num_newlines\<close>; they change by
  one with a process made or ended and a line typed or read, and so agree with the
  C integers in every run of less than 2^31 of these. The characters waiting in the
  receiver are those present when \<open>uart_enqueue_chars\<close> starts: one that arrives during its loop belongs to the next
  interrupt of the model.

  \<^bold>\<open>Not modelled.\<close> The assembly files (boot, trap entry, context switch, register
  saving of \<open>printf\<close>, system call stubs) and the linker script: the model states
  their effect on the structures the C code sees, and the addresses of the linker
  script are a parameter (\<open>layout\<close>). Power-off and restart, which are assembly; the
  empty functions of \<^verbatim>\<open>src/vm-stub.c\<close>; processes and system calls of the builds
  without MMU, beyond the functions of \<open>Mmode\<close>; the progress messages of \<open>fdt_init\<close>; the
  display calls that the build for \<^verbatim>\<open>hifive1-revb\<close> adds to the console, and its 32-bit
  registers. Other harts only spin and are left out. User code in \<open>Machine\<close> may write any memory outside the kernel's record
  fields; memory protection is shown for the tables, not for the MMU hardware.
\<close>

end
